(* ===== verification/Prelude.thy ===== *)
theory Prelude
  imports Main "HOL-Library.Sublist" "HOL-Library.AList" "HOL-Library.Char_ord"
    "HOL-Library.List_Lexorder"
begin

text \<open>
  Shared vocabulary of the development: the type of texts and paths, the exceptions the
  installer can raise, the error monad of its pure helpers, and the generic list lemmas that
  the components use.

  A Python \<^verbatim>\<open>str\<close> is modelled as a HOL \<open>string\<close>: one \<open>char\<close> per code point, for the code
  points U+0000 to U+00FF. The \<open>named_theorems\<close> collections gather the facts that a proof about
  the corresponding layer always needs.
\<close>

named_theorems res_simps \<open>unfolding of the error monad\<close>
named_theorems mask_intros \<open>introduction rules for the masking relation\<close>

type_synonym path = "string list"

datatype errno = ENOENT | ENOTDIR | EISDIR | EEXIST | ENOTEMPTY | ELOOP | EOTHER

text \<open>
  Exceptions. \<open>InstallError\<close> is the installer's own exception class; the others are exceptions
  of the Python library that its calls can raise and that \<^verbatim>\<open>main\<close> does not catch.
\<close>

datatype exn =
    InstallError string
  | OSErr errno path
  | OSMsg string
  | UnicodeDecodeErr path
  | ValueErr string
  | AssertionErr

type_synonym 'a res = "exn + 'a"

definition rbind :: "'a res \<Rightarrow> ('a \<Rightarrow> 'b res) \<Rightarrow> 'b res" where
  "rbind m f = (case m of Inl e \<Rightarrow> Inl e | Inr x \<Rightarrow> f x)"

definition raise_if :: "bool \<Rightarrow> exn \<Rightarrow> unit res" where
  "raise_if b e = (if b then Inl e else Inr ())"

lemma rbind_Inl [simp]: "rbind (Inl e) f = Inl e"
  by (simp add: rbind_def)

lemma rbind_Inr [simp]: "rbind (Inr x) f = f x"
  by (simp add: rbind_def)

lemma rbind_eq_Inr [res_simps]: "rbind m f = Inr y \<longleftrightarrow> (\<exists>x. m = Inr x \<and> f x = Inr y)"
  by (cases m) simp_all

lemma rbind_eq_Inl [res_simps]:
  "rbind m f = Inl e \<longleftrightarrow> m = Inl e \<or> (\<exists>x. m = Inr x \<and> f x = Inl e)"
  by (cases m) simp_all

lemma rbind_cong [fundef_cong]:
  "m = m' \<Longrightarrow> (\<And>x. m' = Inr x \<Longrightarrow> f x = g x) \<Longrightarrow> rbind m f = rbind m' g"
  by (cases m') simp_all

lemma raise_if_eq_Inr [res_simps]: "raise_if b e = Inr u \<longleftrightarrow> \<not> b"
  by (simp add: raise_if_def)

lemma raise_if_eq_Inl [res_simps]: "raise_if b e = Inl e' \<longleftrightarrow> b \<and> e' = e"
  by (auto simp: raise_if_def)

lemma raise_if_simps [simp]: "raise_if True e = Inl e" "raise_if False e = Inr ()"
  by (simp_all add: raise_if_def)

subsection \<open>Control characters\<close>

abbreviation LF :: char where "LF \<equiv> CHR ''\<newline>''"
abbreviation CR :: char where "CR \<equiv> CHR 0x0D"
abbreviation SP :: char where "SP \<equiv> CHR '' ''"
abbreviation HT :: char where "HT \<equiv> CHR 0x09"
abbreviation FF :: char where "FF \<equiv> CHR 0x0C"
abbreviation BSL :: char where "BSL \<equiv> CHR 0x5C"
abbreviation DQ :: char where "DQ \<equiv> CHR 0x22"
abbreviation SQ :: char where "SQ \<equiv> CHR 0x27"

text \<open>One-character strings for the escapes \<^verbatim>\<open>\t\<close> and \<^verbatim>\<open>\\<close> of the source's literals.\<close>

abbreviation TAB :: string where "TAB \<equiv> [HT]"
abbreviation BS :: string where "BS \<equiv> [BSL]"

subsection \<open>Lists\<close>

lemma list_all2_take_drop:
  "list_all2 P xs ys \<Longrightarrow> list_all2 P (take n (drop m xs)) (take n (drop m ys))"
  by (intro list_all2_takeI list_all2_dropI)

lemma list_all2_concat:
  "list_all2 (list_all2 P) xss yss \<Longrightarrow> list_all2 P (concat xss) (concat yss)"
  by (induction rule: list_all2_induct) (auto intro: list_all2_appendI)

lemma take_drop_split: "i + n \<le> length xs \<Longrightarrow> xs = take i xs @ take n (drop i xs) @ drop (i + n) xs"
  by (metis append_take_drop_id drop_drop add.commute)

lemma prefix_take_drop_iff:
  "prefix p (drop i s) \<longleftrightarrow> take (length p) (drop i s) = p"
  by (metis append_eq_conv_conj prefix_def)

end
