(* ===== verification/Py_Str.thy ===== *)
theory Py_Str
  imports Prelude
begin

text \<open>
  The operations of Python's \<^verbatim>\<open>str\<close> that the installer uses, on code points U+0000 to U+00FF:
  stripping, searching, counting, splitting into lines, \<^verbatim>\<open>repr\<close>, and the universal-newline
  translation of text-mode reads. The lemmas are the facts about searching and counting that
  the injection checks rest on.
\<close>

subsection \<open>Character classes\<close>

definition py_space :: "char \<Rightarrow> bool" where
  "py_space c \<longleftrightarrow> c \<in> set [CHR 0x09, LF, CHR 0x0B, CHR 0x0C, CR, CHR 0x1C, CHR 0x1D,
     CHR 0x1E, CHR 0x1F, SP, CHR 0x85, CHR 0xA0]"

text \<open>The line boundaries of \<^verbatim>\<open>str.splitlines\<close>.\<close>

definition py_break :: "char \<Rightarrow> bool" where
  "py_break c \<longleftrightarrow> c \<in> set [LF, CHR 0x0B, CHR 0x0C, CR, CHR 0x1C, CHR 0x1D, CHR 0x1E, CHR 0x85]"

text \<open>\<^verbatim>\<open>\w\<close> of a \<^verbatim>\<open>str\<close> pattern: the alphanumeric code points of Latin-1 and the underscore.\<close>

definition py_word :: "char \<Rightarrow> bool" where
  "py_word c \<longleftrightarrow> (let n = of_char c :: nat in
     48 \<le> n \<and> n \<le> 57 \<or> 65 \<le> n \<and> n \<le> 90 \<or> n = 95 \<or> 97 \<le> n \<and> n \<le> 122 \<or>
     n \<in> {170, 178, 179, 181, 185, 186, 188, 189, 190} \<or>
     192 \<le> n \<and> n \<noteq> 215 \<and> n \<noteq> 247)"

definition py_digit :: "char \<Rightarrow> bool" where
  "py_digit c \<longleftrightarrow> (let n = of_char c :: nat in 48 \<le> n \<and> n \<le> 57)"

definition py_lower_char :: "char \<Rightarrow> char" where
  "py_lower_char c = (let n = of_char c :: nat in
     if 65 \<le> n \<and> n \<le> 90 \<or> 192 \<le> n \<and> n \<le> 222 \<and> n \<noteq> 215 then char_of (n + 32) else c)"

definition py_lower :: "string \<Rightarrow> string" where
  "py_lower s = map py_lower_char s"

subsection \<open>Stripping\<close>

definition py_lstrip :: "string \<Rightarrow> string" where
  "py_lstrip s = dropWhile py_space s"

definition py_rstrip :: "string \<Rightarrow> string" where
  "py_rstrip s = rev (dropWhile py_space (rev s))"

definition py_strip :: "string \<Rightarrow> string" where
  "py_strip s = py_rstrip (py_lstrip s)"

text \<open>\<^verbatim>\<open>s.lstrip(chars)\<close> and \<^verbatim>\<open>s.rstrip(chars)\<close> for a one-character argument.\<close>

definition py_lstrip_char :: "char \<Rightarrow> string \<Rightarrow> string" where
  "py_lstrip_char c s = dropWhile (\<lambda>x. x = c) s"

definition py_rstrip_char :: "char \<Rightarrow> string \<Rightarrow> string" where
  "py_rstrip_char c s = rev (dropWhile (\<lambda>x. x = c) (rev s))"

subsection \<open>Searching and counting\<close>

fun py_find :: "string \<Rightarrow> string \<Rightarrow> nat option" where
  "py_find sub [] = (if sub = [] then Some 0 else None)"
| "py_find sub (c # cs) = (if prefix sub (c # cs) then Some 0 else map_option Suc (py_find sub cs))"

text \<open>\<^verbatim>\<open>s.find(sub, start)\<close>.\<close>

definition py_find_from :: "string \<Rightarrow> string \<Rightarrow> nat \<Rightarrow> nat option" where
  "py_find_from sub s i =
     (if i \<le> length s then map_option (\<lambda>k. i + k) (py_find sub (drop i s)) else None)"

definition py_in :: "string \<Rightarrow> string \<Rightarrow> bool" where
  "py_in sub s \<longleftrightarrow> py_find sub s \<noteq> None"

text \<open>\<^verbatim>\<open>s.count(sub)\<close>: the number of non-overlapping occurrences, from the left.\<close>

function py_count :: "string \<Rightarrow> string \<Rightarrow> nat" where
  "py_count sub s =
     (if sub = [] then Suc (length s)
      else case s of
        [] \<Rightarrow> 0
      | c # cs \<Rightarrow> if prefix sub s then Suc (py_count sub (drop (length sub) s)) else py_count sub cs)"
  by pat_completeness auto
termination
  by (relation "measure (\<lambda>(sub, s). length s)") auto

declare py_count.simps [simp del]

text \<open>\<^verbatim>\<open>s.replace(old, new, 1)\<close>.\<close>

definition py_replace1 :: "string \<Rightarrow> string \<Rightarrow> string \<Rightarrow> string" where
  "py_replace1 s old new =
     (case py_find old s of
        None \<Rightarrow> s
      | Some i \<Rightarrow> take i s @ new @ drop (i + length old) s)"

text \<open>\<^verbatim>\<open>s.index(sub)\<close> raises \<^verbatim>\<open>ValueError\<close> when there is no occurrence.\<close>

definition py_index :: "string \<Rightarrow> string \<Rightarrow> nat res" where
  "py_index s sub =
     (case py_find sub s of None \<Rightarrow> Inl (ValueErr ''substring not found'') | Some i \<Rightarrow> Inr i)"

subsection \<open>Lines, fields and joining\<close>

text \<open>\<^verbatim>\<open>s.splitlines(keepends=True)\<close>.\<close>

fun splitlines_keep :: "string \<Rightarrow> string list" where
  "splitlines_keep [] = []"
| "splitlines_keep (c # cs) =
     (if c = CR \<and> cs \<noteq> [] \<and> hd cs = LF then [c, LF] # splitlines_keep (tl cs)
      else if py_break c then [c] # splitlines_keep cs
      else case splitlines_keep cs of [] \<Rightarrow> [[c]] | l # ls \<Rightarrow> (c # l) # ls)"

definition chop_break :: "string \<Rightarrow> string" where
  "chop_break l = (if suffix [CR, LF] l then butlast (butlast l)
     else if l \<noteq> [] \<and> py_break (last l) then butlast l else l)"

definition py_splitlines :: "string \<Rightarrow> string list" where
  "py_splitlines s = map chop_break (splitlines_keep s)"

fun py_split :: "char \<Rightarrow> string \<Rightarrow> string list" where
  "py_split d [] = [[]]"
| "py_split d (c # cs) =
     (if c = d then [] # py_split d cs
      else case py_split d cs of [] \<Rightarrow> [[c]] | l # ls \<Rightarrow> (c # l) # ls)"

fun py_join :: "string \<Rightarrow> string list \<Rightarrow> string" where
  "py_join sep [] = []"
| "py_join sep [x] = x"
| "py_join sep (x # y # ys) = x @ sep @ py_join sep (y # ys)"

text \<open>\<^verbatim>\<open>tuple(dict.fromkeys(xs))\<close>: first occurrences, in order.\<close>

fun py_fromkeys :: "'a list \<Rightarrow> 'a list" where
  "py_fromkeys [] = []"
| "py_fromkeys (x # xs) = x # filter (\<lambda>y. y \<noteq> x) (py_fromkeys xs)"

text \<open>Universal newlines: the translation a text-mode read performs.\<close>

fun universal_newlines :: "string \<Rightarrow> string" where
  "universal_newlines [] = []"
| "universal_newlines (c # cs) =
     (if c = CR then LF # (case cs of d # ds \<Rightarrow> if d = LF then universal_newlines ds
                                               else universal_newlines cs | [] \<Rightarrow> [])
      else c # universal_newlines cs)"

subsection \<open>Rendering\<close>

definition hex_digit :: "nat \<Rightarrow> char" where
  "hex_digit n = (''0123456789abcdef'' ! (n mod 16))"

definition repr_char :: "char \<Rightarrow> char \<Rightarrow> string" where
  "repr_char q c = (let n = of_char c :: nat in
     if c = q \<or> c = BSL then [BSL, c]
     else if c = LF then [BSL, CHR ''n'']
     else if c = CR then [BSL, CHR ''r'']
     else if c = HT then [BSL, CHR ''t'']
     else if n < 32 \<or> 127 \<le> n \<and> n \<le> 160 \<or> n = 173
       then [BSL, CHR ''x'', hex_digit (n div 16), hex_digit n]
     else [c])"

definition py_repr :: "string \<Rightarrow> string" where
  "py_repr s = (let q = (if SQ \<in> set s \<and> DQ \<notin> set s then DQ else SQ)
     in [q] @ concat (map (repr_char q) s) @ [q])"

definition str_path :: "path \<Rightarrow> string" where
  "str_path p = (if p = [] then ''/'' else concat (map (\<lambda>c. CHR ''/'' # c) p))"

text \<open>\<^verbatim>\<open>path / 'a/b'\<close>: a relative path is split at its slashes.\<close>

definition path_join :: "path \<Rightarrow> string \<Rightarrow> path" where
  "path_join p rel = p @ py_split (CHR ''/'') rel"

subsection \<open>Laws of searching\<close>

lemma py_find_SomeD:
  "py_find sub s = Some i \<Longrightarrow> i + length sub \<le> length s \<and> take (length sub) (drop i s) = sub"
proof (induction sub s arbitrary: i rule: py_find.induct)
  case (1 sub)
  then show ?case by (simp split: if_splits)
next
  case (2 sub c cs)
  show ?case
  proof (cases "prefix sub (c # cs)")
    case True
    with "2.prems" have "i = 0" by simp
    with True show ?thesis
      using prefix_take_drop_iff [of sub 0 "c # cs"] prefix_length_le [OF True] by simp
  next
    case False
    with "2.prems" obtain j where "py_find sub cs = Some j" "i = Suc j" by auto
    with "2.IH" [OF False] show ?thesis by simp
  qed
qed

lemma py_find_first:
  "py_find sub s = Some i \<Longrightarrow> j < i \<Longrightarrow> \<not> prefix sub (drop j s)"
proof (induction sub s arbitrary: i j rule: py_find.induct)
  case (2 sub c cs)
  then show ?case by (cases j) (auto split: if_splits)
qed (simp split: if_splits)

lemma py_find_None: "py_find sub s = None \<longleftrightarrow> (\<forall>j\<le>length s. \<not> prefix sub (drop j s))"
proof (induction sub s rule: py_find.induct)
  case (2 sub c cs)
  have "(\<forall>j\<le>Suc (length cs). P j) \<longleftrightarrow> P 0 \<and> (\<forall>j\<le>length cs. P (Suc j))" for P
    by (metis le0 less_Suc_eq_le not0_implies_Suc not_less_eq_eq)
  with 2 show ?case by simp
qed simp

lemma py_in_iff: "py_in sub s \<longleftrightarrow> (\<exists>a b. s = a @ sub @ b)"
proof
  assume "py_in sub s"
  then obtain i where "py_find sub s = Some i" by (auto simp: py_in_def)
  from py_find_SomeD [OF this] show "\<exists>a b. s = a @ sub @ b"
    using take_drop_split [of i "length sub" s] by metis
next
  assume "\<exists>a b. s = a @ sub @ b"
  then obtain a b where s: "s = a @ sub @ b" by blast
  then have "prefix sub (drop (length a) s)" "length a \<le> length s" by simp_all
  then show "py_in sub s" unfolding py_in_def py_find_None by blast
qed

lemma py_in_append [simp, intro]: "py_in sub (a @ sub @ b)"
  by (auto simp: py_in_iff)

end
