(* ===== verification/Py_Regex.thy ===== *)
theory Py_Regex
  imports Py_Str
begin

text \<open>
  The part of Python's \<^verbatim>\<open>re\<close> module that the installer uses. A pattern is a term of \<open>regex\<close>;
  \<open>re_results\<close> lists the ways a pattern matches at a cursor, in the order in which the
  backtracking engine tries them, so its first element is the match the engine reports. A cursor
  is the character before the position (for \<^verbatim>\<open>^\<close> and \<^verbatim>\<open>\b\<close>) and the rest of the text; a result
  adds the captured groups. The repetition operators only iterate over non-empty matches of their
  body: every repeated body in the installer's patterns consumes at least one character.
\<close>

datatype regex =
    RLit string
  | RCls "char \<Rightarrow> bool"
  | RSeq regex regex
  | RAlt regex regex
  | RStar regex
  | RLazy regex
  | RBol
  | REol
  | REnd
  | RBnd
  | RGrp nat regex

type_synonym cursor = "char option \<times> string"
type_synonym groups = "(nat \<times> string) list"
type_synonym re_result = "cursor \<times> groups"

definition is_bol :: "cursor \<Rightarrow> bool" where
  "is_bol c \<longleftrightarrow> fst c = None \<or> fst c = Some LF"

definition is_eol :: "cursor \<Rightarrow> bool" where
  "is_eol c \<longleftrightarrow> (case snd c of [] \<Rightarrow> True | x # _ \<Rightarrow> x = LF)"

definition is_end :: "cursor \<Rightarrow> bool" where
  "is_end c \<longleftrightarrow> (case snd c of [] \<Rightarrow> True | x # xs \<Rightarrow> x = LF \<and> xs = [])"

definition is_boundary :: "cursor \<Rightarrow> bool" where
  "is_boundary c \<longleftrightarrow>
     (case fst c of None \<Rightarrow> False | Some x \<Rightarrow> py_word x) \<noteq>
     (case snd c of [] \<Rightarrow> False | x # _ \<Rightarrow> py_word x)"

fun match_lit :: "string \<Rightarrow> cursor \<Rightarrow> cursor option" where
  "match_lit [] c = Some c"
| "match_lit (x # xs) (p, []) = None"
| "match_lit (x # xs) (p, y # ys) = (if x = y then match_lit xs (Some y, ys) else None)"

definition add_groups :: "groups \<Rightarrow> re_result list \<Rightarrow> re_result list" where
  "add_groups g rs = map (\<lambda>r. (fst r, g @ snd r)) rs"

text \<open>Greedy and lazy repetition of a matcher; each iteration shortens the rest of the text.\<close>

function iter_greedy :: "(cursor \<Rightarrow> re_result list) \<Rightarrow> cursor \<Rightarrow> re_result list" where
  "iter_greedy m c =
     concat (map (\<lambda>r. if length (snd (fst r)) < length (snd c)
                      then add_groups (snd r) (iter_greedy m (fst r)) else []) (m c)) @ [(c, [])]"
  by pat_completeness auto
termination
  by (relation "measure (\<lambda>(m, c). length (snd c))") auto

function iter_lazy :: "(cursor \<Rightarrow> re_result list) \<Rightarrow> cursor \<Rightarrow> re_result list" where
  "iter_lazy m c =
     (c, []) # concat (map (\<lambda>r. if length (snd (fst r)) < length (snd c)
                      then add_groups (snd r) (iter_lazy m (fst r)) else []) (m c))"
  by pat_completeness auto
termination
  by (relation "measure (\<lambda>(m, c). length (snd c))") auto

declare iter_greedy.simps [simp del] iter_lazy.simps [simp del]

fun re_results :: "regex \<Rightarrow> cursor \<Rightarrow> re_result list" where
  "re_results (RLit s) c = (case match_lit s c of None \<Rightarrow> [] | Some c' \<Rightarrow> [(c', [])])"
| "re_results (RCls P) c =
     (case snd c of [] \<Rightarrow> [] | x # xs \<Rightarrow> if P x then [((Some x, xs), [])] else [])"
| "re_results (RSeq a b) c =
     concat (map (\<lambda>r. add_groups (snd r) (re_results b (fst r))) (re_results a c))"
| "re_results (RAlt a b) c = re_results a c @ re_results b c"
| "re_results (RStar a) c = iter_greedy (re_results a) c"
| "re_results (RLazy a) c = iter_lazy (re_results a) c"
| "re_results RBol c = (if is_bol c then [(c, [])] else [])"
| "re_results REol c = (if is_eol c then [(c, [])] else [])"
| "re_results REnd c = (if is_end c then [(c, [])] else [])"
| "re_results RBnd c = (if is_boundary c then [(c, [])] else [])"
| "re_results (RGrp n a) c =
     map (\<lambda>r. (fst r, snd r @ [(n, take (length (snd c) - length (snd (fst r))) (snd c))]))
       (re_results a c)"

subsection \<open>Derived forms of patterns\<close>

abbreviation REps :: regex where "REps \<equiv> RLit []"

fun rseq :: "regex list \<Rightarrow> regex" where
  "rseq [] = REps"
| "rseq [r] = r"
| "rseq (r # s # rs) = RSeq r (rseq (s # rs))"

fun ralt :: "regex list \<Rightarrow> regex" where
  "ralt [] = RCls (\<lambda>_. False)"
| "ralt [r] = r"
| "ralt (r # s # rs) = RAlt r (ralt (s # rs))"

definition ropt :: "regex \<Rightarrow> regex" where
  "ropt r = RAlt r REps"

definition rplus :: "regex \<Rightarrow> regex" where
  "rplus r = RSeq r (RStar r)"

text \<open>\<^verbatim>\<open>.\<close> without and with \<^verbatim>\<open>re.DOTALL\<close>; the classes \<^verbatim>\<open>[ \t]\<close>, \<^verbatim>\<open>\s\<close> and \<^verbatim>\<open>\d\<close>.\<close>

definition rdot :: regex where "rdot = RCls (\<lambda>c. c \<noteq> LF)"
definition rany :: regex where "rany = RCls (\<lambda>_. True)"
definition rblank :: regex where "rblank = RCls (\<lambda>c. c = SP \<or> c = HT)"
definition rspace :: regex where "rspace = RCls py_space"
definition rdigit :: regex where "rdigit = RCls py_digit"

definition rchars :: "string \<Rightarrow> regex" where
  "rchars cs = RCls (\<lambda>c. c \<in> set cs)"

subsection \<open>The functions of the module\<close>

definition re_first :: "regex \<Rightarrow> cursor \<Rightarrow> re_result option" where
  "re_first r c = (case re_results r c of [] \<Rightarrow> None | x # _ \<Rightarrow> Some x)"

definition consumed :: "cursor \<Rightarrow> re_result \<Rightarrow> nat" where
  "consumed c r = length (snd c) - length (snd (fst r))"

definition start_cursor :: "string \<Rightarrow> cursor" where
  "start_cursor s = (None, s)"

text \<open>\<^verbatim>\<open>re.match\<close>: whether the pattern matches at the start of the text, and its groups.\<close>

definition re_match :: "regex \<Rightarrow> string \<Rightarrow> groups option" where
  "re_match r s = map_option snd (re_first r (start_cursor s))"

text \<open>\<^verbatim>\<open>re.fullmatch\<close>: the first way of matching that consumes the whole text.\<close>

definition re_fullmatch :: "regex \<Rightarrow> string \<Rightarrow> groups option" where
  "re_fullmatch r s =
     (case filter (\<lambda>x. snd (fst x) = []) (re_results r (start_cursor s)) of
        [] \<Rightarrow> None | x # _ \<Rightarrow> Some (snd x))"

text \<open>\<^verbatim>\<open>re.finditer\<close>: the start, the end and the groups of the successive matches.\<close>

function re_scan :: "regex \<Rightarrow> nat \<Rightarrow> cursor \<Rightarrow> (nat \<times> nat \<times> groups) list" where
  "re_scan r i c =
     (case re_first r c of
        Some x \<Rightarrow>
          if 0 < consumed c x
          then (i, i + consumed c x, snd x) # re_scan r (i + consumed c x) (fst x)
          else (i, i, snd x) #
            (case snd c of [] \<Rightarrow> [] | y # ys \<Rightarrow> re_scan r (Suc i) (Some y, ys))
      | None \<Rightarrow> (case snd c of [] \<Rightarrow> [] | y # ys \<Rightarrow> re_scan r (Suc i) (Some y, ys)))"
  by pat_completeness auto
termination
  by (relation "measure (\<lambda>(r, i, c). length (snd c))") (auto simp: consumed_def)

declare re_scan.simps [simp del]

definition re_finditer :: "regex \<Rightarrow> string \<Rightarrow> (nat \<times> nat \<times> groups) list" where
  "re_finditer r s = re_scan r 0 (start_cursor s)"

definition re_search :: "regex \<Rightarrow> string \<Rightarrow> groups option" where
  "re_search r s = (case re_finditer r s of [] \<Rightarrow> None | (i, j, g) # _ \<Rightarrow> Some g)"

definition re_count :: "regex \<Rightarrow> string \<Rightarrow> nat" where
  "re_count r s = length (re_finditer r s)"

definition group :: "nat \<Rightarrow> groups \<Rightarrow> string" where
  "group n g = (case map_of (rev g) n of None \<Rightarrow> [] | Some s \<Rightarrow> s)"

text \<open>\<^verbatim>\<open>pattern.sub(f, s)\<close> for a function \<open>f\<close> of the matched text.\<close>

function re_sub_at :: "regex \<Rightarrow> (string \<Rightarrow> string) \<Rightarrow> cursor \<Rightarrow> string" where
  "re_sub_at r f c =
     (case re_first r c of
        Some x \<Rightarrow>
          if 0 < consumed c x
          then f (take (consumed c x) (snd c)) @ re_sub_at r f (fst x)
          else f [] @ (case snd c of [] \<Rightarrow> [] | y # ys \<Rightarrow> y # re_sub_at r f (Some y, ys))
      | None \<Rightarrow> (case snd c of [] \<Rightarrow> [] | y # ys \<Rightarrow> y # re_sub_at r f (Some y, ys)))"
  by pat_completeness auto
termination
  by (relation "measure (\<lambda>(r, f, c). length (snd c))") (auto simp: consumed_def)

declare re_sub_at.simps [simp del]

definition re_sub :: "regex \<Rightarrow> (string \<Rightarrow> string) \<Rightarrow> string \<Rightarrow> string" where
  "re_sub r f s = re_sub_at r f (start_cursor s)"

subsection \<open>A match is a prefix of the rest of the text\<close>

lemma match_lit_suffix: "match_lit s c = Some c' \<Longrightarrow> suffix (snd c') (snd c)"
  by (induction s c rule: match_lit.induct) (auto split: if_splits intro: suffix_ConsI)

lemma set_add_groups [simp]: "x \<in> set (add_groups g rs) \<longleftrightarrow> (\<exists>r\<in>set rs. x = (fst r, g @ snd r))"
  by (auto simp: add_groups_def)

lemma set_iter_greedy:
  "x \<in> set (iter_greedy m c) \<longleftrightarrow> x = (c, []) \<or>
     (\<exists>r\<in>set (m c). length (snd (fst r)) < length (snd c) \<and>
        (\<exists>y\<in>set (iter_greedy m (fst r)). x = (fst y, snd r @ snd y)))"
  by (subst iter_greedy.simps) (auto split: if_splits)

lemma set_iter_lazy: "set (iter_lazy m c) = set (iter_greedy m c)"
proof (induction c rule: measure_induct_rule [of "\<lambda>c. length (snd c)"])
  case (less c)
  have "x \<in> set (iter_lazy m c) \<longleftrightarrow> x = (c, []) \<or>
     (\<exists>r\<in>set (m c). length (snd (fst r)) < length (snd c) \<and>
        (\<exists>y\<in>set (iter_lazy m (fst r)). x = (fst y, snd r @ snd y)))" for x
    by (subst iter_lazy.simps) (auto split: if_splits)
  then show ?case
    by (simp add: set_eq_iff set_iter_greedy [of _ m c] less cong: conj_cong)
qed

lemma iter_greedy_suffix:
  assumes m: "\<And>c x. x \<in> set (m c) \<Longrightarrow> suffix (snd (fst x)) (snd c)"
  shows "x \<in> set (iter_greedy m c) \<Longrightarrow> suffix (snd (fst x)) (snd c)"
proof (induction c arbitrary: x rule: measure_induct_rule [of "\<lambda>c. length (snd c)"])
  case (less c)
  from less.prems consider "x = (c, [])"
    | r y where "r \<in> set (m c)" "length (snd (fst r)) < length (snd c)"
        "y \<in> set (iter_greedy m (fst r))" "fst x = fst y"
    by (subst (asm) set_iter_greedy) auto
  then show ?case
  proof cases
    case 2
    from less.IH [OF 2(2,3)] m [OF 2(1)] have "suffix (snd (fst y)) (snd c)"
      by (rule suffix_order.trans)
    with 2(4) show ?thesis by simp
  qed simp
qed

lemma re_results_suffix: "x \<in> set (re_results r c) \<Longrightarrow> suffix (snd (fst x)) (snd c)"
proof (induction r arbitrary: c x)
  case (RLit s)
  then show ?case by (cases "match_lit s c") (auto dest: match_lit_suffix)
next
  case (RSeq a b)
  from RSeq.prems obtain y z where y: "y \<in> set (re_results a c)"
    and z: "z \<in> set (re_results b (fst y))" and "fst x = fst z" by auto
  from RSeq.IH(2) [OF z] RSeq.IH(1) [OF y] have "suffix (snd (fst z)) (snd c)"
    by (rule suffix_order.trans)
  with \<open>fst x = fst z\<close> show ?case by simp
next
  case (RStar a)
  then show ?case using iter_greedy_suffix [of "re_results a"] by simp
next
  case (RLazy a)
  then show ?case using iter_greedy_suffix [of "re_results a"] by (simp add: set_iter_lazy)
qed (auto split: list.splits if_splits intro: suffix_ConsI)

lemma re_first_mem: "re_first r c = Some x \<Longrightarrow> x \<in> set (re_results r c)"
  by (cases "re_results r c") (auto simp: re_first_def)

lemma re_first_suffix: "re_first r c = Some x \<Longrightarrow> suffix (snd (fst x)) (snd c)"
  using re_results_suffix [of x r c] by (cases "re_results r c") (auto simp: re_first_def)

lemma re_first_split:
  assumes "re_first r c = Some x"
  shows "snd c = take (consumed c x) (snd c) @ snd (fst x)"
  using re_first_suffix [OF assms] by (auto simp: suffix_def consumed_def)

subsection \<open>Substitution acts piecewise\<close>

lemma re_sub_at_rel:
  assumes refl: "\<And>x. R x x" and f: "\<And>t. list_all2 R t (f t)"
  shows "list_all2 R (snd c) (re_sub_at r f c)"
proof (induction c rule: measure_induct_rule [of "\<lambda>c. length (snd c)"])
  case (less c)
  have f0: "f [] = []" using f [of "[]"] by simp
  have step: "list_all2 R (snd c) (case snd c of [] \<Rightarrow> [] | y # ys \<Rightarrow> y # re_sub_at r f (Some y, ys))"
    by (auto split: list.splits simp: refl intro!: less.IH [of "(_, _)", simplified])
  show ?case
  proof (cases "re_first r c")
    case None
    with step show ?thesis by (subst re_sub_at.simps) simp
  next
    case (Some x)
    note split = re_first_split [OF Some]
    show ?thesis
    proof (cases "0 < consumed c x")
      case True
      then have "list_all2 R (snd (fst x)) (re_sub_at r f (fst x))"
        by (intro less.IH) (simp add: consumed_def)
      with f have "list_all2 R (take (consumed c x) (snd c) @ snd (fst x))
          (f (take (consumed c x) (snd c)) @ re_sub_at r f (fst x))"
        by (intro list_all2_appendI)
      with True Some split show ?thesis by (subst re_sub_at.simps) simp
    next
      case False
      with Some step f0 show ?thesis by (subst re_sub_at.simps) simp
    qed
  qed
qed

lemma re_sub_rel:
  assumes "\<And>x. R x x" and "\<And>t. list_all2 R t (f t)"
  shows "list_all2 R s (re_sub r f s)"
  using re_sub_at_rel [of R f "start_cursor s" r, OF assms] by (simp add: re_sub_def start_cursor_def)

subsection \<open>Positions reported by a scan\<close>

lemma re_scan_bounds:
  "(a, b, g) \<in> set (re_scan r i c) \<Longrightarrow> i \<le> a \<and> a \<le> b \<and> b \<le> i + length (snd c)"
proof (induction c arbitrary: i rule: measure_induct_rule [of "\<lambda>c. length (snd c)"])
  case (less c)
  have step: "i \<le> a \<and> a \<le> b \<and> b \<le> i + length (snd c)"
    if "snd c = y # ys" "(a, b, g) \<in> set (re_scan r (Suc i) (Some y, ys))" for y ys
    using less.IH [of "(Some y, ys)" "Suc i"] that by simp
  show ?case
  proof (cases "re_first r c")
    case None
    with less.prems step show ?thesis
      by (cases "snd c") (simp_all add: re_scan.simps [of r i c])
  next
    case (Some x)
    have len: "length (snd (fst x)) + consumed c x = length (snd c)"
      using re_first_suffix [OF Some] by (auto simp: consumed_def suffix_def)
    show ?thesis
    proof (cases "0 < consumed c x")
      case True
      with less.prems Some have "(a, b) = (i, i + consumed c x) \<or>
          (a, b, g) \<in> set (re_scan r (i + consumed c x) (fst x))"
        by (subst (asm) re_scan.simps) auto
      then show ?thesis
        using less.IH [of "fst x" "i + consumed c x"] True len by auto
    next
      case False
      with less.prems Some step show ?thesis
        by (cases "snd c") (auto simp: re_scan.simps [of r i c])
    qed
  qed
qed

lemma re_finditer_bounds:
  "(a, b, g) \<in> set (re_finditer r s) \<Longrightarrow> a \<le> b \<and> b \<le> length s"
  using re_scan_bounds [of a b g r 0 "start_cursor s"] by (simp add: re_finditer_def start_cursor_def)

end
