(* ===== verification/C_Mask.thy ===== *)
theory C_Mask
  imports Py_Regex
begin

text \<open>
  The C source masks of \<^verbatim>\<open>scripts/install.py\<close>: comments, literals and preprocessor branches
  that are certainly not compiled are overwritten with blanks, so that the installer can search
  the remaining text and use the offsets it finds in the original text.
\<close>

subsection \<open>Comments and literals\<close>

text \<open>\<^verbatim>\<open>"(?:\\.|[^"\\])*"|'(?:\\.|[^'\\])*'|//[^\n]*|/\*.*?\*/\<close> with \<^verbatim>\<open>re.DOTALL\<close>.\<close>

definition quoted_pattern :: "char \<Rightarrow> regex" where
  "quoted_pattern q = rseq [RLit [q],
     RStar (RAlt (RSeq (RLit [BSL]) rany) (RCls (\<lambda>c. c \<noteq> q \<and> c \<noteq> BSL))), RLit [q]]"

definition line_comment_pattern :: regex where
  "line_comment_pattern = RSeq (RLit ''//'') (RStar (RCls (\<lambda>c. c \<noteq> LF)))"

definition block_comment_pattern :: regex where
  "block_comment_pattern = rseq [RLit ''/*'', RLazy rany, RLit ''*/'']"

definition C_LEXEME_PATTERN :: regex where
  "C_LEXEME_PATTERN = ralt [quoted_pattern DQ, quoted_pattern SQ,
     line_comment_pattern, block_comment_pattern]"

definition masked_lexeme :: "string \<Rightarrow> string" where
  "masked_lexeme token = map (\<lambda>c. if c = LF then LF else SP) token"

definition is_comment_token :: "string \<Rightarrow> bool" where
  "is_comment_token token \<longleftrightarrow> prefix ''//'' token \<or> prefix ''/*'' token"

definition mask_c_comments :: "string \<Rightarrow> string" where
  "mask_c_comments text =
     re_sub C_LEXEME_PATTERN
       (\<lambda>token. if is_comment_token token then masked_lexeme token else token) text"

definition mask_c_comments_and_literals :: "string \<Rightarrow> string" where
  "mask_c_comments_and_literals text = re_sub C_LEXEME_PATTERN masked_lexeme text"

subsection \<open>Constant conditions\<close>

text \<open>
  The inner loop of \<^verbatim>\<open>preprocessor_integer_truth\<close>: \<open>None\<close> is its early return, otherwise the
  final depth and whether the outer parentheses wrap the whole expression.
\<close>

fun paren_scan :: "int \<Rightarrow> string \<Rightarrow> (int \<times> bool) option" where
  "paren_scan d [] = Some (d, True)"
| "paren_scan d (c # cs) =
     (if c = CHR ''('' then (if d + 1 < 0 then None else paren_scan (d + 1) cs)
      else if c = CHR '')'' then
        (if d - 1 = 0 \<and> cs \<noteq> [] then Some (0, False)
         else if d - 1 < 0 then None else paren_scan (d - 1) cs)
      else if d < 0 then None else paren_scan d cs)"

lemma length_py_lstrip: "length (py_lstrip s) \<le> length s"
  by (simp add: py_lstrip_def length_dropWhile_le)

lemma length_py_rstrip: "length (py_rstrip s) \<le> length s"
  by (metis length_dropWhile_le length_rev py_rstrip_def)

lemma length_py_strip: "length (py_strip s) \<le> length s"
  unfolding py_strip_def by (rule order_trans [OF length_py_rstrip length_py_lstrip])

function strip_parens :: "string \<Rightarrow> string option" where
  "strip_parens c =
     (if prefix ''('' c \<and> suffix '')'' c then
        (case paren_scan 0 c of
           None \<Rightarrow> None
         | Some (depth, wraps) \<Rightarrow>
             if depth \<noteq> 0 \<or> \<not> wraps then Some c else strip_parens (py_strip (butlast (tl c))))
      else Some c)"
  by pat_completeness auto
termination
proof (relation "measure length")
  fix c :: string and x :: "int \<times> bool" and d w
  assume "prefix ''('' c \<and> suffix '')'' c"
  then have "c \<noteq> []" by auto
  then have "length (butlast (tl c)) < length c" by (cases c) auto
  then show "(py_strip (butlast (tl c)), c) \<in> measure length"
    using length_py_strip [of "butlast (tl c)"] by simp
qed simp

declare strip_parens.simps [simp del]

text \<open>\<^verbatim>\<open>([+-]?)(0[xX][0-9A-Fa-f]+|0[bB][01]+|0[0-7]*|[1-9][0-9]*)[uUlL]*\<close>\<close>

definition integer_pattern :: regex where
  "integer_pattern = rseq [RGrp 1 (ropt (rchars ''+-'')),
     RGrp 2 (ralt [
       rseq [RLit ''0'', rchars ''xX'', rplus (rchars ''0123456789ABCDEFabcdef'')],
       rseq [RLit ''0'', rchars ''bB'', rplus (rchars ''01'')],
       RSeq (RLit ''0'') (RStar (rchars ''01234567'')),
       RSeq (rchars ''123456789'') (RStar (rchars ''0123456789''))]),
     RStar (rchars ''uUlL'')]"

definition digit_value :: "char \<Rightarrow> nat" where
  "digit_value c = (let n = of_char c :: nat in
     if 48 \<le> n \<and> n \<le> 57 then n - 48
     else if 65 \<le> n \<and> n \<le> 70 then n - 55
     else if 97 \<le> n \<and> n \<le> 102 then n - 87 else 0)"

definition int_base :: "int \<Rightarrow> string \<Rightarrow> int" where
  "int_base b s = foldl (\<lambda>a c. a * b + int (digit_value c)) 0 s"

definition literal_value :: "string \<Rightarrow> int" where
  "literal_value literal =
     (if prefix ''0x'' (py_lower literal) then int_base 16 (drop 2 literal)
      else if prefix ''0b'' (py_lower literal) then int_base 2 (drop 2 literal)
      else if length literal > 1 \<and> prefix ''0'' literal then int_base 8 literal
      else int_base 10 literal)"

definition literal_truth :: "string \<Rightarrow> bool option" where
  "literal_truth candidate =
     (case re_fullmatch integer_pattern candidate of
        None \<Rightarrow> None
      | Some g \<Rightarrow>
          (let value = literal_value (group 2 g)
           in Some ((if group 1 g = ''-'' then - value else value) \<noteq> 0)))"

lemma strip_parens_length: "strip_parens c = Some d \<Longrightarrow> length d \<le> length c"
proof (induction c rule: strip_parens.induct)
  case (1 c)
  show ?case
  proof (cases "strip_parens c = Some c")
    case True
    with "1.prems" show ?thesis by simp
  next
    case False
    with "1.prems" have *: "prefix ''('' c \<and> suffix '')'' c" "paren_scan 0 c = Some (0, True)"
      "strip_parens (py_strip (butlast (tl c))) = Some d"
      by (auto simp: strip_parens.simps [of c] split: if_splits option.splits prod.splits)
    have "length d \<le> length (py_strip (butlast (tl c)))"
      by (rule "1.IH" [OF *(1,2)]) (simp_all add: *(3))
    with length_py_strip [of "butlast (tl c)"] show ?thesis by simp
  qed
qed

function preprocessor_integer_truth :: "string \<Rightarrow> bool option" where
  "preprocessor_integer_truth expression =
     (case strip_parens (py_strip expression) of
        None \<Rightarrow> None
      | Some candidate \<Rightarrow>
          if prefix ''!'' candidate
          then map_option Not (preprocessor_integer_truth (tl candidate))
          else literal_truth candidate)"
  by pat_completeness auto
termination
proof (relation "measure length")
  fix e c :: string
  assume a: "strip_parens (py_strip e) = Some c" and "prefix ''!'' c"
  then have "c \<noteq> []" by auto
  then show "(tl c, e) \<in> measure length"
    using strip_parens_length [OF a] length_py_strip [of e] by (cases c) auto
qed simp

declare preprocessor_integer_truth.simps [simp del]

subsection \<open>Branches that are certainly inactive\<close>

text \<open>\<^verbatim>\<open>^[ \t]*#[ \t]*(if|ifdef|ifndef|elif|else|endif)\b(.*)$\<close>\<close>

definition directive_pattern :: regex where
  "directive_pattern = rseq [RBol, RStar rblank, RLit ''#'', RStar rblank,
     RGrp 1 (ralt (map RLit [''if'', ''ifdef'', ''ifndef'', ''elif'', ''else'', ''endif''])),
     RBnd, RGrp 2 (RStar rdot), REnd]"

datatype directive = DIf string | DIfdef | DElif string | DElse | DEndif

text \<open>The directive on a line, with the stripped expression where the code reads it.\<close>

definition line_directive :: "string \<Rightarrow> directive option" where
  "line_directive lexical_line =
     (case re_match directive_pattern lexical_line of
        None \<Rightarrow> None
      | Some g \<Rightarrow>
          (let directive = group 1 g; expression = py_strip (group 2 g)
           in Some (if directive = ''if'' then DIf expression
                    else if directive = ''ifdef'' \<or> directive = ''ifndef'' then DIfdef
                    else if directive = ''elif'' then DElif expression
                    else if directive = ''else'' then DElse
                    else DEndif)))"

type_synonym pp_stack = "(bool \<times> bool) list"

text \<open>One directive: the new stack of (parent possible, branch definitely taken) and the new
  \<^verbatim>\<open>possible\<close> flag.\<close>

definition open_branch :: "bool option \<Rightarrow> pp_stack \<Rightarrow> bool \<Rightarrow> (pp_stack \<times> bool) res" where
  "open_branch truth stack possible =
     Inr ((possible, truth = Some True) # stack, possible \<and> truth \<noteq> Some False)"

fun pp_step :: "directive \<Rightarrow> pp_stack \<Rightarrow> bool \<Rightarrow> (pp_stack \<times> bool) res" where
  "pp_step (DIf expression) stack possible =
     open_branch (preprocessor_integer_truth expression) stack possible"
| "pp_step DIfdef stack possible = open_branch None stack possible"
| "pp_step (DElif expression) [] possible = Inl (InstallError ''unmatched #elif in C source'')"
| "pp_step (DElif expression) ((parent_possible, definitely_taken) # stack) possible =
     (let truth = preprocessor_integer_truth expression;
          branch_possible = (\<not> definitely_taken \<and> truth \<noteq> Some False)
      in Inr ((parent_possible,
                 if \<not> definitely_taken \<and> truth = Some True then True else definitely_taken) # stack,
              parent_possible \<and> branch_possible))"
| "pp_step DElse [] possible = Inl (InstallError ''unmatched #else in C source'')"
| "pp_step DElse ((parent_possible, definitely_taken) # stack) possible =
     Inr ((parent_possible, True) # stack, parent_possible \<and> \<not> definitely_taken)"
| "pp_step DEndif [] possible = Inl (InstallError ''unmatched #endif in C source'')"
| "pp_step DEndif ((parent_possible, definitely_taken) # stack) possible =
     Inr (stack, parent_possible)"

fun inactive_lines ::
  "(string \<times> string) list \<Rightarrow> pp_stack \<Rightarrow> bool \<Rightarrow> (string list \<times> pp_stack) res" where
  "inactive_lines [] stack possible = Inr ([], stack)"
| "inactive_lines ((raw_line, lexical_line) # rest) stack possible =
     (case line_directive lexical_line of
        None \<Rightarrow>
          rbind (inactive_lines rest stack possible)
            (\<lambda>(out, stack'). Inr ((if possible then raw_line else masked_lexeme raw_line) # out, stack'))
      | Some d \<Rightarrow>
          rbind (pp_step d stack possible) (\<lambda>(stack1, possible1).
          rbind (inactive_lines rest stack1 possible1) (\<lambda>(out, stack').
            Inr ((if possible1 \<or> d = DEndif then raw_line else masked_lexeme raw_line) # out, stack'))))"

definition mask_c_definitely_inactive :: "string \<Rightarrow> string res" where
  "mask_c_definitely_inactive text =
     (let lexical = mask_c_comments_and_literals text
      in rbind (inactive_lines (zip (splitlines_keep text) (splitlines_keep lexical)) [] True)
           (\<lambda>(out, stack).
              if stack \<noteq> [] then Inl (InstallError ''unterminated preprocessor conditional in C source'')
              else Inr (concat out)))"

definition mask_c_live_code :: "string \<Rightarrow> bool \<Rightarrow> string res" where
  "mask_c_live_code text literals =
     rbind (mask_c_definitely_inactive text) (\<lambda>active.
       Inr (if literals then mask_c_comments_and_literals active else mask_c_comments active))"

subsection \<open>Line continuations and the injection context\<close>

text \<open>One pass of \<^verbatim>\<open>\\(?:\r\n|\n|\r)\<close> replaced by the empty string, repeated while it occurs.\<close>

definition continuation_pattern :: regex where
  "continuation_pattern = RSeq (RLit BS) (ralt [RLit [CR, LF], RLit [LF], RLit [CR]])"

definition mask_c_injection_context :: "string \<Rightarrow> string \<Rightarrow> string res" where
  "mask_c_injection_context text marker =
     rbind (mask_c_definitely_inactive text) (\<lambda>active.
       Inr (re_sub C_LEXEME_PATTERN
         (\<lambda>token.
            if is_comment_token token then
              (if py_strip token = ''/* '' @ marker @ '' */'' \<or> py_strip token = ''// '' @ marker
               then token else masked_lexeme token)
            else token) active))"

end
