(* ===== verification/C_Mask_Laws.thy ===== *)
theory C_Mask_Laws
  imports C_Mask
begin

text \<open>
  Laws of the masks of \<open>C_Mask\<close>: every mask preserves the length and the line structure of a
  text and shows either the original character or a blank, and the branches that
  \<^verbatim>\<open>mask_c_definitely_inactive\<close> hides are never compiled. The locale \<open>source_mask\<close> is the contract
  that the editing functions rely on.
\<close>

subsection \<open>The masking relation\<close>

text \<open>
  A mask keeps every character or replaces it with a blank, and never touches a newline. This
  relation is what makes offsets into a masked text valid in the original.
\<close>

definition blanked :: "char \<Rightarrow> char \<Rightarrow> bool" where
  "blanked c d \<longleftrightarrow> d = c \<or> d = SP \<and> c \<noteq> LF"

definition masks :: "string \<Rightarrow> string \<Rightarrow> bool" where
  "masks t u \<longleftrightarrow> list_all2 blanked t u"

lemma blanked_refl [simp, intro]: "blanked c c"
  by (simp add: blanked_def)

lemma masks_refl [simp, mask_intros]: "masks t t"
  by (simp add: masks_def list_all2_refl)

lemma masks_Cons [simp]: "masks (c # t) (d # u) \<longleftrightarrow> blanked c d \<and> masks t u"
  by (simp add: masks_def)

lemma masks_trans [mask_intros]: "masks t u \<Longrightarrow> masks u v \<Longrightarrow> masks t v"
  unfolding masks_def by (rule list_all2_trans [of blanked blanked]) (auto simp: blanked_def)

lemma masks_length: "masks t u \<Longrightarrow> length u = length t"
  by (simp add: masks_def list_all2_lengthD)

lemma masks_nth: "masks t u \<Longrightarrow> i < length t \<Longrightarrow> blanked (t ! i) (u ! i)"
  by (simp add: masks_def list_all2_nthD)

lemma masks_visible: "masks t u \<Longrightarrow> i < length t \<Longrightarrow> u ! i \<noteq> SP \<Longrightarrow> t ! i = u ! i"
  by (drule (1) masks_nth) (simp add: blanked_def)

lemma masks_append [mask_intros]: "masks t u \<Longrightarrow> masks t' u' \<Longrightarrow> masks (t @ t') (u @ u')"
  by (simp add: masks_def list_all2_appendI)

lemma masks_slice: "masks t u \<Longrightarrow> masks (take n (drop i t)) (take n (drop i u))"
  by (simp add: masks_def list_all2_take_drop)

lemma masks_drop: "masks t u \<Longrightarrow> masks (drop i t) (drop i u)"
  by (simp add: masks_def list_all2_dropI)

lemma masks_lexeme [mask_intros]: "masks t (masked_lexeme t)"
  by (induction t) (auto simp: masks_def masked_lexeme_def blanked_def)

lemma masks_re_sub: "(\<And>t. masks t (f t)) \<Longrightarrow> masks s (re_sub r f s)"
  unfolding masks_def by (rule re_sub_rel) auto

lemma masks_comments: "masks t (mask_c_comments t)"
  unfolding mask_c_comments_def by (rule masks_re_sub) (simp add: mask_intros)

lemma masks_comments_and_literals: "masks t (mask_c_comments_and_literals t)"
  unfolding mask_c_comments_and_literals_def by (rule masks_re_sub) (simp add: mask_intros)

subsection \<open>Line structure\<close>

text \<open>Texts whose only line boundary in the sense of \<^verbatim>\<open>str.splitlines\<close> is the newline.\<close>

definition plain_lines :: "string \<Rightarrow> bool" where
  "plain_lines t \<longleftrightarrow> list_all (\<lambda>c. py_break c \<longrightarrow> c = LF) t"

lemma concat_splitlines_keep [simp]: "concat (splitlines_keep s) = s"
  by (induction s rule: splitlines_keep.induct) (auto split: list.splits simp: neq_Nil_conv)

lemma splitlines_masks:
  assumes "masks t u" "plain_lines t"
  shows "list_all2 masks (splitlines_keep t) (splitlines_keep u)"
  using assms(1) [unfolded masks_def] assms(2)
proof (induction rule: list_all2_induct)
  case Nil
  then show ?case by simp
next
  case (Cons c cs d ds)
  then have IH: "list_all2 masks (splitlines_keep cs) (splitlines_keep ds)"
    by (simp add: plain_lines_def)
  have br: "py_break d \<longleftrightarrow> c = LF" "py_break c \<longleftrightarrow> c = LF" "c = LF \<longleftrightarrow> d = LF" "c \<noteq> CR" "d \<noteq> CR"
    using Cons.hyps Cons.prems by (auto simp: blanked_def plain_lines_def py_break_def)
  show ?case
  proof (cases "c = LF")
    case True
    with br IH show ?thesis by simp
  next
    case False
    then have "splitlines_keep (c # cs) = (case splitlines_keep cs of [] \<Rightarrow> [[c]] | l # ls \<Rightarrow> (c # l) # ls)"
      "splitlines_keep (d # ds) = (case splitlines_keep ds of [] \<Rightarrow> [[d]] | l # ls \<Rightarrow> (d # l) # ls)"
      using br by simp_all
    with IH Cons.hyps(1) show ?thesis
      by (auto split: list.splits)
  qed
qed

lemma inactive_lines_masks:
  "inactive_lines ls stack possible = Inr (out, stack') \<Longrightarrow> list_all2 masks (map fst ls) out"
proof (induction ls stack possible arbitrary: out stack' rule: inactive_lines.induct)
  case (2 raw lexical rest stack possible)
  then show ?case
    by (cases "line_directive lexical") (auto simp: res_simps mask_intros split: prod.splits)
qed simp

lemma masks_definitely_inactive:
  assumes "mask_c_definitely_inactive t = Inr u" and plain: "plain_lines t"
  shows "masks t u"
proof -
  let ?l = "mask_c_comments_and_literals t"
  have al: "list_all2 masks (splitlines_keep t) (splitlines_keep ?l)"
    by (rule splitlines_masks [OF masks_comments_and_literals plain])
  from assms(1) obtain out where u: "u = concat out"
    and "inactive_lines (zip (splitlines_keep t) (splitlines_keep ?l)) [] True = Inr (out, [])"
    by (auto simp: mask_c_definitely_inactive_def Let_def res_simps split: if_splits)
  from inactive_lines_masks [OF this(2)] have "list_all2 masks (splitlines_keep t) out"
    using list_all2_lengthD [OF al] by simp
  then have "masks (concat (splitlines_keep t)) (concat out)"
    unfolding masks_def by (rule list_all2_concat)
  then show ?thesis by (simp add: u)
qed

lemma masks_live_code:
  assumes "mask_c_live_code t literals = Inr u" and "plain_lines t"
  shows "masks t u"
proof -
  from assms(1) obtain a where a: "mask_c_definitely_inactive t = Inr a"
    and u: "u = (if literals then mask_c_comments_and_literals a else mask_c_comments a)"
    by (auto simp: mask_c_live_code_def res_simps)
  have "masks a u"
    by (simp add: u masks_comments masks_comments_and_literals)
  with masks_definitely_inactive [OF a assms(2)] show ?thesis by (rule masks_trans)
qed

lemma masks_injection_context:
  assumes "mask_c_injection_context t marker = Inr u" and "plain_lines t"
  shows "masks t u"
proof -
  from assms(1) obtain a where a: "mask_c_definitely_inactive t = Inr a"
    and u: "u = re_sub C_LEXEME_PATTERN (\<lambda>token.
            if is_comment_token token then
              (if py_strip token = ''/* '' @ marker @ '' */'' \<or> py_strip token = ''// '' @ marker
               then token else masked_lexeme token)
            else token) a"
    by (auto simp: mask_c_injection_context_def res_simps)
  have "masks a u"
    unfolding u by (rule masks_re_sub) (simp add: masks_lexeme)
  with masks_definitely_inactive [OF a assms(2)] show ?thesis by (rule masks_trans)
qed

subsection \<open>Reference semantics of conditional compilation\<close>

text \<open>
  What a C preprocessor does with the conditional directives, given the truth value of every
  \<^verbatim>\<open>#if\<close>, \<^verbatim>\<open>#ifdef\<close>, \<^verbatim>\<open>#ifndef\<close> and \<^verbatim>\<open>#elif\<close> condition. A stack entry holds whether the
  surrounding group is compiled and whether a branch of the group was already taken.
\<close>

fun cpp_step :: "directive \<Rightarrow> bool \<Rightarrow> pp_stack \<Rightarrow> bool \<Rightarrow> (pp_stack \<times> bool) option" where
  "cpp_step (DIf e) v stack active = Some ((active, v) # stack, active \<and> v)"
| "cpp_step DIfdef v stack active = Some ((active, v) # stack, active \<and> v)"
| "cpp_step (DElif e) v ((parent, taken) # stack) active =
     Some ((parent, taken \<or> v) # stack, parent \<and> \<not> taken \<and> v)"
| "cpp_step DElse v ((parent, taken) # stack) active =
     Some ((parent, True) # stack, parent \<and> \<not> taken)"
| "cpp_step DEndif v ((parent, taken) # stack) active = Some (stack, parent)"
| "cpp_step _ v [] active = None"

text \<open>For every line, whether it is compiled.\<close>

fun cpp_lines :: "(directive option \<times> bool) list \<Rightarrow> pp_stack \<Rightarrow> bool \<Rightarrow> bool list option" where
  "cpp_lines [] stack active = Some []"
| "cpp_lines ((None, v) # rest) stack active = map_option (Cons active) (cpp_lines rest stack active)"
| "cpp_lines ((Some d, v) # rest) stack active =
     (case cpp_step d v stack active of
        None \<Rightarrow> None
      | Some (stack', active') \<Rightarrow> map_option (Cons active') (cpp_lines rest stack' active'))"

text \<open>The truth values agree with the constant conditions that the installer evaluates.\<close>

fun truth_agrees :: "directive option \<times> bool \<Rightarrow> bool" where
  "truth_agrees (Some (DIf e), v) \<longleftrightarrow> preprocessor_integer_truth e \<in> {None, Some v}"
| "truth_agrees (Some (DElif e), v) \<longleftrightarrow> preprocessor_integer_truth e \<in> {None, Some v}"
| "truth_agrees _ \<longleftrightarrow> True"

text \<open>The installer's stack covers the preprocessor's: possible whenever compiled, and definitely
  taken only when taken.\<close>

definition covers :: "pp_stack \<Rightarrow> pp_stack \<Rightarrow> bool" where
  "covers ps cs \<longleftrightarrow> list_all2 (\<lambda>p c. (fst c \<longrightarrow> fst p) \<and> (snd p \<longrightarrow> snd c)) ps cs"

lemma pp_step_covers:
  assumes "pp_step d ps possible = Inr (ps', possible')" "cpp_step d v cs active = Some (cs', active')"
    and "covers ps cs" "active \<longrightarrow> possible" "truth_agrees (Some d, v)"
  shows "covers ps' cs' \<and> (active' \<longrightarrow> possible')"
  using assms
  by (cases d; cases ps; cases cs; clarsimp simp: covers_def open_branch_def Let_def split: if_splits)
    auto

lemma inactive_lines_sound:
  assumes "inactive_lines ls ps possible = Inr (out, ps')"
    and "cpp_lines (zip (map (\<lambda>l. line_directive (snd l)) ls) vs) cs active = Some acts"
    and "length vs = length ls" "covers ps cs" "active \<longrightarrow> possible"
    and "list_all truth_agrees (zip (map (\<lambda>l. line_directive (snd l)) ls) vs)"
    and "i < length ls" "acts ! i" "line_directive (snd (ls ! i)) = None"
  shows "out ! i = fst (ls ! i)"
  using assms
proof (induction ls ps possible arbitrary: out ps' vs cs active acts i rule: inactive_lines.induct)
  case (1 ps possible)
  then show ?case by simp
next
  case (2 raw lex rest ps possible)
  from "2.prems"(3) obtain v ws where vs: "vs = v # ws" and ws: "length ws = length rest"
    by (cases vs) auto
  show ?case
  proof (cases "line_directive lex")
    case None
    with "2.prems"(1) obtain o1 where run: "inactive_lines rest ps possible = Inr (o1, ps')"
      and out: "out = (if possible then raw else masked_lexeme raw) # o1"
      by (auto simp: res_simps)
    from "2.prems"(2) None vs obtain a1 where
      cpp: "cpp_lines (zip (map (\<lambda>l. line_directive (snd l)) rest) ws) cs active = Some a1"
      and acts: "acts = active # a1" by auto
    show ?thesis
    proof (cases i)
      case 0
      with out acts "2.prems" show ?thesis by simp
    next
      case (Suc j)
      with "2.IH"(1) [OF None run cpp ws, of j] "2.prems" vs out acts show ?thesis by simp
    qed
  next
    case (Some d)
    with "2.prems"(1) obtain ps1 p1 o1 where st: "pp_step d ps possible = Inr (ps1, p1)"
      and run: "inactive_lines rest ps1 p1 = Inr (o1, ps')" and out: "tl out = o1" "out \<noteq> []"
      by (auto simp: res_simps)
    from "2.prems"(2) Some vs obtain cs1 act1 a1 where cst: "cpp_step d v cs active = Some (cs1, act1)"
      and cpp: "cpp_lines (zip (map (\<lambda>l. line_directive (snd l)) rest) ws) cs1 act1 = Some a1"
      and acts: "acts = act1 # a1"
      by (auto split: option.splits)
    have cov: "covers ps1 cs1 \<and> (act1 \<longrightarrow> p1)"
      using pp_step_covers [OF st cst] "2.prems" Some vs by simp
    obtain j where j: "i = Suc j"
      using "2.prems"(9) Some by (cases i) auto
    have "o1 ! j = fst (rest ! j)"
      by (rule "2.IH"(2) [OF Some st _ run cpp ws]) (use cov "2.prems" vs acts j in simp_all)
    with out j show ?thesis by (cases out) auto
  qed
qed

lemma concat_eq_same_lengths:
  "concat xs = concat ys \<Longrightarrow> map length xs = map length ys \<Longrightarrow> xs = ys"
  by (induction xs arbitrary: ys) (auto simp: Cons_eq_map_conv)

lemma list_all2_masks_lengths: "list_all2 masks xs ys \<Longrightarrow> map length ys = map length xs"
  by (induction rule: list_all2_induct) (auto simp: masks_length)

lemma splitlines_of_masked_lines:
  assumes "list_all2 masks (splitlines_keep t) out" "plain_lines t"
  shows "splitlines_keep (concat out) = out"
proof -
  have "masks (concat (splitlines_keep t)) (concat out)"
    using assms(1) unfolding masks_def by (rule list_all2_concat)
  then have "list_all2 masks (splitlines_keep t) (splitlines_keep (concat out))"
    using splitlines_masks assms(2) by simp
  then have "map length (splitlines_keep (concat out)) = map length (splitlines_keep t)"
    by (rule list_all2_masks_lengths)
  moreover have "map length out = map length (splitlines_keep t)"
    using assms(1) by (rule list_all2_masks_lengths)
  ultimately show ?thesis by (intro concat_eq_same_lengths) simp_all
qed

subsection \<open>The contract of a source mask\<close>

text \<open>
  The editing functions search a masked text and edit the original at the offset they found. The
  locale states what they rely on; its lemmas are proved once for all masks.
\<close>

locale source_mask =
  fixes mask :: "string \<Rightarrow> string res"
    and ok :: "string \<Rightarrow> bool"
  assumes mask_masks: "ok t \<Longrightarrow> mask t = Inr u \<Longrightarrow> masks t u"
begin

lemma mask_length: "ok t \<Longrightarrow> mask t = Inr u \<Longrightarrow> length u = length t"
  by (rule masks_length [OF mask_masks])

lemma mask_visible:
  "ok t \<Longrightarrow> mask t = Inr u \<Longrightarrow> i < length t \<Longrightarrow> u ! i \<noteq> SP \<Longrightarrow> t ! i = u ! i"
  by (rule masks_visible [OF mask_masks])

lemma mask_occurrence:
  assumes "ok t" "mask t = Inr u" "py_find old u = Some i"
  shows "i + length old \<le> length t" "masks (take (length old) (drop i t)) old"
proof -
  from py_find_SomeD [OF assms(3)] show "i + length old \<le> length t"
    using mask_length [OF assms(1,2)] by simp
  show "masks (take (length old) (drop i t)) old"
    using masks_slice [OF mask_masks [OF assms(1,2)], of "length old" i] py_find_SomeD [OF assms(3)]
    by simp
qed

lemma mask_splice:
  assumes "ok t" "mask t = Inr u" "py_find old u = Some i"
  shows "\<exists>mid. t = take i t @ mid @ drop (i + length old) t \<and> masks mid old"
  using mask_occurrence [OF assms] take_drop_split by blast

end

interpretation comments: source_mask "\<lambda>t. Inr (mask_c_comments t)" "\<lambda>_. True"
  by unfold_locales (auto intro: masks_comments)

interpretation literals: source_mask "\<lambda>t. Inr (mask_c_comments_and_literals t)" "\<lambda>_. True"
  by unfold_locales (auto intro: masks_comments_and_literals)

interpretation inactive: source_mask mask_c_definitely_inactive plain_lines
  by unfold_locales (rule masks_definitely_inactive)

interpretation live: source_mask "\<lambda>t. mask_c_live_code t literals" plain_lines for literals
  by unfold_locales (rule masks_live_code)

interpretation context_mask: source_mask "\<lambda>t. mask_c_injection_context t marker" plain_lines for marker
  by unfold_locales (rule masks_injection_context)

subsection \<open>Properties\<close>



text \<open>
  C20: offsets in the live code are offsets in the file. \<^verbatim>\<open>mask_c_live_code\<close> keeps the length of the text, keeps every newline,
  and changes a character only to a blank, so a visible character of the mask is the character of the
  source at the same place.
\<close>

theorem live_code_keeps_offsets:
  assumes "mask_c_live_code t literals = Inr u" and "plain_lines t"
  shows "length u = length t \<and> (\<forall>i<length t. u ! i = t ! i \<or> u ! i = SP \<and> t ! i \<noteq> LF)"
  using masks_live_code [OF assms] masks_length masks_nth unfolding blanked_def by blast

theorem live_code_keeps_offsets_witness:
  "mask_c_live_code ''int a; // b {\<newline>#if 0 \<newline>x = 1;\<newline>#endif '' True =
     Inr ''int a;       \<newline>      \<newline>      \<newline>#endif '' \<and>
   length ''int a;       \<newline>      \<newline>      \<newline>#endif '' = length ''int a; // b {\<newline>#if 0 \<newline>x = 1;\<newline>#endif ''"
proof
  show run: "mask_c_live_code ''int a; // b {\<newline>#if 0 \<newline>x = 1;\<newline>#endif '' True =
      Inr ''int a;       \<newline>      \<newline>      \<newline>#endif ''" by code_simp
  have "plain_lines ''int a; // b {\<newline>#if 0 \<newline>x = 1;\<newline>#endif ''" by code_simp
  from live_code_keeps_offsets [OF run this]
  show "length ''int a;       \<newline>      \<newline>      \<newline>#endif '' = length ''int a; // b {\<newline>#if 0 \<newline>x = 1;\<newline>#endif ''" ..
qed

end
