(* ===== verification/C_Scope.thy ===== *)
theory C_Scope
  imports C_Mask_Laws
begin

text \<open>
  Locating the function body that an anchor belongs to (\<^verbatim>\<open>c_scope_bounds\<close> and
  \<^verbatim>\<open>c_scope_containing\<close>): brace matching on the live text of a C file.
\<close>

text \<open>
  The occurrences of the anchor, each search resuming behind the previous occurrence. The anchors
  are non-empty literals of the installer; for an empty anchor the loop of the code would not end.
\<close>

function find_all :: "string \<Rightarrow> string \<Rightarrow> nat \<Rightarrow> nat list" where
  "find_all anchor masked cursor =
     (if anchor = [] then []
      else case py_find_from anchor masked cursor of
        None \<Rightarrow> []
      | Some occurrence \<Rightarrow> occurrence # find_all anchor masked (occurrence + length anchor))"
  by pat_completeness auto
termination
proof (relation "measure (\<lambda>(anchor, masked, cursor). Suc (length masked) - cursor)")
  fix anchor masked :: string and cursor occurrence
  assume "anchor \<noteq> []" "py_find_from anchor masked cursor = Some occurrence"
  then show "((anchor, masked, occurrence + length anchor), anchor, masked, cursor)
      \<in> measure (\<lambda>(anchor, masked, cursor). Suc (length masked) - cursor)"
    by (cases anchor) (auto simp: py_find_from_def split: if_splits)
qed simp

declare find_all.simps [simp del]

text \<open>The brace pairs in the order in which they close, and the braces left open.\<close>

fun brace_scan :: "nat \<Rightarrow> string \<Rightarrow> nat list \<Rightarrow> (nat \<times> nat) list \<times> nat list" where
  "brace_scan index [] stack = ([], stack)"
| "brace_scan index (character # rest) stack =
     (if character = CHR ''{'' then brace_scan (Suc index) rest (index # stack)
      else if character = CHR ''}'' then
        (case stack of
           [] \<Rightarrow> brace_scan (Suc index) rest []
         | lbrace # below \<Rightarrow>
             (case brace_scan (Suc index) rest below of
                (pairs, stack') \<Rightarrow> ((lbrace, index) # pairs, stack')))
      else brace_scan (Suc index) rest stack)"

text \<open>The pair with the least start: \<^verbatim>\<open>min(containing, key=lambda pair: pair[0])\<close>.\<close>

fun outermost :: "(nat \<times> nat) list \<Rightarrow> (nat \<times> nat) option" where
  "outermost [] = None"
| "outermost (p # ps) =
     (case outermost ps of None \<Rightarrow> Some p | Some q \<Rightarrow> Some (if fst p \<le> fst q then p else q))"

text \<open>The scope that one occurrence of the anchor contributes, if any.\<close>

definition scope_candidate ::
  "string \<Rightarrow> (nat \<times> nat) list \<Rightarrow> string \<Rightarrow> nat \<Rightarrow> (nat \<times> nat) option" where
  "scope_candidate masked pairs anchor occurrence =
     (let containing = filter (\<lambda>p. fst p < occurrence \<and> occurrence < snd p) pairs;
          anchor_end = occurrence + length anchor;
          lookup = (\<lambda>b. map_option (\<lambda>e. (b, e)) (map_of pairs b))
      in case outermost containing of
           Some p \<Rightarrow> Some p
         | None \<Rightarrow>
             (case py_find_from ''{'' (take anchor_end masked) occurrence of
                Some body_brace \<Rightarrow> lookup body_brace
              | None \<Rightarrow>
                  (case (py_find_from ''{'' masked anchor_end, py_find_from '';'' masked anchor_end) of
                     (None, _) \<Rightarrow> None
                   | (Some body_brace, None) \<Rightarrow> lookup body_brace
                   | (Some body_brace, Some semicolon) \<Rightarrow>
                       if semicolon < body_brace then None else lookup body_brace)))"

definition c_scope_bounds :: "path \<Rightarrow> string \<Rightarrow> string \<Rightarrow> (nat \<times> nat) res" where
  "c_scope_bounds path text anchor =
     rbind (mask_c_live_code text True) (\<lambda>masked.
       let occurrences = find_all anchor masked 0
       in if occurrences = [] then
            Inl (InstallError (''C scope anchor '' @ py_repr anchor @ '' not found in '' @ str_path path))
          else case brace_scan 0 masked [] of
            (pairs, stack) \<Rightarrow>
              if stack \<noteq> [] then
                Inl (InstallError (''unbalanced C scope while locating '' @ py_repr anchor
                  @ '' in '' @ str_path path))
              else
                (case remdups (List.map_filter (scope_candidate masked pairs anchor) occurrences) of
                   [candidate] \<Rightarrow> Inr candidate
                 | _ \<Rightarrow> Inl (InstallError (''C function scope for '' @ py_repr anchor
                     @ '' not found in '' @ str_path path))))"

definition slice :: "'a list \<Rightarrow> nat \<Rightarrow> nat \<Rightarrow> 'a list" where
  "slice s i j = take (j - i) (drop i s)"

definition c_scope_containing :: "path \<Rightarrow> string \<Rightarrow> string \<Rightarrow> string res" where
  "c_scope_containing path text anchor =
     rbind (c_scope_bounds path text anchor) (\<lambda>(start, stop). Inr (slice text start (Suc stop)))"

subsection \<open>The pairs are matching braces\<close>

text \<open>Brace depth of a piece of text relative to its start; \<open>None\<close> if it closes a brace it did
  not open.\<close>

fun nesting :: "nat \<Rightarrow> string \<Rightarrow> nat option" where
  "nesting d [] = Some d"
| "nesting d (c # cs) =
     (if c = CHR ''{'' then nesting (Suc d) cs
      else if c = CHR ''}'' then (case d of 0 \<Rightarrow> None | Suc e \<Rightarrow> nesting e cs)
      else nesting d cs)"

lemma nesting_append:
  "nesting d (xs @ ys) = (case nesting d xs of None \<Rightarrow> None | Some e \<Rightarrow> nesting e ys)"
  by (induction d xs rule: nesting.induct) (auto split: nat.splits)

text \<open>A balanced block of a text: braces at both ends, and in between every brace is matched.\<close>

definition brace_block :: "string \<Rightarrow> nat \<Rightarrow> nat \<Rightarrow> bool" where
  "brace_block m a b \<longleftrightarrow> a < b \<and> b < length m \<and> m ! a = CHR ''{'' \<and> m ! b = CHR ''}'' \<and>
     nesting 0 (slice m (Suc a) b) = Some 0"

definition open_braces :: "string \<Rightarrow> nat \<Rightarrow> nat list \<Rightarrow> bool" where
  "open_braces m i stack \<longleftrightarrow> (\<forall>k<length stack. stack ! k < i \<and> m ! (stack ! k) = CHR ''{'' \<and>
     nesting 0 (slice m (Suc (stack ! k)) i) = Some k)"

lemma slice_Suc: "a \<le> i \<Longrightarrow> i < length m \<Longrightarrow> slice m a (Suc i) = slice m a i @ [m ! i]"
  by (simp add: slice_def Suc_diff_le take_Suc_conv_app_nth)

lemma slice_empty [simp]: "j \<le> i \<Longrightarrow> slice m i j = []"
  by (simp add: slice_def)

lemma open_braces_push:
  assumes "open_braces m i stack" "i < length m" "m ! i = CHR ''{''"
  shows "open_braces m (Suc i) (i # stack)"
  unfolding open_braces_def
proof (intro allI impI)
  fix k assume k: "k < length (i # stack)"
  show "(i # stack) ! k < Suc i \<and> m ! ((i # stack) ! k) = CHR ''{'' \<and>
      nesting 0 (slice m (Suc ((i # stack) ! k)) (Suc i)) = Some k"
  proof (cases k)
    case (Suc j)
    with k assms(1) have "stack ! j < i" "m ! (stack ! j) = CHR ''{''"
      "nesting 0 (slice m (Suc (stack ! j)) i) = Some j" by (auto simp: open_braces_def)
    with Suc assms(2,3) show ?thesis by (simp add: slice_Suc nesting_append)
  qed (use assms in simp)
qed

lemma open_braces_pop:
  assumes "open_braces m i (lbrace # stack)" "i < length m" "m ! i = CHR ''}''"
  shows "open_braces m (Suc i) stack"
  unfolding open_braces_def
proof (intro allI impI)
  fix k assume "k < length stack"
  with assms(1) have "stack ! k < i" "m ! (stack ! k) = CHR ''{''"
      "nesting 0 (slice m (Suc (stack ! k)) i) = Some (Suc k)"
    unfolding open_braces_def by (metis Suc_less_eq length_Cons nth_Cons_Suc)+
  with assms show "stack ! k < Suc i \<and> m ! (stack ! k) = CHR ''{'' \<and>
      nesting 0 (slice m (Suc (stack ! k)) (Suc i)) = Some k"
    by (simp add: slice_Suc nesting_append)
qed

lemma open_braces_skip:
  assumes "open_braces m i stack" "i < length m" "m ! i \<noteq> CHR ''{''" "m ! i \<noteq> CHR ''}'' \<or> stack = []"
  shows "open_braces m (Suc i) stack"
  using assms by (auto simp: open_braces_def slice_Suc nesting_append less_Suc_eq)

lemma brace_scan_blocks:
  assumes "brace_scan i cs stack = (pairs, stack')" "drop i m = cs" "i \<le> length m" "open_braces m i stack"
  shows "\<forall>(a, b)\<in>set pairs. brace_block m a b"
  using assms
proof (induction i cs stack arbitrary: pairs stack' rule: brace_scan.induct)
  case (1 i stack)
  then show ?case by simp
next
  case (2 i c cs stack)
  then have i: "i < length m" and c: "m ! i = c" and d: "drop (Suc i) m = cs"
    by (auto simp: Cons_nth_drop_Suc [symmetric] dest: sym)
      (metis drop_eq_Nil list.distinct(1) not_le, metis Cons_nth_drop_Suc drop_eq_Nil list.distinct(1) list.inject not_le,
       metis drop_Suc list.sel(3) tl_drop)
  consider (op) "c = CHR ''{''" | (cl) lbrace below where "c = CHR ''}''" "stack = lbrace # below"
    | (sk) "c \<noteq> CHR ''{''" "c \<noteq> CHR ''}'' \<or> stack = []"
    by (cases stack) auto
  then show ?case
  proof cases
    case op
    with "2.prems" i c d open_braces_push [OF "2.prems"(4) i] show ?thesis
      by (intro "2.IH"(1)) auto
  next
    case cl
    with "2.prems"(1) obtain ps where run: "brace_scan (Suc i) cs below = (ps, stack')"
      and pairs: "pairs = (lbrace, i) # ps" by (auto split: prod.splits)
    have "\<forall>(a, b)\<in>set ps. brace_block m a b"
      using cl open_braces_pop [OF _ i] "2.prems" c d i
      by (intro "2.IH"(3) [OF _ _ _ run]) auto
    moreover have "brace_block m lbrace i"
      using "2.prems"(4) cl i c by (auto simp: open_braces_def brace_block_def)
    ultimately show ?thesis by (simp add: pairs)
  next
    case sk
    with open_braces_skip [OF "2.prems"(4) i] c have op: "open_braces m (Suc i) stack" by auto
    from sk "2.prems"(1) have run: "brace_scan (Suc i) cs stack = (pairs, stack')" by (auto split: if_splits)
    show ?thesis
    proof (cases "c = CHR ''}''")
      case True
      with sk run op d i show ?thesis by (intro "2.IH"(2) [of pairs stack']) auto
    next
      case False
      with sk run op d i show ?thesis by (intro "2.IH"(4) [of pairs stack']) auto
    qed
  qed
qed

subsection \<open>The scope that is found\<close>

lemma outermost_mem: "outermost ps = Some p \<Longrightarrow> p \<in> set ps"
  by (induction ps arbitrary: p) (auto split: option.splits if_splits)

lemma scope_candidate_mem: "scope_candidate masked pairs anchor occ = Some p \<Longrightarrow> p \<in> set pairs"
  unfolding scope_candidate_def Let_def
  by (auto split: option.splits if_splits dest!: outermost_mem map_of_SomeD)

lemma c_scope_bounds_candidate:
  assumes "c_scope_bounds path text anchor = Inr (a, b)"
  obtains masked occ where "mask_c_live_code text True = Inr masked"
    "occ \<in> set (find_all anchor masked 0)"
    "scope_candidate masked (fst (brace_scan 0 masked [])) anchor occ = Some (a, b)"
proof -
  from assms obtain masked where m: "mask_c_live_code text True = Inr masked"
    and "remdups (List.map_filter (scope_candidate masked (fst (brace_scan 0 masked [])) anchor)
           (find_all anchor masked 0)) = [(a, b)]"
    by (auto simp: c_scope_bounds_def Let_def res_simps split: if_splits prod.splits list.splits)
  then have "(a, b) \<in> set (List.map_filter (scope_candidate masked (fst (brace_scan 0 masked [])) anchor)
           (find_all anchor masked 0))"
    by (metis list.set_intros(1) set_remdups)
  with m that show thesis by (auto simp: List.map_filter_def)
qed

lemma c_scope_bounds_block:
  assumes "c_scope_bounds path text anchor = Inr (a, b)"
  obtains masked where "mask_c_live_code text True = Inr masked" "brace_block masked a b"
proof -
  from assms obtain masked occ where m: "mask_c_live_code text True = Inr masked"
    and c: "scope_candidate masked (fst (brace_scan 0 masked [])) anchor occ = Some (a, b)"
    by (rule c_scope_bounds_candidate)
  have "\<forall>(a, b)\<in>set (fst (brace_scan 0 masked [])). brace_block masked a b"
    by (rule brace_scan_blocks [where i = 0 and cs = masked and stack = "[]" and stack' = "snd (brace_scan 0 masked [])"])
      (auto simp: open_braces_def)
  with scope_candidate_mem [OF c] m that show thesis by blast
qed

text \<open>The braces found in the masked text are braces of the text itself.\<close>

lemma c_scope_bounds_text:
  assumes "c_scope_bounds path text anchor = Inr (a, b)" "plain_lines text"
  shows "a < b \<and> b < length text \<and> text ! a = CHR ''{'' \<and> text ! b = CHR ''}''"
proof -
  obtain masked where m: "mask_c_live_code text True = Inr masked" and bl: "brace_block masked a b"
    using c_scope_bounds_block [OF assms(1)] .
  note len = live.mask_length [OF assms(2) m] and vis = live.mask_visible [OF assms(2) m]
  from bl show ?thesis
    using vis [of a] vis [of b] len by (simp add: brace_block_def)
qed

end
