(* ===== verification/Injection.thy ===== *)
theory Injection
  imports C_Scope
begin

text \<open>
  Recognising and making edits of C sources: \<^verbatim>\<open>exact_injection_installed\<close>, the
  \<^verbatim>\<open>replace_live_*\<close> family, \<^verbatim>\<open>insert_live_scope_start\<close> and \<^verbatim>\<open>add_include\<close>.
\<close>

text \<open>The keyword arguments of \<^verbatim>\<open>exact_injection_installed\<close>, with their defaults.\<close>

record injection_checks =
  scope :: "string option"
  forbidden :: "string list"
  global_counts :: "(string \<times> nat) list"
  live_scope_counts :: "(string \<times> nat) list"
  live_global_counts :: "(string \<times> nat) list"
  code_global_counts :: "(string \<times> nat) list"

definition no_checks :: injection_checks where
  "no_checks = \<lparr>scope = None, forbidden = [], global_counts = [], live_scope_counts = [],
     live_global_counts = [], code_global_counts = []\<rparr>"

definition count_differs :: "string \<Rightarrow> string \<times> nat \<Rightarrow> bool" where
  "count_differs text tc \<longleftrightarrow> py_count (fst tc) text \<noteq> snd tc"

definition partial_injection :: "path \<Rightarrow> string \<Rightarrow> exn" where
  "partial_injection path marker =
     InstallError (''conflicting or partial ABK injection in '' @ str_path path @ '': '' @ marker)"

definition exact_injection_installed ::
  "path \<Rightarrow> string \<Rightarrow> string \<Rightarrow> string list \<Rightarrow> injection_checks \<Rightarrow> bool res" where
  "exact_injection_installed path text marker contexts checks =
     rbind (mask_c_injection_context text marker) (\<lambda>context_global.
     if \<not> py_in marker context_global then
       (if py_in marker text then Inl (partial_injection path marker) else Inr False)
     else
       let inspected = (case scope checks of None \<Rightarrow> text | Some s \<Rightarrow> s)
       in rbind (mask_c_injection_context inspected marker) (\<lambda>context_scope.
          rbind (mask_c_live_code inspected True) (\<lambda>live_scope.
          rbind (mask_c_live_code text True) (\<lambda>live_global.
          rbind (mask_c_live_code inspected False) (\<lambda>code_scope.
          rbind (mask_c_live_code text False) (\<lambda>code_global.
            let invalid =
              (py_count marker context_global \<noteq> 1 \<or> py_count marker context_scope \<noteq> 1 \<or>
               list_ex (\<lambda>context. py_count context context_scope \<noteq> 1) contexts \<or>
               list_ex (\<lambda>forbidden_text. py_in forbidden_text code_scope) (forbidden checks) \<or>
               list_ex (count_differs context_global) (global_counts checks) \<or>
               list_ex (count_differs live_scope) (live_scope_counts checks) \<or>
               list_ex (count_differs live_global) (live_global_counts checks) \<or>
               list_ex (count_differs code_global) (code_global_counts checks))
            in if invalid then Inl (partial_injection path marker) else Inr True))))))"

definition anchor_error :: "string \<Rightarrow> path \<Rightarrow> exn" where
  "anchor_error error path = InstallError (error @ '' in '' @ str_path path)"

definition replace_live_in_scope ::
  "path \<Rightarrow> string \<Rightarrow> string \<Rightarrow> string \<Rightarrow> string \<Rightarrow> string \<Rightarrow> string res" where
  "replace_live_in_scope path text scope_anchor old new error =
     rbind (c_scope_bounds path text scope_anchor) (\<lambda>(scope_start, scope_end).
       let scope = slice text scope_start (Suc scope_end)
       in rbind (mask_c_live_code scope False) (\<lambda>live_scope.
          if py_count old live_scope \<noteq> 1 then Inl (anchor_error error path)
          else rbind (py_index live_scope old) (\<lambda>relative.
            let start = scope_start + relative
            in Inr (take start text @ new @ drop (start + length old) text))))"

definition replace_live_global ::
  "path \<Rightarrow> string \<Rightarrow> string \<Rightarrow> string \<Rightarrow> string \<Rightarrow> string res" where
  "replace_live_global path text old new error =
     rbind (mask_c_live_code text False) (\<lambda>live.
       if py_count old live \<noteq> 1 then Inl (anchor_error error path)
       else rbind (py_index live old) (\<lambda>start.
         Inr (take start text @ new @ drop (start + length old) text)))"

definition replace_live_regex_global ::
  "path \<Rightarrow> string \<Rightarrow> regex \<Rightarrow> string \<Rightarrow> string \<Rightarrow> string res" where
  "replace_live_regex_global path text pattern replacement_prefix error =
     rbind (mask_c_live_code text False) (\<lambda>live.
       case re_finditer pattern live of
         [(start, stop, g)] \<Rightarrow> Inr (take start text @ replacement_prefix @ drop start text)
       | _ \<Rightarrow> Inl (anchor_error error path))"

definition replace_live_regex_in_scope ::
  "path \<Rightarrow> string \<Rightarrow> string \<Rightarrow> regex \<Rightarrow> string \<Rightarrow> string \<Rightarrow> string res" where
  "replace_live_regex_in_scope path text scope_anchor pattern replacement error =
     rbind (c_scope_bounds path text scope_anchor) (\<lambda>(scope_start, scope_end).
       let scope = slice text scope_start (Suc scope_end)
       in rbind (mask_c_live_code scope False) (\<lambda>live_scope.
          case re_finditer pattern live_scope of
            [(start, stop, g)] \<Rightarrow>
              Inr (take (scope_start + start) text @ replacement @ drop (scope_start + stop) text)
          | _ \<Rightarrow> Inl (anchor_error error path)))"

text \<open>The index \<^verbatim>\<open>text[scope_start]\<close> is in range for every offset that \<^verbatim>\<open>c_scope_bounds\<close> returns for
  a text with plain lines; elsewhere Python raises \<^verbatim>\<open>IndexError\<close>, modelled as \<open>ValueErr\<close>.\<close>

definition insert_live_scope_start ::
  "path \<Rightarrow> string \<Rightarrow> string \<Rightarrow> string \<Rightarrow> string \<Rightarrow> string res" where
  "insert_live_scope_start path text scope_anchor insertion error =
     rbind (c_scope_bounds path text scope_anchor) (\<lambda>(scope_start, scope_end).
       if length text \<le> scope_start then Inl (ValueErr ''string index out of range'')
       else if text ! scope_start \<noteq> CHR ''{'' then Inl (anchor_error error path)
       else Inr (take (Suc scope_start) text @ insertion @ drop (Suc scope_start) text))"

subsection \<open>Include lines\<close>

text \<open>\<^verbatim>\<open>^[ \t]*#[ \t]*include\b\<close>\<close>

definition include_pattern :: regex where
  "include_pattern = rseq [RBol, RStar rblank, RLit ''#'', RStar rblank, RLit ''include'', RBnd]"

definition is_include_line :: "string \<Rightarrow> bool" where
  "is_include_line line \<longleftrightarrow> re_match include_pattern line \<noteq> None"

definition add_include :: "string \<Rightarrow> string \<Rightarrow> path \<Rightarrow> string res" where
  "add_include text include path =
     (let lines = filter (\<lambda>line. py_strip line \<noteq> include) (splitlines_keep text);
          before = takeWhile (\<lambda>line. \<not> is_include_line line) lines;
          rest = dropWhile (\<lambda>line. \<not> is_include_line line) lines
      in case rest of
           [] \<Rightarrow> Inl (InstallError (''include anchor not found in '' @ str_path path))
         | first # _ \<Rightarrow>
             let run = takeWhile is_include_line rest;
                 newline = (if suffix [CR, LF] first then [CR, LF] else [LF])
             in Inr (concat (before @ run @ [include @ newline] @ dropWhile is_include_line rest)))"

end
