(* ===== verification/Py_FS.thy ===== *)
theory Py_FS
  imports Py_Str
begin

text \<open>
  The file system and the interpreter state that the installer works on, with the operations of
  \<^verbatim>\<open>pathlib\<close>, \<^verbatim>\<open>os\<close> and \<^verbatim>\<open>shutil\<close> that it calls, and the state-and-exception monad in which the
  installer's procedures are written.

  A file system is an association list from absolute paths to nodes; its order is the order in
  which a directory listing reports entries. A symbolic link holds the absolute path it points
  to. The contents of a regular file are its decoded characters; \<open>BinN\<close> is a regular file that is
  not valid UTF-8 (with the text that decoding with replacement characters gives), \<open>OtherN\<close> an entry
  that is neither a regular file nor a directory. File modes and time stamps are not modelled.
\<close>

datatype node = FileN string | BinN string | DirN | LinkN path | OtherN

type_synonym fs = "(path \<times> node) list"

subsection \<open>Path resolution\<close>

definition link_target :: "fs \<Rightarrow> path \<Rightarrow> path option" where
  "link_target fs p = (case map_of fs p of Some (LinkN t) \<Rightarrow> Some t | _ \<Rightarrow> None)"

text \<open>Walk a path, substituting links; after \<open>k\<close> links the kernel gives up with \<^verbatim>\<open>ELOOP\<close>.\<close>

fun walk :: "nat \<Rightarrow> fs \<Rightarrow> path \<Rightarrow> path \<Rightarrow> path option" where
  "walk k fs done [] = Some done"
| "walk k fs done (c # cs) =
     (case link_target fs (done @ [c]) of
        None \<Rightarrow> walk k fs (done @ [c]) cs
      | Some t \<Rightarrow> (case k of 0 \<Rightarrow> None | Suc k' \<Rightarrow> walk k' fs [] (t @ cs)))"

definition max_links :: nat where
  "max_links = 40"

definition realpath :: "fs \<Rightarrow> path \<Rightarrow> path option" where
  "realpath fs p = walk max_links fs [] p"

text \<open>The path of the directory entry itself: its parent is resolved, its last component is not.\<close>

definition entry :: "fs \<Rightarrow> path \<Rightarrow> path option" where
  "entry fs p = (if p = [] then Some [] else map_option (\<lambda>d. d @ [last p]) (realpath fs (butlast p)))"

definition stat :: "fs \<Rightarrow> path \<Rightarrow> node option" where
  "stat fs p = (case realpath fs p of None \<Rightarrow> None | Some r \<Rightarrow> map_of fs r)"

definition lstat :: "fs \<Rightarrow> path \<Rightarrow> node option" where
  "lstat fs p = (case entry fs p of None \<Rightarrow> None | Some r \<Rightarrow> map_of fs r)"

definition path_exists :: "fs \<Rightarrow> path \<Rightarrow> bool" where
  "path_exists fs p \<longleftrightarrow> stat fs p \<noteq> None"

definition is_regular :: "node \<Rightarrow> bool" where
  "is_regular n \<longleftrightarrow> (case n of FileN _ \<Rightarrow> True | BinN _ \<Rightarrow> True | _ \<Rightarrow> False)"

definition path_is_file :: "fs \<Rightarrow> path \<Rightarrow> bool" where
  "path_is_file fs p \<longleftrightarrow> (case stat fs p of Some n \<Rightarrow> is_regular n | None \<Rightarrow> False)"

definition path_is_dir :: "fs \<Rightarrow> path \<Rightarrow> bool" where
  "path_is_dir fs p \<longleftrightarrow> stat fs p = Some DirN"

definition path_is_symlink :: "fs \<Rightarrow> path \<Rightarrow> bool" where
  "path_is_symlink fs p \<longleftrightarrow> (case lstat fs p of Some (LinkN _) \<Rightarrow> True | _ \<Rightarrow> False)"

definition path_resolve :: "fs \<Rightarrow> path \<Rightarrow> path" where
  "path_resolve fs p = (case realpath fs p of None \<Rightarrow> p | Some r \<Rightarrow> r)"

text \<open>Why a path does not resolve to a node: too many links, a component that is not a directory,
  or a missing component.\<close>

definition missing_errno :: "fs \<Rightarrow> path \<Rightarrow> errno" where
  "missing_errno fs p =
     (case realpath fs p of
        None \<Rightarrow> ELOOP
      | Some r \<Rightarrow>
          if list_ex (\<lambda>k. \<not> (map_of fs (take k r) \<in> {None, Some DirN})) [0..<length r]
          then ENOTDIR else ENOENT)"

text \<open>\<^verbatim>\<open>path.iterdir()\<close>: the entries of the directory, in listing order.\<close>

definition path_iterdir :: "fs \<Rightarrow> path \<Rightarrow> path list" where
  "path_iterdir fs p =
     (case realpath fs p of
        None \<Rightarrow> []
      | Some r \<Rightarrow> map (\<lambda>e. p @ [last (fst e)])
          (filter (\<lambda>e. fst e \<noteq> [] \<and> butlast (fst e) = r) fs))"

subsection \<open>State and monad\<close>

text \<open>A transaction: the backup of every recorded file (\<open>None\<close> for a file that did not exist), in
  the order of recording, and the directories that did not exist. The backups live in a private
  temporary directory in the code; the model keeps their contents in the journal.\<close>

record txn =
  files :: "(path \<times> node option) list"
  missing_directories :: "path list"

definition empty_txn :: txn where
  "empty_txn = \<lparr>files = [], missing_directories = []\<rparr>"

record state =
  fsys :: fs
  active_transaction :: "txn option"
  validation_only :: bool
  work_mode :: string
  stdout :: "string list"
  stderr :: "string list"

type_synonym 'a io = "state \<Rightarrow> 'a res \<times> state"

definition ret :: "'a \<Rightarrow> 'a io" where
  "ret x s = (Inr x, s)"

definition raise :: "exn \<Rightarrow> 'a io" where
  "raise e s = (Inl e, s)"

definition bind :: "'a io \<Rightarrow> ('a \<Rightarrow> 'b io) \<Rightarrow> 'b io" where
  "bind m f s = (case m s of (Inl e, s') \<Rightarrow> (Inl e, s') | (Inr x, s') \<Rightarrow> f x s')"

definition lift :: "'a res \<Rightarrow> 'a io" where
  "lift r s = (r, s)"

definition whenM :: "bool \<Rightarrow> unit io \<Rightarrow> unit io" where
  "whenM b m = (if b then m else ret ())"

definition raise_when :: "bool \<Rightarrow> exn \<Rightarrow> unit io" where
  "raise_when b e = (if b then raise e else ret ())"

definition gets :: "(state \<Rightarrow> 'a) \<Rightarrow> 'a io" where
  "gets f s = (Inr (f s), s)"

definition modify :: "(state \<Rightarrow> state) \<Rightarrow> unit io" where
  "modify f s = (Inr (), f s)"

fun forM :: "('a \<Rightarrow> unit io) \<Rightarrow> 'a list \<Rightarrow> unit io" where
  "forM f [] = ret ()"
| "forM f (x # xs) = bind (f x) (\<lambda>_. forM f xs)"

fun mapM :: "('a \<Rightarrow> 'b io) \<Rightarrow> 'a list \<Rightarrow> 'b list io" where
  "mapM f [] = ret []"
| "mapM f (x # xs) = bind (f x) (\<lambda>y. bind (mapM f xs) (\<lambda>ys. ret (y # ys)))"

definition say :: "string \<Rightarrow> unit io" where
  "say line = modify (\<lambda>s. s\<lparr>stdout := stdout s @ [line]\<rparr>)"

definition complain :: "string \<Rightarrow> unit io" where
  "complain line = modify (\<lambda>s. s\<lparr>stderr := stderr s @ [line]\<rparr>)"

definition exists_p :: "path \<Rightarrow> bool io" where
  "exists_p p = gets (\<lambda>s. path_exists (fsys s) p)"

definition is_file :: "path \<Rightarrow> bool io" where
  "is_file p = gets (\<lambda>s. path_is_file (fsys s) p)"

definition is_dir :: "path \<Rightarrow> bool io" where
  "is_dir p = gets (\<lambda>s. path_is_dir (fsys s) p)"

definition is_symlink :: "path \<Rightarrow> bool io" where
  "is_symlink p = gets (\<lambda>s. path_is_symlink (fsys s) p)"

definition set_fs :: "fs \<Rightarrow> unit io" where
  "set_fs fs = modify (\<lambda>s. s\<lparr>fsys := fs\<rparr>)"

subsection \<open>Operations on files\<close>

definition read_text :: "path \<Rightarrow> string io" where
  "read_text p = bind (gets fsys) (\<lambda>fs.
     case stat fs p of
       None \<Rightarrow> raise (OSErr (missing_errno fs p) p)
     | Some (FileN t) \<Rightarrow> ret (universal_newlines t)
     | Some (BinN t) \<Rightarrow> raise (UnicodeDecodeErr p)
     | Some DirN \<Rightarrow> raise (OSErr EISDIR p)
     | Some _ \<Rightarrow> raise (OSErr EOTHER p))"

text \<open>The directory that holds the real path of a file must exist for the file to be created.\<close>

definition store :: "path \<Rightarrow> node \<Rightarrow> unit io" where
  "store p n = bind (gets fsys) (\<lambda>fs.
     case realpath fs p of
       None \<Rightarrow> raise (OSErr ELOOP p)
     | Some r \<Rightarrow>
         (case map_of fs r of
            Some DirN \<Rightarrow> raise (OSErr EISDIR p)
          | Some OtherN \<Rightarrow> raise (OSErr EOTHER p)
          | Some (LinkN t) \<Rightarrow> raise (OSErr ELOOP p)
          | Some _ \<Rightarrow> set_fs (AList.update r n fs)
          | None \<Rightarrow>
              if r \<noteq> [] \<and> map_of fs (butlast r) = Some DirN then set_fs (AList.update r n fs)
              else raise (OSErr (missing_errno fs p) p)))"

definition write_text :: "path \<Rightarrow> string \<Rightarrow> unit io" where
  "write_text p t = store p (FileN t)"

definition os_mkdir :: "path \<Rightarrow> unit io" where
  "os_mkdir p = bind (gets fsys) (\<lambda>fs.
     case entry fs p of
       None \<Rightarrow> raise (OSErr ELOOP p)
     | Some r \<Rightarrow>
         if map_of fs r \<noteq> None then raise (OSErr EEXIST p)
         else if r \<noteq> [] \<and> map_of fs (butlast r) = Some DirN then set_fs (AList.update r DirN fs)
         else raise (OSErr (missing_errno fs (butlast p)) p))"

text \<open>Exception handlers: \<open>catch m h\<close> runs \<open>h\<close> on the exception of \<open>m\<close>, in the state that \<open>m\<close> left.\<close>

definition catch :: "'a io \<Rightarrow> (exn \<Rightarrow> 'a io) \<Rightarrow> 'a io" where
  "catch m h s = (case m s of (Inl e, s') \<Rightarrow> h e s' | (Inr x, s') \<Rightarrow> (Inr x, s'))"

text \<open>\<^verbatim>\<open>path.mkdir(parents=True, exist_ok=True)\<close> and the inner call with \<^verbatim>\<open>parents=False\<close>.\<close>

definition mkdir_exist_ok :: "path \<Rightarrow> unit io" where
  "mkdir_exist_ok p = catch (os_mkdir p) (\<lambda>e.
     if e = OSErr ENOENT p then raise e
     else bind (is_dir p) (\<lambda>d. if d then ret () else raise e))"

function mkdir_parents :: "path \<Rightarrow> unit io" where
  "mkdir_parents p = catch (os_mkdir p) (\<lambda>e.
     if e = OSErr ENOENT p then
       (if p = [] then raise e
        else bind (mkdir_parents (butlast p)) (\<lambda>_. mkdir_exist_ok p))
     else bind (is_dir p) (\<lambda>d. if d then ret () else raise e))"
  by pat_completeness auto
termination
  by (relation "measure length") auto

declare mkdir_parents.simps [simp del]

definition unlink :: "path \<Rightarrow> unit io" where
  "unlink p = bind (gets fsys) (\<lambda>fs.
     case entry fs p of
       None \<Rightarrow> raise (OSErr ELOOP p)
     | Some r \<Rightarrow>
         (case map_of fs r of
            None \<Rightarrow> raise (OSErr (missing_errno fs p) p)
          | Some DirN \<Rightarrow> raise (OSErr EISDIR p)
          | Some _ \<Rightarrow> set_fs (AList.delete r fs)))"

definition dir_empty :: "fs \<Rightarrow> path \<Rightarrow> bool" where
  "dir_empty fs r \<longleftrightarrow> list_all (\<lambda>e. fst e = [] \<or> butlast (fst e) \<noteq> r) fs"

definition rmdir :: "path \<Rightarrow> unit io" where
  "rmdir p = bind (gets fsys) (\<lambda>fs.
     case entry fs p of
       None \<Rightarrow> raise (OSErr ELOOP p)
     | Some r \<Rightarrow>
         (case map_of fs r of
            None \<Rightarrow> raise (OSErr (missing_errno fs p) p)
          | Some DirN \<Rightarrow>
              if dir_empty fs r then set_fs (AList.delete r fs) else raise (OSErr ENOTEMPTY p)
          | Some _ \<Rightarrow> raise (OSErr ENOTDIR p)))"

end
