(* ===== verification/Transaction.thy ===== *)
theory Transaction
  imports Py_FS
begin

text \<open>
  \<^verbatim>\<open>InstallTransaction\<close> and the primitives through which every other part of the installer
  touches the file system: \<^verbatim>\<open>read\<close>, \<^verbatim>\<open>write\<close> and \<^verbatim>\<open>remove_file\<close>. The module globals
  \<^verbatim>\<open>_ACTIVE_TRANSACTION\<close> and \<^verbatim>\<open>_VALIDATION_ONLY\<close> are fields of the state.
\<close>

subsection \<open>Recording\<close>

definition path_parent :: "path \<Rightarrow> path" where
  "path_parent p = butlast p"

text \<open>
  The loop of \<^verbatim>\<open>_record_missing_directories\<close>: the directories it adds, also when it raises, since
  they stay in the set.
\<close>

function missing_chain :: "fs \<Rightarrow> path \<Rightarrow> path list \<Rightarrow> unit res \<times> path list" where
  "missing_chain fs cursor missing =
     (if path_exists fs cursor then
        (if path_is_dir fs cursor then (Inr (), missing)
         else (Inl (InstallError (''installer target parent is not a directory: '' @ str_path cursor)),
               missing))
      else if path_is_symlink fs cursor then
        (Inl (InstallError (''refusing broken symlink in installer target: '' @ str_path cursor)), missing)
      else
        let missing' = (if cursor \<in> set missing then missing else missing @ [cursor])
        in if cursor = [] then (Inr (), missing') else missing_chain fs (path_parent cursor) missing')"
  by pat_completeness auto
termination
  by (relation "measure (\<lambda>(fs, cursor, missing). length cursor)") (auto simp: path_parent_def)

declare missing_chain.simps [simp del]

definition set_txn :: "txn \<Rightarrow> unit io" where
  "set_txn t = modify (\<lambda>s. s\<lparr>active_transaction := Some t\<rparr>)"

definition record_missing_directories :: "txn \<Rightarrow> path \<Rightarrow> txn io" where
  "record_missing_directories t p = bind (gets fsys) (\<lambda>fs.
     case missing_chain fs p (missing_directories t) of
       (r, missing) \<Rightarrow>
         let t' = t\<lparr>missing_directories := missing\<rparr>
         in bind (set_txn t') (\<lambda>_. bind (lift r) (\<lambda>_. ret t')))"

text \<open>The recording methods do nothing when there is no active transaction: that is the guard
  \<^verbatim>\<open>if _ACTIVE_TRANSACTION is not None\<close> at each of their calls.\<close>

definition record_directory :: "path \<Rightarrow> unit io" where
  "record_directory p = bind (gets active_transaction) (\<lambda>at.
     case at of
       None \<Rightarrow> ret ()
     | Some t \<Rightarrow>
         bind (is_symlink p) (\<lambda>link.
         if link then raise (InstallError (''refusing symlink installer directory target: '' @ str_path p))
         else bind (exists_p p) (\<lambda>ex.
         if ex then
           bind (is_dir p) (\<lambda>d.
           if d then ret ()
           else raise (InstallError (''installer directory target is not a directory: '' @ str_path p)))
         else bind (record_missing_directories t p) (\<lambda>_. ret ()))))"

text \<open>The end of \<^verbatim>\<open>record_file\<close>: keep a copy of an existing file, or remember that there was none.\<close>

definition back_up_file :: "txn \<Rightarrow> path \<Rightarrow> unit io" where
  "back_up_file t p = bind (gets fsys) (\<lambda>fs.
     if path_exists fs p then
       (if \<not> path_is_file fs p then
          raise (InstallError (''installer file target is not a regular file: '' @ str_path p))
        else set_txn (t\<lparr>files := files t @ [(p, stat fs p)]\<rparr>))
     else set_txn (t\<lparr>files := files t @ [(p, None)]\<rparr>))"

definition record_file :: "path \<Rightarrow> unit io" where
  "record_file p = bind (gets active_transaction) (\<lambda>at.
     case at of
       None \<Rightarrow> ret ()
     | Some t \<Rightarrow>
         if p \<in> set (map fst (files t)) then ret ()
         else bind (is_symlink p) (\<lambda>link.
         if link then raise (InstallError (''refusing symlink installer file target: '' @ str_path p))
         else bind (record_missing_directories t (path_parent p)) (\<lambda>t'. back_up_file t' p)))"

subsection \<open>Rolling back\<close>

definition errno_text :: "errno \<Rightarrow> string" where
  "errno_text e = (case e of
     ENOENT \<Rightarrow> ''[Errno 2] No such file or directory''
   | ENOTDIR \<Rightarrow> ''[Errno 20] Not a directory''
   | EISDIR \<Rightarrow> ''[Errno 21] Is a directory''
   | EEXIST \<Rightarrow> ''[Errno 17] File exists''
   | ENOTEMPTY \<Rightarrow> ''[Errno 39] Directory not empty''
   | ELOOP \<Rightarrow> ''[Errno 40] Too many levels of symbolic links''
   | EOTHER \<Rightarrow> ''[Errno 5] Input/output error'')"

definition oserror_text :: "exn \<Rightarrow> string option" where
  "oserror_text e = (case e of
     OSErr n p \<Rightarrow> Some (errno_text n @ '': '' @ py_repr (str_path p))
   | OSMsg m \<Rightarrow> Some m
   | _ \<Rightarrow> None)"

text \<open>Run one step of the rollback; an \<^verbatim>\<open>OSError\<close> becomes an entry of the list of failures.\<close>

definition attempt :: "path \<Rightarrow> unit io \<Rightarrow> string list io" where
  "attempt p m = catch (bind m (\<lambda>_. ret [])) (\<lambda>e.
     case oserror_text e of
       Some t \<Rightarrow> ret [str_path p @ '': '' @ t]
     | None \<Rightarrow> raise e)"

definition restore_file :: "path \<Rightarrow> node option \<Rightarrow> unit io" where
  "restore_file p backup = bind (gets fsys) (\<lambda>fs.
     case backup of
       None \<Rightarrow>
         if path_is_symlink fs p \<or> path_is_file fs p then unlink p
         else if path_exists fs p then raise (OSMsg ''new installer file was replaced by a directory'')
         else ret ()
     | Some n \<Rightarrow>
         bind (if path_is_symlink fs p then unlink p
               else raise_when (path_exists fs p \<and> \<not> path_is_file fs p)
                 (OSMsg ''installer file was replaced by a directory'')) (\<lambda>_.
         bind (mkdir_parents (path_parent p)) (\<lambda>_.
         store p n)))"

definition remove_directory :: "path \<Rightarrow> unit io" where
  "remove_directory p = catch (rmdir p) (\<lambda>e. if e = OSErr ENOENT p then ret () else raise e)"

definition rollback :: "txn \<Rightarrow> unit io" where
  "rollback t =
     bind (mapM (\<lambda>(p, backup). attempt p (restore_file p backup)) (rev (files t))) (\<lambda>fs1.
     bind (mapM (\<lambda>p. attempt p (remove_directory p))
       (rev (sort_key length (rev (missing_directories t))))) (\<lambda>fs2.
     let failures = concat fs1 @ concat fs2
     in raise_when (failures \<noteq> [])
          (InstallError (''installation rollback failed: '' @ py_join ''; '' failures))))"

definition end_transaction :: "unit io" where
  "end_transaction = modify (\<lambda>s. s\<lparr>active_transaction := None\<rparr>)"

text \<open>\<^verbatim>\<open>with InstallTransaction(): body\<close>.\<close>

definition transaction_enter :: "unit io" where
  "transaction_enter = bind (gets active_transaction) (\<lambda>at.
     if at \<noteq> None then raise (InstallError ''nested installer transaction is unsupported'')
     else set_txn empty_txn)"

definition transaction_exit :: "exn option \<Rightarrow> unit io" where
  "transaction_exit exc = (case exc of
     None \<Rightarrow> end_transaction
   | Some e \<Rightarrow>
       bind (gets active_transaction) (\<lambda>at.
       let t = (case at of None \<Rightarrow> empty_txn | Some t \<Rightarrow> t)
       in bind (catch (rollback t) (\<lambda>rollback_error. bind end_transaction (\<lambda>_. raise rollback_error))) (\<lambda>_.
          bind (whenM (files t \<noteq> [] \<or> missing_directories t \<noteq> [])
            (complain ''ABK KSU Sandbox: installation rolled back'')) (\<lambda>_.
          bind end_transaction (\<lambda>_. raise e)))))"

definition with_transaction :: "unit io \<Rightarrow> unit io" where
  "with_transaction body = bind transaction_enter (\<lambda>_.
     bind (catch body (\<lambda>e. transaction_exit (Some e))) (\<lambda>_. transaction_exit None))"

subsection \<open>Reading, writing and removing\<close>

definition read :: "path \<Rightarrow> string io" where
  "read p = catch (read_text p) (\<lambda>e.
     if e = OSErr ENOENT p then raise (InstallError (''required file not found: '' @ str_path p))
     else raise e)"

definition write_file :: "path \<Rightarrow> string \<Rightarrow> unit io" where
  "write_file p text =
     bind (exists_p p) (\<lambda>ex.
     bind (if ex then bind (read_text p) (\<lambda>t. ret (Some t)) else ret None) (\<lambda>old.
     if old = Some text then ret ()
     else bind (gets validation_only) (\<lambda>v.
     if v then raise (InstallError
       (''incomplete sandbox injection: validation would update '' @ str_path p))
     else
       bind (record_file p) (\<lambda>_.
       bind (mkdir_parents (path_parent p)) (\<lambda>_.
       bind (write_text p text) (\<lambda>_.
       say (''ABK KSU Sandbox: updated '' @ str_path p)))))))"

definition remove_file :: "path \<Rightarrow> string \<Rightarrow> unit io" where
  "remove_file p description =
     bind (exists_p p) (\<lambda>ex.
     if \<not> ex then ret ()
     else bind (is_symlink p) (\<lambda>link.
     bind (is_file p) (\<lambda>regular.
     if link \<or> \<not> regular then
       raise (InstallError (''refusing non-regular installer removal target: '' @ str_path p))
     else
       bind (record_file p) (\<lambda>_.
       bind (unlink p) (\<lambda>_.
       say (''ABK KSU Sandbox: removed '' @ description @ '' '' @ str_path p))))))"

end
