(* ===== verification/Kbuild.thy ===== *)
theory Kbuild
  imports Py_Regex Transaction
begin

text \<open>
  The Kbuild and Kconfig blocks that the installer owns: rendering them, recognising them in an
  existing file, and appending, upgrading or inserting them.
\<close>

definition SUPPORTED_KERNELS :: "string list" where
  "SUPPORTED_KERNELS = [''5.10'', ''5.15'', ''6.1'', ''6.6'', ''6.12'']"

definition MARKER :: string where
  "MARKER = ''ABK_KSU_SANDBOX_V1''"

definition KBUILD_BLOCK_LEGACY :: string where
  "KBUILD_BLOCK_LEGACY =
     ''\<newline>'' @
     ''\<newline>'' @
     ''# '' @ MARKER @ ''\<newline>'' @
     ''ifneq ($(CONFIG_KSU_ABK_SANDBOX),y)\<newline>'' @
     ''$(error ABK KSU Sandbox requires CONFIG_KSU_ABK_SANDBOX=y; run both ABK stages)\<newline>'' @
     ''endif\<newline>'' @
     ''kernelsu-objs += abk_sandbox/core.o\<newline>'' @
     ''kernelsu-objs += abk_sandbox/policy.o\<newline>'' @
     ''kernelsu-objs += abk_sandbox/namespace.o\<newline>'' @
     ''kernelsu-objs += abk_sandbox/lsm.o\<newline>''"

definition KCONFIG_BLOCK :: string where
  \<open>KCONFIG_BLOCK =
     ''\<newline>'' @
     ''\<newline>'' @
     ''# '' @ MARKER @ ''\<newline>'' @
     ''config KSU_ABK_SANDBOX\<newline>'' @
     ''    bool "ABK per-app KernelSU sandbox"\<newline>'' @
     ''    depends on KSU=y && SECURITY_SELINUX && NAMESPACES\<newline>'' @
     ''    default n\<newline>'' @
     ''    help\<newline>'' @
     ''      Put authorized untrusted-app su sessions in per-app SELinux and\<newline>'' @
     ''      mount namespaces. Unsupported or incomplete initialization fails closed.\<newline>''\<close>

definition RUNTIME_KSU_TAIL_NEVER :: string where
  "RUNTIME_KSU_TAIL_NEVER = ''never''"

definition RUNTIME_KSU_TAIL_RESUKISU_SUSFS :: string where
  "RUNTIME_KSU_TAIL_RESUKISU_SUSFS = ''resukisu-susfs''"

definition render_kbuild_block :: "string \<Rightarrow> string" where
  "render_kbuild_block tail_flags =
     ''\<newline>'' @
     ''\<newline>'' @
     ''# '' @ MARKER @ ''\<newline>'' @
     ''ifneq ($(CONFIG_KSU_ABK_SANDBOX),y)\<newline>'' @
     ''$(error ABK KSU Sandbox requires CONFIG_KSU_ABK_SANDBOX=y; run both ABK stages)\<newline>'' @
     ''endif\<newline>'' @
     tail_flags @
     ''\<newline>'' @
     ''kernelsu-objs += abk_sandbox/core.o\<newline>'' @
     ''kernelsu-objs += abk_sandbox/policy.o\<newline>'' @
     ''kernelsu-objs += abk_sandbox/namespace.o\<newline>'' @
     ''kernelsu-objs += abk_sandbox/lsm.o\<newline>''"

text \<open>The guards against the manual hook modes, which the current and the intermediate ReSukiSU
  blocks share word for word.\<close>

definition manual_hook_guards :: string where
  "manual_hook_guards =
     ''ifeq ($(CONFIG_KSU_MANUAL_HOOK),y)\<newline>'' @
     ''$(error ABK KSU Sandbox does not support ReSukiSU manual hook mode)\<newline>'' @
     ''endif\<newline>'' @
     ''ifeq ($(CONFIG_KSU_MANUAL_HOOK_AUTO_SETUID_HOOK),y)\<newline>'' @
     ''$(error ABK KSU Sandbox does not support ReSukiSU manual setuid LSM hooks)\<newline>'' @
     ''endif\<newline>'' @
     ''ifeq ($(CONFIG_KSU_MANUAL_HOOK_AUTO_INITRC_HOOK),y)\<newline>'' @
     ''$(error ABK KSU Sandbox does not support ReSukiSU manual initrc LSM hooks)\<newline>'' @
     ''endif\<newline>''"

definition kbuild_block :: "string \<Rightarrow> string res" where
  "kbuild_block runtime_ksu_tail_policy =
     (if runtime_ksu_tail_policy = RUNTIME_KSU_TAIL_NEVER then
        Inr (render_kbuild_block ''subdir-ccflags-y += -DABK_KSU_RUNTIME_TAIL_SOURCE_VERIFIED=0'')
      else if runtime_ksu_tail_policy = RUNTIME_KSU_TAIL_RESUKISU_SUSFS then
        Inr (render_kbuild_block (manual_hook_guards @
          ''subdir-ccflags-y += -DABK_KSU_RUNTIME_TAIL_SOURCE_VERIFIED=1''))
      else Inl (InstallError (''unknown runtime KSU LSM-tail policy: '' @ runtime_ksu_tail_policy)))"

definition intermediate_kbuild_blocks :: "string list" where
  "intermediate_kbuild_blocks =
     [render_kbuild_block ''CFLAGS_abk_sandbox/lsm.o += -DABK_KSU_ALLOW_RUNTIME_KSU_TAIL=0'',
      render_kbuild_block (manual_hook_guards @
     ''ifeq ($(CONFIG_KSU_TRACEPOINT_HOOK),y)\<newline>'' @
     ''CFLAGS_abk_sandbox/lsm.o += -DABK_KSU_ALLOW_RUNTIME_KSU_TAIL=0\<newline>'' @
     ''else ifeq ($(CONFIG_KSU_SUSFS),y)\<newline>'' @
     ''CFLAGS_abk_sandbox/lsm.o += -DABK_KSU_ALLOW_RUNTIME_KSU_TAIL=1\<newline>'' @
     ''else\<newline>'' @
     ''CFLAGS_abk_sandbox/lsm.o += -DABK_KSU_ALLOW_RUNTIME_KSU_TAIL=0\<newline>'' @
     ''endif'')]"

definition owned_kbuild_blocks :: "string list res" where
  "owned_kbuild_blocks =
     rbind (kbuild_block RUNTIME_KSU_TAIL_NEVER) (\<lambda>never.
     rbind (kbuild_block RUNTIME_KSU_TAIL_RESUKISU_SUSFS) (\<lambda>resukisu.
       Inr (py_fromkeys ([py_strip KBUILD_BLOCK_LEGACY, py_strip never, py_strip resukisu]
         @ map py_strip intermediate_kbuild_blocks))))"

subsection \<open>Conditional nesting\<close>

text \<open>\<^verbatim>\<open>(?m)^[ \t]*override(?:[ \t]|$).*$\<close>\<close>

definition override_pattern :: regex where
  "override_pattern = rseq [RBol, RStar rblank, RLit ''override'', RAlt rblank REol, RStar rdot, REol]"

definition validate_kbuild_directives :: "path \<Rightarrow> string \<Rightarrow> unit res" where
  "validate_kbuild_directives path text =
     raise_if (re_finditer override_pattern text \<noteq> [])
       (InstallError (''unsupported override directive in '' @ str_path path))"

text \<open>The loop that the two depth functions share: blank lines and comment lines are skipped, an
  opening line is counted, and a closing line must have something to close.\<close>

fun depth_loop :: "(string \<Rightarrow> bool) \<Rightarrow> (string \<Rightarrow> bool) \<Rightarrow> exn \<Rightarrow> int \<Rightarrow> string list \<Rightarrow> int res" where
  "depth_loop opens closes unbalanced depth [] = Inr depth"
| "depth_loop opens closes unbalanced depth (line # lines) =
     (let stripped = py_strip line
      in if stripped = [] \<or> prefix ''#'' stripped then depth_loop opens closes unbalanced depth lines
         else if opens stripped then depth_loop opens closes unbalanced (depth + 1) lines
         else if closes stripped then
           (if depth - 1 < 0 then Inl unbalanced
            else depth_loop opens closes unbalanced (depth - 1) lines)
         else depth_loop opens closes unbalanced depth lines)"

definition make_opens :: "string \<Rightarrow> bool" where
  "make_opens stripped \<longleftrightarrow> re_match (rseq [RBol,
     ralt (map RLit [''ifeq'', ''ifneq'', ''ifdef'', ''ifndef'']), RBnd]) stripped \<noteq> None"

definition make_closes :: "string \<Rightarrow> bool" where
  "make_closes stripped \<longleftrightarrow> re_match (rseq [RBol, RLit ''endif'', RBnd]) stripped \<noteq> None"

definition kconfig_opens :: "string \<Rightarrow> bool" where
  "kconfig_opens stripped \<longleftrightarrow>
     re_match (rseq [RBol, RLit ''if'', RAlt rspace REnd]) stripped \<noteq> None"

definition kconfig_closes :: "string \<Rightarrow> bool" where
  "kconfig_closes stripped \<longleftrightarrow>
     re_match (rseq [RBol, RLit ''endif'', RAlt rspace REnd]) stripped \<noteq> None"

definition make_conditional_depth :: "path \<Rightarrow> string \<Rightarrow> nat \<Rightarrow> int res" where
  "make_conditional_depth path text boundary =
     rbind (depth_loop make_opens make_closes
         (InstallError (''unbalanced Make conditional in '' @ str_path path))
         0 (py_splitlines (take boundary text))) (\<lambda>depth.
       if depth \<noteq> 0 then
         Inl (InstallError (''ABK Kbuild block is nested in a conditional in '' @ str_path path))
       else Inr depth)"

definition kconfig_condition_depth :: "path \<Rightarrow> string \<Rightarrow> nat \<Rightarrow> int res" where
  "kconfig_condition_depth path text boundary =
     rbind (depth_loop kconfig_opens kconfig_closes
         (InstallError (''unbalanced Kconfig conditional in '' @ str_path path))
         0 (py_splitlines (take boundary text))) (\<lambda>depth.
       if depth \<noteq> 0 then
         Inl (InstallError (''ABK Kconfig block is nested in a conditional in '' @ str_path path))
       else Inr depth)"

subsection \<open>Recognising an installed block\<close>

definition kbuild_conflict :: "path \<Rightarrow> exn" where
  "kbuild_conflict path =
     InstallError (''conflicting or partial ABK Kbuild injection in '' @ str_path path)"

definition installed_kbuild_block :: "path \<Rightarrow> string \<Rightarrow> string res" where
  "installed_kbuild_block path text =
     rbind (validate_kbuild_directives path text) (\<lambda>_.
     let marker_count = py_count MARKER text
     in if marker_count = 0 then
          Inl (InstallError (''incomplete sandbox injection: ABK Kbuild block missing in '' @ str_path path))
        else if marker_count \<noteq> 1 then Inl (kbuild_conflict path)
        else rbind owned_kbuild_blocks (\<lambda>owned.
          case concat (map (\<lambda>candidate. replicate (py_count candidate text) candidate) owned) of
            [installed] \<Rightarrow>
              rbind (py_index text installed) (\<lambda>start.
              rbind (make_conditional_depth path text start) (\<lambda>_.
              if py_strip (drop (start + length installed) text) \<noteq> [] then Inl (kbuild_conflict path)
              else if list_ex (\<lambda>token. py_count token text \<noteq> py_count token installed)
                  [''ABK_KSU_RUNTIME_TAIL_SOURCE_VERIFIED'', ''ABK_KSU_ALLOW_RUNTIME_KSU_TAIL'']
              then Inl (kbuild_conflict path)
              else Inr installed))
          | _ \<Rightarrow> Inl (kbuild_conflict path)))"

text \<open>\<^verbatim>\<open>(?m)^[ \t]*(?:menuconfig|config)[ \t]+KSU_ABK_SANDBOX\b\<close>\<close>

definition kconfig_definition_pattern :: regex where
  "kconfig_definition_pattern = rseq [RBol, RStar rblank, RAlt (RLit ''menuconfig'') (RLit ''config''),
     rplus rblank, RLit ''KSU_ABK_SANDBOX'', RBnd]"

text \<open>\<^verbatim>\<open>^[ \t\r\n]*endmenu(?:\s|$)\<close>\<close>

definition endmenu_pattern :: regex where
  "endmenu_pattern = rseq [RBol, RStar (rchars [SP, HT, CR, LF]), RLit ''endmenu'', RAlt rspace REnd]"

definition kconfig_conflict :: "path \<Rightarrow> exn" where
  "kconfig_conflict path =
     InstallError (''conflicting or partial ABK Kconfig injection in '' @ str_path path)"

definition installed_kconfig_block :: "path \<Rightarrow> string \<Rightarrow> string res" where
  "installed_kconfig_block path text =
     (let desired = py_strip KCONFIG_BLOCK;
          definitions = re_finditer kconfig_definition_pattern text
      in if py_count MARKER text \<noteq> 1 \<or> length definitions \<noteq> 1 \<or> py_count desired text \<noteq> 1
         then Inl (kconfig_conflict path)
         else rbind (py_index text desired) (\<lambda>start.
              rbind (kconfig_condition_depth path text start) (\<lambda>_.
              if re_match endmenu_pattern (drop (start + length desired) text) = None
              then Inl (kconfig_conflict path)
              else Inr desired)))"

subsection \<open>Installing the blocks\<close>

definition install_kbuild :: "path \<Rightarrow> string \<Rightarrow> unit io" where
  "install_kbuild path block =
     bind (read path) (\<lambda>text.
     bind (lift (validate_kbuild_directives path text)) (\<lambda>_.
     let desired = py_strip block
     in if \<not> py_in MARKER text then
          write_file path (py_rstrip text @ [LF] @ py_lstrip_char LF block)
        else bind (lift (installed_kbuild_block path text)) (\<lambda>installed.
          if installed = desired then ret ()
          else write_file path (py_replace1 text installed desired))))"

text \<open>\<^verbatim>\<open>(?m)^[ \t]*{re.escape(needle)}[ \t]*(?:#.*)?$\<close>\<close>

definition needle_pattern :: "string \<Rightarrow> regex" where
  "needle_pattern needle = rseq [RBol, RStar rblank, RLit needle, RStar rblank,
     ropt (RSeq (RLit ''#'') (RStar rdot)), REol]"

definition insert_before_last :: "path \<Rightarrow> string \<Rightarrow> string \<Rightarrow> unit io" where
  "insert_before_last path needle block =
     bind (read path) (\<lambda>text.
     if py_in MARKER text \<or> re_search kconfig_definition_pattern text \<noteq> None then
       bind (lift (installed_kconfig_block path text)) (\<lambda>_. ret ())
     else
       let anchors = re_finditer (needle_pattern needle) text
       in if anchors = [] then
            raise (InstallError (''injection anchor '' @ py_repr needle @ '' not found in '' @ str_path path))
          else
            let index = fst (last anchors)
            in bind (lift (kconfig_condition_depth path text index)) (\<lambda>_.
               write_file path (take index text @ block @ [LF] @ drop index text)))"

end
