(* ===== verification/Discover.thy ===== *)
theory Discover
  imports Kbuild C_Mask
begin

text \<open>
  Finding out what is being patched: the kernel tree and its version, the KernelSU source tree
  and its variant, and the state of configuration symbols in a defconfig.
\<close>

record layout =
  kernel_root :: path
  common :: path
  ksu :: path
  variant :: string
  version :: string

definition kernel_common :: "path \<Rightarrow> path io" where
  "kernel_common root =
     (let common_dir = root @ [''common'']
      in bind (is_file (common_dir @ [''Makefile''])) (\<lambda>in_common.
         if in_common then ret common_dir
         else bind (is_file (root @ [''Makefile''])) (\<lambda>in_root.
           if in_root then ret root
           else raise (InstallError (''kernel Makefile not found below '' @ str_path root)))))"

text \<open>\<^verbatim>\<open>(?m)^{key}\s*=\s*(\d+)\s*$\<close>\<close>

definition makefile_key_pattern :: "string \<Rightarrow> regex" where
  "makefile_key_pattern key = rseq [RBol, RLit key, RStar rspace, RLit ''='', RStar rspace,
     RGrp 1 (rplus rdigit), RStar rspace, REol]"

definition makefile_value :: "path \<Rightarrow> string \<Rightarrow> string \<Rightarrow> string res" where
  "makefile_value common_dir makefile key =
     (case re_search (makefile_key_pattern key) makefile of
        None \<Rightarrow> Inl (InstallError (''cannot read '' @ key @ '' from ''
          @ str_path (common_dir @ [''Makefile''])))
      | Some g \<Rightarrow> Inr (group 1 g))"

definition kernel_version :: "path \<Rightarrow> string io" where
  "kernel_version common_dir =
     bind (read (common_dir @ [''Makefile''])) (\<lambda>makefile.
     bind (lift (makefile_value common_dir makefile ''VERSION'')) (\<lambda>major.
     bind (lift (makefile_value common_dir makefile ''PATCHLEVEL'')) (\<lambda>minor.
     let ver = major @ ''.'' @ minor
     in if ver \<notin> set SUPPORTED_KERNELS then
          raise (InstallError (''unsupported kernel line '' @ ver @ ''; expected one of ''
            @ py_join '', '' (sort SUPPORTED_KERNELS)))
        else ret ver)))"

definition is_ksu_tree :: "fs \<Rightarrow> path \<Rightarrow> bool" where
  "is_ksu_tree fs candidate \<longleftrightarrow>
     path_is_file fs (candidate @ [''Kbuild'']) \<and>
     path_is_file fs (path_join candidate ''policy/app_profile.c'') \<and>
     path_is_file fs (path_join candidate ''selinux/sepolicy.c'')"

fun collect_candidates :: "fs \<Rightarrow> path list \<Rightarrow> path list \<Rightarrow> path list" where
  "collect_candidates fs seen [] = []"
| "collect_candidates fs seen (candidate # rest) =
     (if \<not> is_ksu_tree fs candidate then collect_candidates fs seen rest
      else
        let resolved = path_resolve fs candidate
        in if resolved \<in> set seen then collect_candidates fs seen rest
           else candidate # collect_candidates fs (resolved # seen) rest)"

definition ksu_candidates :: "fs \<Rightarrow> path \<Rightarrow> path \<Rightarrow> path list" where
  "ksu_candidates fs root common_dir =
     collect_candidates fs []
       [path_join common_dir ''drivers/kernelsu'', path_join root ''drivers/kernelsu'',
        path_join root ''KernelSU/kernel'', root @ [''kernel'']]"

definition classify_variant :: "path \<Rightarrow> string \<Rightarrow> string res" where
  "classify_variant ksu_dir corpus =
     (if py_in ''ReSukiSU'' corpus \<or> py_in ''REPO_NAME := ReSukiSU'' corpus then Inr ''resukisu''
      else if py_in ''SukiSU'' corpus \<or> py_in ''SUSFS'' corpus then Inr ''sukisu''
      else if py_in ''escape_with_root_profile'' corpus \<and> py_in ''kernelsu-objs'' corpus
        then Inr ''official''
      else Inl (InstallError (''unrecognized KernelSU source shape: '' @ str_path ksu_dir)))"

definition detect_variant :: "path \<Rightarrow> string io" where
  "detect_variant ksu_dir =
     bind (mapM read [ksu_dir @ [''Kbuild''], ksu_dir @ [''Kconfig''],
        path_join ksu_dir ''policy/app_profile.c'']) (\<lambda>texts.
     lift (classify_variant ksu_dir (py_join [LF] texts)))"

definition discover :: "path \<Rightarrow> layout io" where
  "discover root =
     bind (kernel_common root) (\<lambda>common_dir.
     bind (gets work_mode) (\<lambda>mode.
     if py_lower mode = ''lkm'' then
       raise (InstallError ''KernelSU LKM mode is unsupported; ABK KSU Sandbox requires built-in KSU'')
     else bind (gets (\<lambda>s. ksu_candidates (fsys s) root common_dir)) (\<lambda>candidates.
     case candidates of
       [ksu_dir] \<Rightarrow>
         bind (detect_variant ksu_dir) (\<lambda>variant_name.
         bind (kernel_version common_dir) (\<lambda>ver.
         ret \<lparr>kernel_root = root, common = common_dir, ksu = ksu_dir,
              variant = variant_name, version = ver\<rparr>))
     | _ \<Rightarrow>
         let rendered = (if candidates = [] then ''none'' else py_join '', '' (map str_path candidates))
         in raise (InstallError
              (''expected exactly one built-in KernelSU source tree, found: '' @ rendered)))))"

subsection \<open>Configuration symbols\<close>

text \<open>\<^verbatim>\<open>(?m)^(?:CONFIG_{symbol}=([^\n]+)|# CONFIG_{symbol} is not set)$\<close>\<close>

definition config_pattern :: "string \<Rightarrow> regex" where
  "config_pattern symbol = rseq [RBol,
     RAlt (RSeq (RLit (''CONFIG_'' @ symbol @ ''='')) (RGrp 1 (rplus rdot)))
          (RLit (''# CONFIG_'' @ symbol @ '' is not set'')), REol]"

definition config_value :: "string \<Rightarrow> string \<Rightarrow> string option res" where
  "config_value text symbol =
     (case re_finditer (config_pattern symbol) text of
        [] \<Rightarrow> Inr None
      | [(i, j, g)] \<Rightarrow> Inr (Some (if group 1 g = [] then ''n'' else group 1 g))
      | _ \<Rightarrow> Inl (InstallError (''defconfig contains duplicate CONFIG_'' @ symbol @ '' entries'')))"

definition config_state :: "path \<Rightarrow> string \<Rightarrow> string option io" where
  "config_state defconfig symbol = bind (read defconfig) (\<lambda>text. lift (config_value text symbol))"

text \<open>\<^verbatim>\<open>(?m)^CONFIG_LSM=.*$\<close> and \<^verbatim>\<open>CONFIG_LSM="([A-Za-z0-9_,.-]+)"\<close>\<close>

definition lsm_line_pattern :: regex where
  "lsm_line_pattern = rseq [RBol, RLit ''CONFIG_LSM='', RStar rdot, REol]"

definition is_lsm_char :: "char \<Rightarrow> bool" where
  "is_lsm_char c \<longleftrightarrow> (let n = of_char c :: nat in
     65 \<le> n \<and> n \<le> 90 \<or> 97 \<le> n \<and> n \<le> 122 \<or> 48 \<le> n \<and> n \<le> 57) \<or> c \<in> set ''_,.-''"

definition lsm_value_pattern :: regex where
  "lsm_value_pattern = rseq [RLit (''CONFIG_LSM='' @ [DQ]), RGrp 1 (rplus (RCls is_lsm_char)), RLit [DQ]]"

definition validate_lsm_list :: "string list \<Rightarrow> unit res" where
  "validate_lsm_list lsms =
     (if list_ex (\<lambda>lsm. lsm = []) lsms then Inl (InstallError ''CONFIG_LSM must not contain empty entries'')
      else if \<not> distinct lsms then Inl (InstallError ''CONFIG_LSM must not contain duplicate entries'')
      else if ''selinux'' \<notin> set lsms then Inl (InstallError ''CONFIG_LSM must include selinux'')
      else if count_list lsms ''abk_ksu_sandbox'' \<noteq> 1 then
        Inl (InstallError ''CONFIG_LSM must include abk_ksu_sandbox exactly once'')
      else if last lsms \<noteq> ''abk_ksu_sandbox'' then
        Inl (InstallError ''abk_ksu_sandbox must be the last CONFIG_LSM entry'')
      else Inr ())"

definition validate_lsm :: "string \<Rightarrow> unit res" where
  "validate_lsm config =
     (case re_finditer lsm_line_pattern config of
        [(i, j, g)] \<Rightarrow>
          (case re_fullmatch lsm_value_pattern (take (j - i) (drop i config)) of
             None \<Rightarrow> Inl (InstallError ''CONFIG_LSM must be a quoted comma-separated list'')
           | Some h \<Rightarrow> validate_lsm_list (py_split (CHR '','') (group 1 h)))
      | _ \<Rightarrow> Inl (InstallError ''defconfig must contain exactly one quoted CONFIG_LSM assignment''))"

definition require_config :: "path \<Rightarrow> string \<times> string \<Rightarrow> unit io" where
  "require_config defconfig sm =
     bind (config_state defconfig (fst sm)) (\<lambda>state.
     raise_when (state \<noteq> Some ''y'') (InstallError (snd sm)))"

definition validate_defconfig :: "path \<Rightarrow> bool \<Rightarrow> unit io" where
  "validate_defconfig defconfig require_sandbox =
     bind (read defconfig) (\<lambda>config.
     bind (config_state defconfig ''KSU'') (\<lambda>ksu_state.
     if ksu_state = Some ''m'' then
       raise (InstallError ''CONFIG_KSU=m is unsupported; built-in CONFIG_KSU=y is required'')
     else
       bind (forM (require_config defconfig)
         [(''KSU'', ''built-in CONFIG_KSU=y is required''),
          (''SECURITY_SELINUX'', ''CONFIG_SECURITY_SELINUX=y is required''),
          (''NAMESPACES'', ''CONFIG_NAMESPACES=y is required'')]) (\<lambda>_.
       if \<not> require_sandbox then ret ()
       else
         bind (require_config defconfig
           (''KSU_ABK_SANDBOX'', ''CONFIG_KSU_ABK_SANDBOX=y is missing from defconfig'')) (\<lambda>_.
         lift (validate_lsm config)))))"

end
