(* ===== verification/Patches_Ksu.thy ===== *)
theory Patches_Ksu
  imports Injection Kbuild Discover
begin

text \<open>
  The patches to the KernelSU sources: one procedure per patched file or hook, in the order of
  \<^verbatim>\<open>scripts/install.py\<close>. Every procedure reads a file, checks whether its injection is already
  there in exactly the expected form, and otherwise edits the text and writes it back.
\<close>

definition sandbox_include :: string where
  \<open>sandbox_include = ''#include "abk_sandbox/abk_sandbox.h"''\<close>

subsection \<open>Entering the sandbox\<close>

definition escape_marker :: string where
  "escape_marker = MARKER @ '': escape''"

definition escape_signature :: string where
  \<open>escape_signature =
     ''int escape_with_root_profile(void)\<newline>'' @
     ''{''\<close>

definition escape_hook :: string where
  \<open>escape_hook =
     ''\<newline>'' @
     ''\<newline>'' @
     ''#ifdef CONFIG_KSU_ABK_SANDBOX\<newline>'' @
     ''    /* '' @ escape_marker @ '' */\<newline>'' @
     ''    {\<newline>'' @
     ''        bool handled = false;\<newline>'' @
     ''        int sandbox_ret = abk_sandbox_try_escape(&handled);\<newline>'' @
     ''\<newline>'' @
     ''        if (handled)\<newline>'' @
     ''            return sandbox_ret;\<newline>'' @
     ''    }\<newline>'' @
     ''#endif''\<close>

text \<open>The text level of \<^verbatim>\<open>patch_escape\<close>: \<open>None\<close> if nothing has to be written.\<close>

definition patch_escape_text :: "path \<Rightarrow> string \<Rightarrow> string option res" where
  "patch_escape_text path text =
     rbind (c_scope_containing path text escape_signature) (\<lambda>body.
     rbind (exact_injection_installed path text escape_marker [''{'' @ escape_hook]
       (no_checks\<lparr>scope := Some body,
          live_scope_counts := [(''abk_sandbox_try_escape'', 1)],
          live_global_counts := [(''abk_sandbox_try_escape'', 1)],
          code_global_counts := [(sandbox_include, 1)]\<rparr>)) (\<lambda>installed.
     if installed then Inr None
     else
       rbind (add_include text sandbox_include path) (\<lambda>text1.
       rbind (insert_live_scope_start path text1 escape_signature escape_hook
         ''escape_with_root_profile anchor not found'') (\<lambda>text2. Inr (Some text2)))))"

text \<open>Every single-write patch: read the file, edit its text, write the result if there is one.\<close>

definition edit_file :: "path \<Rightarrow> (string \<Rightarrow> string option res) \<Rightarrow> unit io" where
  "edit_file path edit =
     bind (read path) (\<lambda>text.
     bind (lift (edit text)) (\<lambda>result.
     case result of None \<Rightarrow> ret () | Some text' \<Rightarrow> write_file path text'))"

definition patch_escape :: "path \<Rightarrow> unit io" where
  "patch_escape ksu_dir =
     (let path = path_join ksu_dir ''policy/app_profile.c''
      in edit_file path (patch_escape_text path))"

subsection \<open>Refusing supercalls\<close>

definition supercall_marker :: string where
  "supercall_marker = MARKER @ '': deny sandbox supercalls''"

definition supercall_anchor :: string where
  \<open>supercall_anchor =
     ''long ksu_supercall_handle_ioctl(unsigned int cmd, void __user *argp)\<newline>'' @
     ''{\<newline>''\<close>

definition supercall_body_hook :: string where
  \<open>supercall_body_hook =
     ''#ifdef CONFIG_KSU_ABK_SANDBOX\<newline>'' @
     ''    /* '' @ supercall_marker @ '' */\<newline>'' @
     ''    if (abk_sandbox_current(NULL, NULL))\<newline>'' @
     ''        return -EPERM;\<newline>'' @
     ''#endif\<newline>''\<close>

definition patch_supercall_dispatch_text :: "path \<Rightarrow> string \<Rightarrow> string option res" where
  "patch_supercall_dispatch_text path text =
     (let signature = py_rstrip_char LF supercall_anchor
      in rbind (c_scope_containing path text signature) (\<lambda>body.
         rbind (exact_injection_installed path text supercall_marker [''{'' @ [LF] @ supercall_body_hook]
           (no_checks\<lparr>scope := Some body,
              global_counts := [(signature, 1)],
              live_scope_counts := [(''abk_sandbox_current'', 1)],
              live_global_counts := [(''abk_sandbox_current'', 1)],
              code_global_counts := [(sandbox_include, 1)]\<rparr>)) (\<lambda>installed.
         if installed then Inr None
         else
           rbind (add_include text sandbox_include path) (\<lambda>text1.
           rbind (insert_live_scope_start path text1 signature ([LF] @ supercall_body_hook)
             ''KernelSU supercall dispatch anchor not found'') (\<lambda>text2. Inr (Some text2))))))"

definition patch_supercall_dispatch :: "path \<Rightarrow> unit io" where
  "patch_supercall_dispatch ksu_dir =
     (let path = path_join ksu_dir ''supercall/dispatch.c''
      in edit_file path (patch_supercall_dispatch_text path))"

subsection \<open>Revoking on allowlist changes\<close>

definition revoke_marker :: string where
  "revoke_marker = MARKER @ '': revoke''"

definition prune_marker :: string where
  "prune_marker = MARKER @ '': prune''"

definition revoke_hook :: string where
  \<open>revoke_hook =
     ''#ifdef CONFIG_KSU_ABK_SANDBOX\<newline>'' @
     ''    /* '' @ revoke_marker @ '' */\<newline>'' @
     ''    if (!result && !profile->allow_su)\<newline>'' @
     ''        abk_sandbox_revoke_uid_async(profile->curr_uid);\<newline>'' @
     ''#endif\<newline>''\<close>

definition prune_hook :: string where
  \<open>prune_hook =
     ''#ifdef CONFIG_KSU_ABK_SANDBOX\<newline>'' @
     ''            /* '' @ prune_marker @ '' */\<newline>'' @
     ''            abk_sandbox_revoke_uid_async(uid);\<newline>'' @
     ''#endif\<newline>''\<close>

definition profile_scope_anchor :: string where
  "profile_scope_anchor = ''int ksu_set_app_profile(struct app_profile *profile)''"

definition patch_allowlist_text :: "path \<Rightarrow> string \<Rightarrow> string option res" where
  "patch_allowlist_text path text =
     (let ret_line = ''    return result;'';
          del_line = ''            hlist_del_rcu(&np->list);''
      in if py_in revoke_marker text \<or> py_in prune_marker text then
           rbind (c_scope_containing path text profile_scope_anchor) (\<lambda>profile_scope.
           rbind (c_scope_containing path text ''void ksu_prune_allowlist('') (\<lambda>prune_scope.
           rbind (exact_injection_installed path text revoke_marker [revoke_hook @ ret_line]
             (no_checks\<lparr>scope := Some profile_scope,
                live_scope_counts := [(''abk_sandbox_revoke_uid_async'', 1)],
                code_global_counts := [(sandbox_include, 1)]\<rparr>)) (\<lambda>_.
           rbind (exact_injection_installed path text prune_marker [prune_hook @ del_line]
             (no_checks\<lparr>scope := Some prune_scope,
                live_scope_counts := [(''abk_sandbox_revoke_uid_async'', 1)],
                live_global_counts := [(''abk_sandbox_revoke_uid_async'', 2)]\<rparr>)) (\<lambda>_.
           Inr None))))
         else
           rbind (add_include text sandbox_include path) (\<lambda>text1.
           rbind (replace_live_in_scope path text1 profile_scope_anchor ret_line (revoke_hook @ ret_line)
             ''ksu_set_app_profile return anchor not found'') (\<lambda>text2.
           rbind (replace_live_in_scope path text2 ''void ksu_prune_allowlist('' del_line (prune_hook @ del_line)
             ''allowlist prune removal anchor not found'') (\<lambda>text3.
           Inr (Some text3)))))"

definition patch_allowlist :: "path \<Rightarrow> unit io" where
  "patch_allowlist ksu_dir =
     (let path = path_join ksu_dir ''policy/allowlist.c''
      in edit_file path (patch_allowlist_text path))"

subsection \<open>The SELinux policy snapshot\<close>

definition lock_order_marker :: string where
  "lock_order_marker = MARKER @ '': policy snapshot under lock''"

definition rules_anchor :: string where
  "rules_anchor = ''void apply_kernelsu_rules()''"

definition snapshot_declaration :: string where
  "snapshot_declaration = ''struct selinux_policy *pol, *old_pol = selinux_state.policy;''"

definition snapshot_replacement :: string where
  "snapshot_replacement = ''struct selinux_policy *pol, *old_pol;''"

definition policy_lock :: string where
  "policy_lock = ''    mutex_lock(&selinux_state.policy_mutex);''"

definition snapshot_assignment :: string where
  \<open>snapshot_assignment =
     ''\<newline>'' @
     ''    /* '' @ lock_order_marker @ '' */\<newline>'' @
     ''    old_pol = rcu_dereference_protected(selinux_state.policy,\<newline>'' @
     ''                    lockdep_is_held(&selinux_state.policy_mutex));''\<close>

definition patch_policy_lock_order_text :: "path \<Rightarrow> string \<Rightarrow> string option res" where
  "patch_policy_lock_order_text path text =
     rbind (c_scope_containing path text rules_anchor) (\<lambda>body.
     rbind (exact_injection_installed path text lock_order_marker
       [snapshot_replacement, policy_lock @ snapshot_assignment]
       (no_checks\<lparr>scope := Some body, forbidden := [snapshot_declaration],
          live_scope_counts := [(''old_pol = rcu_dereference_protected(selinux_state.policy'', 1)]\<rparr>)) (\<lambda>installed.
     if installed then Inr None
     else
       rbind (replace_live_in_scope path text rules_anchor snapshot_declaration snapshot_replacement
         ''SELinux policy snapshot declaration anchor not found'') (\<lambda>text1.
       rbind (replace_live_in_scope path text1 rules_anchor policy_lock (policy_lock @ snapshot_assignment)
         ''SELinux policy lock anchor not found'') (\<lambda>text2.
       Inr (Some text2)))))"

definition patch_policy_lock_order :: "path \<Rightarrow> unit io" where
  "patch_policy_lock_order ksu_dir =
     (let path = path_join ksu_dir ''selinux/rules.c''
      in edit_file path (patch_policy_lock_order_text path))"

definition reapply_marker :: string where
  "reapply_marker = MARKER @ '': policy reapply''"

definition database_assignment :: string where
  "database_assignment = ''    db = &pol->policydb;''"

definition reapply_hook :: string where
  \<open>reapply_hook =
     ''\<newline>'' @
     ''#ifdef CONFIG_KSU_ABK_SANDBOX\<newline>'' @
     ''    /* '' @ reapply_marker @ '' */\<newline>'' @
     ''    if (abk_sandbox_policy_reapply(db)) {\<newline>'' @
     ''        ksu_destroy_sepolicy(pol);\<newline>'' @
     ''        goto out_unlock;\<newline>'' @
     ''    }\<newline>'' @
     ''#endif''\<close>

definition patch_policy_reapply_text :: "path \<Rightarrow> string \<Rightarrow> string option res" where
  "patch_policy_reapply_text path text =
     rbind (c_scope_containing path text rules_anchor) (\<lambda>body.
     rbind (exact_injection_installed path text reapply_marker [database_assignment @ reapply_hook]
       (no_checks\<lparr>scope := Some body,
          live_scope_counts := [(''abk_sandbox_policy_reapply'', 1)],
          live_global_counts := [(''abk_sandbox_policy_reapply'', 1)],
          code_global_counts := [(sandbox_include, 1)]\<rparr>)) (\<lambda>installed.
     if installed then Inr None
     else
       rbind (add_include text sandbox_include path) (\<lambda>text1.
       rbind (replace_live_in_scope path text1 rules_anchor database_assignment
         (database_assignment @ reapply_hook) ''policy database anchor not found'') (\<lambda>text2.
       Inr (Some text2)))))"

definition patch_policy_reapply :: "path \<Rightarrow> unit io" where
  "patch_policy_reapply ksu_dir =
     (let path = path_join ksu_dir ''selinux/rules.c''
      in edit_file path (patch_policy_reapply_text path))"

subsection \<open>Failing closed in the su paths\<close>

definition sucompat_marker :: string where
  "sucompat_marker = MARKER @ '': sucompat fail closed''"

definition sucompat_anchor :: string where
  \<open>sucompat_anchor =
     ''    ret = escape_with_root_profile();\<newline>'' @
     ''    if (ret) {\<newline>'' @
     ''        pr_err("escape_with_root_profile failed: %ld'' @ BS @ ''n", ret);\<newline>'' @
     ''    }''\<close>

definition sucompat_replacement :: string where
  \<open>sucompat_replacement =
     ''    ret = escape_with_root_profile();\<newline>'' @
     ''    if (ret) {\<newline>'' @
     ''        /* '' @ sucompat_marker @ '' */\<newline>'' @
     ''        pr_err("escape_with_root_profile failed: %ld'' @ BS @ ''n", ret);\<newline>'' @
     ''        ksu_sulog_emit_pending(pending_sucompat, ret, GFP_KERNEL);\<newline>'' @
     ''        ksu_close_fd(tmp_fd);\<newline>'' @
     ''        regs->__PT_PARM1_REG = orig_regs[0];\<newline>'' @
     ''        regs->__PT_PARM2_REG = orig_regs[1];\<newline>'' @
     ''        regs->__PT_PARM3_REG = orig_regs[2];\<newline>'' @
     ''        regs->__PT_SYSCALL_PARM4_REG = orig_regs[3];\<newline>'' @
     ''        regs->__PT_PARM5_REG = orig_regs[4];\<newline>'' @
     ''        return ret;\<newline>'' @
     ''    }''\<close>

definition patch_sucompat_fail_closed_text :: "path \<Rightarrow> string \<Rightarrow> string option res" where
  "patch_sucompat_fail_closed_text path text =
     rbind (c_scope_containing path text ''long ksu_handle_execve_sucompat('') (\<lambda>body.
     rbind (exact_injection_installed path text sucompat_marker [sucompat_replacement]
       (no_checks\<lparr>scope := Some body, forbidden := [sucompat_anchor],
          live_scope_counts := [(''escape_with_root_profile'', 1)]\<rparr>)) (\<lambda>installed.
     if installed then Inr None
     else
       rbind (replace_live_in_scope path text ''long ksu_handle_execve_sucompat('' sucompat_anchor
         sucompat_replacement ''sucompat fail-closed anchor not found'') (\<lambda>text1.
       Inr (Some text1))))"

definition patch_sucompat_fail_closed :: "layout \<Rightarrow> unit io" where
  "patch_sucompat_fail_closed layout =
     (if variant layout \<notin> set [''official'', ''sukisu''] then ret ()
      else
        let path = path_join (ksu layout) ''feature/sucompat.c''
        in edit_file path (patch_sucompat_fail_closed_text path))"

definition manual_su_marker :: string where
  "manual_su_marker = MARKER @ '': manual su fail closed''"

definition manual_su_scope :: string where
  "manual_su_scope = ''static inline int do_ksu_handle_execveat_sucompat(''"

definition manual_su_anchor :: string where
  "manual_su_anchor = ''    escape_with_root_profile();''"

definition manual_su_hook :: string where
  \<open>manual_su_hook =
     ''    /* '' @ manual_su_marker @ '' */\<newline>'' @
     ''    {\<newline>'' @
     ''        int sandbox_ret = escape_with_root_profile();\<newline>'' @
     ''\<newline>'' @
     ''        if (sandbox_ret)\<newline>'' @
     ''            return sandbox_ret;\<newline>'' @
     ''    }''\<close>

definition patch_resukisu_manual_fail_closed_text :: "path \<Rightarrow> string \<Rightarrow> string option res" where
  "patch_resukisu_manual_fail_closed_text path text =
     rbind (c_scope_containing path text manual_su_scope) (\<lambda>body.
     rbind (exact_injection_installed path text manual_su_marker [manual_su_hook]
       (no_checks\<lparr>scope := Some body, forbidden := [manual_su_anchor],
          live_scope_counts := [(''escape_with_root_profile'', 1)]\<rparr>)) (\<lambda>installed.
     if installed then Inr None
     else
       rbind (replace_live_in_scope path text manual_su_scope manual_su_anchor manual_su_hook
         ''ReSukiSU manual su anchor not found'') (\<lambda>text1.
       Inr (Some text1))))"

definition patch_resukisu_manual_fail_closed :: "layout \<Rightarrow> unit io" where
  "patch_resukisu_manual_fail_closed layout =
     (if variant layout \<noteq> ''resukisu'' then ret ()
      else
        let path = path_join (ksu layout) ''feature/sucompat.c''
        in edit_file path (patch_resukisu_manual_fail_closed_text path))"

end
