(* ===== verification/Patches_Kernel.thy ===== *)
theory Patches_Kernel
  imports Patches_Ksu
begin

text \<open>
  The patches to the kernel sources: the public header, the LSM count and the hooks in
  \<^verbatim>\<open>kernel/seccomp.c\<close>, \<^verbatim>\<open>fs/namespace.c\<close>, \<^verbatim>\<open>kernel/ptrace.c\<close> and \<^verbatim>\<open>kernel/signal.c\<close>. The long procedure
  \<^verbatim>\<open>patch_kernel_hooks\<close> is modelled section by section, in the order of the code.
\<close>

subsection \<open>The public header and the LSM count\<close>

definition patch_common_header :: "path \<Rightarrow> path \<Rightarrow> unit io" where
  "patch_common_header common_dir module_root =
     (let source = path_join module_root ''files/abk_ksu_sandbox/abk_ksu_sandbox_api.h'';
          target = path_join common_dir ''include/linux/abk_ksu_sandbox.h''
      in bind (exists_p target) (\<lambda>ex.
         bind (if ex then bind (read target) (\<lambda>t. ret (\<not> py_in MARKER t)) else ret False) (\<lambda>foreign.
         if foreign then
           raise (InstallError (''refusing to overwrite non-ABK header: '' @ str_path target))
         else bind (read source) (\<lambda>t. write_file target t))))"

definition lsm_count_marker :: string where
  "lsm_count_marker = MARKER @ '': lsm count''"

text \<open>\<^verbatim>\<open>(?m)^#define[ \t]+MAX_LSM_COUNT[ \t]+\\(?:\r?\n)\<close>\<close>

definition lsm_count_pattern :: regex where
  "lsm_count_pattern = rseq [RBol, RLit ''#define'', rplus rblank, RLit ''MAX_LSM_COUNT'', rplus rblank,
     RLit BS, ropt (RLit [CR]), RLit [LF]]"

definition lsm_list_anchor :: string where
  \<open>lsm_list_anchor =
     TAB @ TAB @ ''IPE_ENABLED)''\<close>

definition lsm_count_definition :: string where
  \<open>lsm_count_definition =
     ''/* '' @ lsm_count_marker @ '' */\<newline>'' @
     ''#if IS_ENABLED(CONFIG_KSU_ABK_SANDBOX)\<newline>'' @
     ''#define ABK_KSU_SANDBOX_ENABLED 1,\<newline>'' @
     ''#else\<newline>'' @
     ''#define ABK_KSU_SANDBOX_ENABLED\<newline>'' @
     ''#endif\<newline>'' @
     ''\<newline>''\<close>

definition lsm_list_injection :: string where
  \<open>lsm_list_injection =
     TAB @ TAB @ ''ABK_KSU_SANDBOX_ENABLED'' @ BS @ ''\<newline>'' @ lsm_list_anchor\<close>

definition patch_lsm_count_text :: "path \<Rightarrow> string \<Rightarrow> string option res" where
  "patch_lsm_count_text path text =
     rbind (exact_injection_installed path text lsm_count_marker [lsm_count_definition, lsm_list_injection]
       (no_checks\<lparr>global_counts := [(''ABK_KSU_SANDBOX_ENABLED'', 3)]\<rparr>)) (\<lambda>installed.
     if installed then Inr None
     else
       rbind (replace_live_regex_global path text lsm_count_pattern lsm_count_definition
         ''LSM count definition anchor not found'') (\<lambda>text1.
       rbind (replace_live_global path text1 lsm_list_anchor lsm_list_injection
         ''LSM count list anchor not found'') (\<lambda>text2.
       Inr (Some text2))))"

definition patch_lsm_count :: "path \<Rightarrow> string \<Rightarrow> unit io" where
  "patch_lsm_count common_dir ver =
     (if ver \<noteq> ''6.12'' then ret ()
      else
        let path = path_join common_dir ''include/linux/lsm_count.h''
        in edit_file path (patch_lsm_count_text path))"

subsection \<open>Normalising the include\<close>

definition kernel_include :: string where
  "kernel_include = ''#include <linux/abk_ksu_sandbox.h>''"

text \<open>The opening of each section: read the file, add the include line, write if that changed the
  text, and go on with the normalised text.\<close>

definition read_with_include :: "path \<Rightarrow> string io" where
  "read_with_include path =
     bind (read path) (\<lambda>text.
     bind (lift (add_include text kernel_include path)) (\<lambda>normalized.
     bind (whenM (normalized \<noteq> text) (write_file path normalized)) (\<lambda>_.
     ret normalized)))"

definition write_result :: "path \<Rightarrow> string option res \<Rightarrow> unit io" where
  "write_result path edited =
     bind (lift edited) (\<lambda>result.
     case result of None \<Rightarrow> ret () | Some text \<Rightarrow> write_file path text)"

subsection \<open>Seccomp\<close>

definition seccomp_marker :: string where
  "seccomp_marker = MARKER @ '': seccomp entry''"

definition seccomp_hook :: string where
  \<open>seccomp_hook =
     ''\<newline>'' @
     TAB @ ''/* '' @ seccomp_marker @ '' */\<newline>'' @
     TAB @ ''if (abk_ksu_sandbox_seccomp_allow_syscall(this_syscall))\<newline>'' @
     TAB @ TAB @ ''return 0;\<newline>''\<close>

text \<open>\<^verbatim>\<open>(?m)^(\s*this_syscall = sd \? sd->nr :\n\s*syscall_get_nr\(current, current_pt_regs\(\)\);)$\<close>\<close>

definition seccomp_pattern :: regex where
  "seccomp_pattern = rseq [RBol, RStar rspace, RLit (''this_syscall = sd ? sd->nr :'' @ [LF]), RStar rspace,
     RLit ''syscall_get_nr(current, current_pt_regs());'', REol]"

definition seccomp_call :: string where
  "seccomp_call = ''abk_ksu_sandbox_seccomp_allow_syscall(this_syscall)''"

definition patch_seccomp_text :: "path \<Rightarrow> string \<Rightarrow> string option res" where
  "patch_seccomp_text seccomp text =
     rbind (if py_in seccomp_marker text
            then rbind (mask_c_live_code text False) (\<lambda>live. Inr (\<not> py_in seccomp_call live))
            else Inr False) (\<lambda>incomplete.
     if incomplete then
       Inl (InstallError (''incomplete sandbox injection: '' @ py_repr seccomp_call @ '' missing from ''
         @ str_path seccomp))
     else
       rbind (c_scope_containing seccomp text ''this_syscall = sd ? sd->nr :'') (\<lambda>seccomp_scope.
       rbind (mask_c_live_code seccomp_scope False) (\<lambda>live_scope.
       case re_finditer seccomp_pattern live_scope of
         [(start, stop, g)] \<Rightarrow>
           let assignment = slice seccomp_scope start stop
           in rbind (exact_injection_installed seccomp text seccomp_marker [assignment @ seccomp_hook]
                (no_checks\<lparr>scope := Some seccomp_scope,
                   live_scope_counts := [(''abk_ksu_sandbox_seccomp_allow_syscall'', 1)],
                   live_global_counts := [(''abk_ksu_sandbox_seccomp_allow_syscall'', 1)],
                   code_global_counts := [(kernel_include, 1)]\<rparr>)) (\<lambda>installed.
              if installed then Inr None
              else rbind (py_index text seccomp_scope) (\<lambda>scope_start.
                let insertion = scope_start + stop
                in Inr (Some (take insertion text @ seccomp_hook @ drop insertion text))))
       | _ \<Rightarrow> Inl (InstallError (''__secure_computing entry anchor not found in '' @ str_path seccomp)))))"

definition patch_seccomp :: "path \<Rightarrow> unit io" where
  "patch_seccomp common_dir =
     (let seccomp = path_join common_dir ''kernel/seccomp.c''
      in bind (read_with_include seccomp) (\<lambda>text.
         write_result seccomp (patch_seccomp_text seccomp text)))"

subsection \<open>Mount and umount privilege\<close>

definition mount_privilege_marker :: string where
  "mount_privilege_marker = MARKER @ '': legacy mount privilege''"

definition privilege_anchor :: string where
  \<open>privilege_anchor =
     TAB @ ''if (!may_mount())\<newline>'' @
     TAB @ TAB @ ''return -EPERM;''\<close>

text \<open>The replacement of the privilege check, with the marker of the function it stands in.\<close>

definition privilege_hook :: "string \<Rightarrow> string" where
  \<open>privilege_hook marker =
     TAB @ ''/* '' @ marker @ '' */\<newline>'' @
     TAB @ ''if (!may_mount() && !abk_ksu_sandbox_may_mount())\<newline>'' @
     TAB @ TAB @ ''return -EPERM;''\<close>

definition patch_mount_privilege_text :: "path \<Rightarrow> string \<Rightarrow> string option res" where
  "patch_mount_privilege_text namespace text =
     rbind (mask_c_live_code text True) (\<lambda>live.
     if \<not> py_in ''int path_mount('' live then
       Inl (InstallError (''path_mount privilege anchor not found in '' @ str_path namespace))
     else
       rbind (c_scope_containing namespace text ''int path_mount('') (\<lambda>path_mount_scope.
       rbind (exact_injection_installed namespace text mount_privilege_marker
         [privilege_hook mount_privilege_marker]
         (no_checks\<lparr>scope := Some path_mount_scope, forbidden := [privilege_anchor],
            live_scope_counts := [(''abk_ksu_sandbox_may_mount'', 1)],
            code_global_counts := [(kernel_include, 1)]\<rparr>)) (\<lambda>installed.
       if installed then Inr None
       else
         rbind (replace_live_in_scope namespace text ''int path_mount('' privilege_anchor
           (privilege_hook mount_privilege_marker) ''path_mount privilege anchor not found'') (\<lambda>text1.
         Inr (Some text1)))))"

definition patch_mount_privilege :: "path \<Rightarrow> unit io" where
  "patch_mount_privilege namespace =
     bind (read_with_include namespace) (\<lambda>text.
     write_result namespace (patch_mount_privilege_text namespace text))"

definition umount_privilege_marker :: string where
  "umount_privilege_marker = MARKER @ '': legacy umount privilege''"

definition patch_umount_privilege_text :: "path \<Rightarrow> string \<Rightarrow> string option res" where
  "patch_umount_privilege_text namespace text =
     rbind (c_scope_containing namespace text ''static int can_umount('') (\<lambda>can_umount_scope.
     rbind (exact_injection_installed namespace text umount_privilege_marker
       [privilege_hook umount_privilege_marker]
       (no_checks\<lparr>scope := Some can_umount_scope, forbidden := [privilege_anchor],
          live_scope_counts := [(''abk_ksu_sandbox_may_mount'', 1)]\<rparr>)) (\<lambda>installed.
     if installed then Inr None
     else
       rbind (replace_live_in_scope namespace text ''static int can_umount('' privilege_anchor
         (privilege_hook umount_privilege_marker) ''can_umount privilege anchor not found'') (\<lambda>text1.
       Inr (Some text1))))"

definition patch_umount_privilege :: "path \<Rightarrow> unit io" where
  "patch_umount_privilege namespace = edit_file namespace (patch_umount_privilege_text namespace)"

subsection \<open>Validating bind sources\<close>

definition bind_marker :: string where
  "bind_marker = MARKER @ '': resolved bind source''"

definition old_bind_validation :: string where
  "old_bind_validation = ''abk_ksu_sandbox_bind_validate(&old_path, path)''"

definition new_bind_validation :: string where
  "new_bind_validation = ''abk_ksu_sandbox_bind_validate(&old_path, path, recurse)''"

text \<open>The pattern of the resolved source is a literal: three lines of \<^verbatim>\<open>do_loopback\<close>.\<close>

definition bind_pattern :: regex where
  \<open>bind_pattern = RGrp 1 (RLit (
     TAB @ ''err = kern_path(old_name, LOOKUP_FOLLOW|LOOKUP_AUTOMOUNT, &old_path);\<newline>'' @
     TAB @ ''if (err)\<newline>'' @
     TAB @ TAB @ ''return err;''))\<close>

definition bind_hook_suffix :: string where
  \<open>bind_hook_suffix =
     ''\<newline>'' @
     ''\<newline>'' @
     TAB @ ''/* '' @ bind_marker @ '' */\<newline>'' @
     TAB @ ''err = abk_ksu_sandbox_bind_validate(&old_path, path, recurse);\<newline>'' @
     TAB @ ''if (err)\<newline>'' @
     TAB @ TAB @ ''goto out;''\<close>

definition patch_bind_text :: "path \<Rightarrow> string \<Rightarrow> string option res" where
  "patch_bind_text namespace text =
     rbind (c_scope_containing namespace text ''static int do_loopback('') (\<lambda>bind_scope.
     rbind (mask_c_live_code bind_scope False) (\<lambda>live_scope.
     case re_finditer bind_pattern live_scope of
       [(start, stop, g)] \<Rightarrow>
         let bind_hook = slice bind_scope start stop @ bind_hook_suffix
         in rbind (exact_injection_installed namespace text bind_marker [bind_hook]
              (no_checks\<lparr>scope := Some bind_scope,
                 live_scope_counts := [(''abk_ksu_sandbox_bind_validate'', 1), (''kern_path(old_name'', 1)],
                 live_global_counts := [(''abk_ksu_sandbox_bind_validate'', 1)]\<rparr>)) (\<lambda>installed.
            if installed then Inr None
            else rbind (py_index text bind_scope) (\<lambda>scope_start.
              Inr (Some (take (scope_start + start) text @ bind_hook @ drop (scope_start + stop) text))))
     | _ \<Rightarrow> Inl (InstallError (''do_loopback resolved-source anchor not found in '' @ str_path namespace))))"

definition patch_bind :: "path \<Rightarrow> unit io" where
  "patch_bind namespace =
     bind (read namespace) (\<lambda>text0.
     bind (if py_in bind_marker text0 \<and> py_in old_bind_validation text0 then
             bind (lift (replace_live_in_scope namespace text0 ''static int do_loopback(''
               old_bind_validation new_bind_validation ''legacy bind validation anchor not found'')) (\<lambda>text1.
             bind (write_file namespace text1) (\<lambda>_. ret text1))
           else ret text0) (\<lambda>text.
     write_result namespace (patch_bind_text namespace text)))"

subsection \<open>Mount results\<close>

definition mount_result_marker :: string where
  "mount_result_marker = MARKER @ '': mount result''"

definition security_anchor :: string where
  \<open>security_anchor =
     TAB @ ''ret = security_sb_mount(dev_name, path, type_page, flags, data_page);\<newline>'' @
     TAB @ ''if (ret)\<newline>'' @
     TAB @ TAB @ ''return ret;''\<close>

definition security_hook :: string where
  \<open>security_hook =
     TAB @ ''ret = security_sb_mount(dev_name, path, type_page, flags, data_page);\<newline>'' @
     TAB @ ''if (ret) {\<newline>'' @
     TAB @ TAB @ ''/* '' @ mount_result_marker @ '' */\<newline>'' @
     TAB @ TAB @ ''abk_ksu_sandbox_mount_result(path, ret);\<newline>'' @
     TAB @ TAB @ ''return ret;\<newline>'' @
     TAB @ ''}''\<close>

definition mount_bind_anchor :: string where
  \<open>mount_bind_anchor =
     TAB @ ''if (flags & MS_BIND)\<newline>'' @
     TAB @ TAB @ ''return do_loopback(path, dev_name, flags & MS_REC);''\<close>

definition mount_bind_hook :: string where
  \<open>mount_bind_hook =
     TAB @ ''if (flags & MS_BIND) {\<newline>'' @
     TAB @ TAB @ ''ret = do_loopback(path, dev_name, flags & MS_REC);\<newline>'' @
     TAB @ TAB @ ''abk_ksu_sandbox_mount_result(path, ret);\<newline>'' @
     TAB @ TAB @ ''return ret;\<newline>'' @
     TAB @ ''}''\<close>

text \<open>\<^verbatim>\<open>(?m)^\treturn do_new_mount(path, type_page, sb_flags, mnt_flags, dev_name,\n\s+data_page);$\<close>\<close>

definition new_mount_pattern :: regex where
  "new_mount_pattern = rseq [RBol, RLit (TAB @ ''return do_new_mount(path, type_page, sb_flags, mnt_flags, dev_name,'' @ [LF]),
     rplus rspace, RLit ''data_page);'', REol]"

definition new_mount_hook :: string where
  \<open>new_mount_hook =
     TAB @ ''ret = do_new_mount(path, type_page, sb_flags, mnt_flags, dev_name,\<newline>'' @
     TAB @ TAB @ TAB @ ''   data_page);\<newline>'' @
     TAB @ ''abk_ksu_sandbox_mount_result(path, ret);\<newline>'' @
     TAB @ ''return ret;''\<close>

definition patch_mount_result_text :: "path \<Rightarrow> string \<Rightarrow> string option res" where
  "patch_mount_result_text namespace text =
     rbind (c_scope_containing namespace text ''int path_mount('') (\<lambda>path_mount_scope.
     rbind (exact_injection_installed namespace text mount_result_marker
       [security_hook, mount_bind_hook, new_mount_hook]
       (no_checks\<lparr>scope := Some path_mount_scope, forbidden := [security_anchor, mount_bind_anchor],
          live_scope_counts := [(''abk_ksu_sandbox_mount_result'', 3)],
          live_global_counts := [(''abk_ksu_sandbox_mount_result'', 3)]\<rparr>)) (\<lambda>mount_result_installed.
     rbind (mask_c_live_code path_mount_scope False) (\<lambda>live_scope.
     if mount_result_installed then
       (if re_finditer new_mount_pattern live_scope \<noteq> []
        then Inl (partial_injection namespace mount_result_marker) else Inr None)
     else
       rbind (replace_live_in_scope namespace text ''int path_mount('' security_anchor security_hook
         ''path_mount security anchor not found'') (\<lambda>text1.
       rbind (replace_live_in_scope namespace text1 ''int path_mount('' mount_bind_anchor mount_bind_hook
         ''path_mount bind anchor not found'') (\<lambda>text2.
       rbind (replace_live_regex_in_scope namespace text2 ''int path_mount('' new_mount_pattern new_mount_hook
         ''path_mount new-mount anchor not found'') (\<lambda>text3.
       Inr (Some text3)))))))"

definition patch_mount_result :: "path \<Rightarrow> unit io" where
  "patch_mount_result namespace = edit_file namespace (patch_mount_result_text namespace)"

subsection \<open>Validating umounts\<close>

definition umount_marker :: string where
  "umount_marker = MARKER @ '': umount validate''"

definition umount_anchor :: string where
  \<open>umount_anchor =
     TAB @ ''ret = can_umount(path, flags);\<newline>'' @
     TAB @ ''if (!ret)\<newline>'' @
     TAB @ TAB @ ''ret = do_umount(mnt, flags);''\<close>

definition umount_hook :: string where
  \<open>umount_hook =
     TAB @ ''/* '' @ umount_marker @ '' */\<newline>'' @
     TAB @ ''ret = abk_ksu_sandbox_umount_validate(path, flags);\<newline>'' @
     TAB @ ''if (!ret)\<newline>'' @
     TAB @ TAB @ ''ret = can_umount(path, flags);\<newline>'' @
     TAB @ ''if (!ret)\<newline>'' @
     TAB @ TAB @ ''ret = do_umount(mnt, flags);\<newline>'' @
     TAB @ ''abk_ksu_sandbox_umount_result(path, ret);''\<close>

definition patch_umount_validate_text :: "path \<Rightarrow> string \<Rightarrow> string option res" where
  "patch_umount_validate_text namespace text =
     rbind (c_scope_containing namespace text ''int path_umount('') (\<lambda>path_umount_scope.
     rbind (exact_injection_installed namespace text umount_marker [umount_hook]
       (no_checks\<lparr>scope := Some path_umount_scope,
          live_scope_counts := [(''abk_ksu_sandbox_umount_validate'', 1), (''abk_ksu_sandbox_umount_result'', 1)],
          live_global_counts := [(''abk_ksu_sandbox_umount_validate'', 1),
            (''abk_ksu_sandbox_umount_result'', 1)]\<rparr>)) (\<lambda>installed.
     if installed then Inr None
     else
       rbind (replace_live_in_scope namespace text ''int path_umount('' umount_anchor umount_hook
         ''path_umount anchor not found'') (\<lambda>text1.
       Inr (Some text1))))"

definition patch_umount_validate :: "path \<Rightarrow> unit io" where
  "patch_umount_validate namespace = edit_file namespace (patch_umount_validate_text namespace)"

subsection \<open>Ptrace\<close>

definition ptrace_marker :: string where
  "ptrace_marker = MARKER @ '': ptrace''"

definition ptrace_anchor :: string where
  \<open>ptrace_anchor =
     TAB @ ''tcred = __task_cred(task);''\<close>

definition ptrace_code :: string where
  \<open>ptrace_code = ptrace_anchor @
     ''\<newline>'' @
     TAB @ ''/* '' @ ptrace_marker @ '' */\<newline>'' @
     TAB @ ''if (abk_ksu_sandbox_may_ptrace(tcred))\<newline>'' @
     TAB @ TAB @ ''goto ok;''\<close>

definition dumpable :: string where
  \<open>dumpable =
     TAB @ ''if (mm &&\<newline>'' @
     TAB @ ''    ((get_dumpable(mm) != SUID_DUMP_USER) &&\<newline>'' @
     TAB @ ''     !ptrace_has_cap(mm->user_ns, mode)))''\<close>

definition dumpable_hook :: string where
  \<open>dumpable_hook =
     TAB @ ''if (mm &&\<newline>'' @
     TAB @ ''    ((get_dumpable(mm) != SUID_DUMP_USER) &&\<newline>'' @
     TAB @ ''     !abk_ksu_sandbox_may_ptrace_task(task) &&\<newline>'' @
     TAB @ ''     !ptrace_has_cap(mm->user_ns, mode)))''\<close>

definition patch_ptrace_text :: "path \<Rightarrow> string \<Rightarrow> string option res" where
  "patch_ptrace_text ptrace text =
     rbind (c_scope_containing ptrace text ptrace_anchor) (\<lambda>ptrace_scope.
     rbind (exact_injection_installed ptrace text ptrace_marker [ptrace_code, dumpable_hook]
       (no_checks\<lparr>scope := Some ptrace_scope, forbidden := [dumpable],
          live_scope_counts := [(''abk_ksu_sandbox_may_ptrace('', 1), (''abk_ksu_sandbox_may_ptrace_task('', 1)],
          code_global_counts := [(kernel_include, 1)]\<rparr>)) (\<lambda>installed.
     if installed then Inr None
     else
       rbind (replace_live_in_scope ptrace text ptrace_anchor ptrace_anchor ptrace_code
         ''ptrace target credential anchor not found'') (\<lambda>text1.
       rbind (replace_live_in_scope ptrace text1 ptrace_anchor dumpable dumpable_hook
         ''ptrace dumpability anchor not found'') (\<lambda>text2.
       Inr (Some text2)))))"

definition patch_ptrace :: "path \<Rightarrow> unit io" where
  "patch_ptrace common_dir =
     (let ptrace = path_join common_dir ''kernel/ptrace.c''
      in bind (read_with_include ptrace) (\<lambda>text.
         write_result ptrace (patch_ptrace_text ptrace text)))"

subsection \<open>Signals\<close>

definition signal_marker :: string where
  "signal_marker = MARKER @ '': signal''"

text \<open>\<^verbatim>\<open>if \(!same_thread_group\(current, t\) &&\n\s*!kill_ok_by_cred\(t\)\) \{\<close>\<close>

definition signal_pattern :: regex where
  "signal_pattern = rseq [RLit (''if (!same_thread_group(current, t) &&'' @ [LF]), RStar rspace,
     RLit ''!kill_ok_by_cred(t)) {'']"

definition signal_replacement :: string where
  \<open>signal_replacement =
     ''if (!same_thread_group(current, t) &&\<newline>'' @
     TAB @ ''    /* '' @ signal_marker @ '' */\<newline>'' @
     TAB @ ''    !abk_ksu_sandbox_may_signal(t) &&\<newline>'' @
     TAB @ ''    !kill_ok_by_cred(t)) {''\<close>

definition signal_anchor :: string where
  "signal_anchor = ''if (!same_thread_group(current, t) &&''"

definition patch_signal_text :: "path \<Rightarrow> string \<Rightarrow> string option res" where
  "patch_signal_text signal text =
     rbind (mask_c_live_code text True) (\<lambda>live.
     if \<not> py_in signal_anchor live then
       Inl (InstallError (''check_kill_permission credential anchor not found in '' @ str_path signal))
     else
       rbind (c_scope_containing signal text signal_anchor) (\<lambda>signal_scope.
       rbind (mask_c_live_code signal_scope False) (\<lambda>live_scope.
       rbind (exact_injection_installed signal text signal_marker [signal_replacement]
         (no_checks\<lparr>scope := Some signal_scope,
            live_scope_counts := [(''abk_ksu_sandbox_may_signal'', 1)],
            live_global_counts := [(''abk_ksu_sandbox_may_signal'', 1)],
            code_global_counts := [(kernel_include, 1)]\<rparr>)) (\<lambda>signal_installed.
       if signal_installed then
         (if re_finditer signal_pattern live_scope \<noteq> []
          then Inl (partial_injection signal signal_marker) else Inr None)
       else
         rbind (replace_live_regex_in_scope signal text signal_anchor signal_pattern signal_replacement
           ''check_kill_permission credential anchor not found'') (\<lambda>text1.
         Inr (Some text1))))))"

definition patch_signal :: "path \<Rightarrow> unit io" where
  "patch_signal common_dir =
     (let signal = path_join common_dir ''kernel/signal.c''
      in bind (read_with_include signal) (\<lambda>text.
         write_result signal (patch_signal_text signal text)))"

subsection \<open>All kernel hooks\<close>

definition patch_kernel_hooks :: "path \<Rightarrow> unit io" where
  "patch_kernel_hooks common_dir =
     (let namespace = path_join common_dir ''fs/namespace.c''
      in bind (patch_seccomp common_dir) (\<lambda>_.
         bind (patch_mount_privilege namespace) (\<lambda>_.
         bind (patch_bind namespace) (\<lambda>_.
         bind (patch_umount_privilege namespace) (\<lambda>_.
         bind (patch_mount_result namespace) (\<lambda>_.
         bind (patch_umount_validate namespace) (\<lambda>_.
         bind (patch_ptrace common_dir) (\<lambda>_.
         patch_signal common_dir))))))))"

end
