(* ===== verification/Resukisu.thy ===== *)
theory Resukisu
  imports Discover
begin

text \<open>
  The ReSukiSU audit: extracting the modern branch of its LSM hook file, comparing it with the
  audited shape, searching the tree for other hook registrations, and the policy for the tail of
  the runtime LSM list that follows from it.
\<close>

subsection \<open>Line continuations\<close>

lemma re_sub_at_erase_le: "length (re_sub_at r (\<lambda>_. []) c) \<le> length (snd c)"
proof (induction c rule: measure_induct_rule [of "\<lambda>c. length (snd c)"])
  case (less c)
  have step: "length (case snd c of [] \<Rightarrow> [] | y # ys \<Rightarrow> y # re_sub_at r (\<lambda>_. []) (Some y, ys)) \<le> length (snd c)"
    using less [of "(Some y, ys)" for y ys] by (cases "snd c") auto
  show ?case
  proof (cases "re_first r c")
    case None
    with step show ?thesis by (subst re_sub_at.simps) simp
  next
    case (Some x)
    then have "0 < consumed c x \<Longrightarrow> length (re_sub_at r (\<lambda>_. []) (fst x)) \<le> length (snd (fst x))"
      by (intro less) (simp add: consumed_def)
    then have "0 < consumed c x \<Longrightarrow> length (re_sub_at r (\<lambda>_. []) (fst x)) \<le> length (snd c)"
      by (simp add: consumed_def)
    with Some step show ?thesis by (subst re_sub_at.simps) simp
  qed
qed

lemma re_sub_at_erase_less:
  "(a, b, g) \<in> set (re_scan r i c) \<Longrightarrow> a < b \<Longrightarrow> length (re_sub_at r (\<lambda>_. []) c) < length (snd c)"
proof (induction c arbitrary: i rule: measure_induct_rule [of "\<lambda>c. length (snd c)"])
  case (less c)
  have step: "length (case snd c of [] \<Rightarrow> [] | y # ys \<Rightarrow> y # re_sub_at r (\<lambda>_. []) (Some y, ys)) < length (snd c)"
    if "(a, b, g) \<in> set (case snd c of [] \<Rightarrow> [] | y # ys \<Rightarrow> re_scan r (Suc i) (Some y, ys))"
    using that less.IH [of "(Some y, ys)" "Suc i" for y ys] less.prems(2) by (cases "snd c") auto
  show ?case
  proof (cases "re_first r c")
    case None
    with less.prems step show ?thesis
      by (subst re_sub_at.simps) (simp add: re_scan.simps [of r i c])
  next
    case (Some x)
    have "0 < consumed c x \<Longrightarrow> length (re_sub_at r (\<lambda>_. []) (fst x)) < length (snd c)"
      using re_sub_at_erase_le [of r "fst x"] by (simp add: consumed_def)
    moreover have "consumed c x = 0 \<Longrightarrow>
        (a, b, g) \<in> set (case snd c of [] \<Rightarrow> [] | y # ys \<Rightarrow> re_scan r (Suc i) (Some y, ys))"
      using less.prems Some by (subst (asm) re_scan.simps) auto
    ultimately show ?thesis using Some step by (subst re_sub_at.simps) simp
  qed
qed

lemma match_lit_length: "match_lit s c = Some c' \<Longrightarrow> length (snd c) = length s + length (snd c')"
  by (induction s c rule: match_lit.induct) (auto split: if_splits)

lemma match_lit_first_consumes:
  assumes "x \<in> set (re_results (RSeq (RLit s) r) c)" "s \<noteq> []"
  shows "0 < consumed c x"
proof -
  from assms(1) obtain c' y where "match_lit s c = Some c'" "y \<in> set (re_results r c')" "fst x = fst y"
    by (cases "match_lit s c") auto
  with match_lit_length [of s c c'] re_results_suffix [of y r c'] assms(2) show ?thesis
    by (cases s) (auto simp: consumed_def dest: suffix_length_le)
qed

lemma re_scan_lit_nonempty:
  "(a, b, g) \<in> set (re_scan (RSeq (RLit s) r) i c) \<Longrightarrow> s \<noteq> [] \<Longrightarrow> a < b"
proof (induction c arbitrary: i rule: measure_induct_rule [of "\<lambda>c. length (snd c)"])
  case (less c)
  show ?case
  proof (cases "re_first (RSeq (RLit s) r) c")
    case None
    then obtain y ys where "snd c = y # ys"
        "(a, b, g) \<in> set (re_scan (RSeq (RLit s) r) (Suc i) (Some y, ys))"
      using less.prems by (cases "snd c") (auto simp: re_scan.simps [of _ i c])
    with less.IH [of "(Some y, ys)" "Suc i"] less.prems show ?thesis by simp
  next
    case (Some x)
    then have "x \<in> set (re_results (RSeq (RLit s) r) c)"
      by (rule re_first_mem)
    from match_lit_first_consumes [OF this less.prems(2)] have pos: "0 < consumed c x" .
    with Some less.prems less.IH [of "fst x" "i + consumed c x"] show ?thesis
      by (auto simp: re_scan.simps [of _ i c] consumed_def)
  qed
qed

function collapse_c_line_continuations :: "string \<Rightarrow> string" where
  "collapse_c_line_continuations text =
     (if re_search continuation_pattern text \<noteq> None
      then collapse_c_line_continuations (re_sub continuation_pattern (\<lambda>_. []) text)
      else text)"
  by pat_completeness auto
termination
proof (relation "measure length")
  fix t :: string
  assume "re_search continuation_pattern t \<noteq> None"
  then obtain a b g where "(a, b, g) \<in> set (re_scan continuation_pattern 0 (start_cursor t))"
    by (cases "re_finditer continuation_pattern t") (auto simp: re_search_def re_finditer_def)
  then show "(re_sub continuation_pattern (\<lambda>_. []) t, t) \<in> measure length"
    using re_sub_at_erase_less [of a b g continuation_pattern 0 "start_cursor t"]
      re_scan_lit_nonempty [of a b g BS _ 0 "start_cursor t"]
    by (simp add: re_sub_def start_cursor_def continuation_pattern_def)
qed simp

declare collapse_c_line_continuations.simps [simp del]

subsection \<open>The modern branch\<close>

text \<open>The condition of the branch, with optional blanks between all tokens.\<close>

definition modern_target_pattern :: regex where
  "modern_target_pattern =
     (let b = RStar rblank in
      rseq [RBol, b, RLit ''#'', b, RLit ''if'', rplus rblank, RLit ''LINUX_VERSION_CODE'', b, RLit ''>='', b,
        RLit ''KERNEL_VERSION'', b, RLit ''('', b, RLit ''4'', b, RLit '','', b, RLit ''2'', b, RLit '','', b,
        RLit ''0'', b, RLit '')'', b, RLit ''||'', b, RLit ''defined'', b, RLit ''('', b,
        RLit ''KSU_COMPAT_HAS_LIST_OF_LSM_HOOKS'', b, RLit '')'', b,
        ropt (RSeq (ropt (RLit [CR])) (RLit [LF])), REnd])"

definition directive_word_pattern :: regex where
  "directive_word_pattern = rseq [RBol, RStar rblank, RLit ''#'', RStar rblank,
     RGrp 1 (ralt (map RLit [''if'', ''ifdef'', ''ifndef'', ''elif'', ''else'', ''endif''])), RBnd]"

definition directive_word :: "string \<Rightarrow> string option" where
  "directive_word line = map_option (group 1) (re_match directive_word_pattern line)"

definition opens_conditional :: "string \<Rightarrow> bool" where
  "opens_conditional kind \<longleftrightarrow> kind \<in> set [''if'', ''ifdef'', ''ifndef'']"

fun modern_candidates :: "path \<Rightarrow> nat \<Rightarrow> string list \<Rightarrow> int \<Rightarrow> (int \<times> nat list) res" where
  "modern_candidates path index [] depth = Inr (depth, [])"
| "modern_candidates path index (line # lines) depth =
     (case directive_word line of
        None \<Rightarrow> modern_candidates path (Suc index) lines depth
      | Some kind \<Rightarrow>
          if opens_conditional kind then
            rbind (modern_candidates path (Suc index) lines (depth + 1)) (\<lambda>(d, cs).
              Inr (d, if re_fullmatch modern_target_pattern line \<noteq> None \<and> depth = 0
                      then index # cs else cs))
          else if kind = ''endif'' then
            (if depth - 1 < 0 then
               Inl (InstallError (''unbalanced preprocessor conditional in '' @ str_path path))
             else modern_candidates path (Suc index) lines (depth - 1))
          else modern_candidates path (Suc index) lines depth)"

definition modern_branch_error :: exn where
  "modern_branch_error = InstallError ''unsupported ReSukiSU runtime LSM hook shape: modern branch''"

text \<open>The second loop: the index of the \<^verbatim>\<open>#else\<close> and of the \<^verbatim>\<open>#endif\<close> of the branch.\<close>

fun modern_branch_end ::
  "string list \<Rightarrow> nat list \<Rightarrow> int \<Rightarrow> nat option \<Rightarrow> (nat option \<times> nat option) res" where
  "modern_branch_end lexical [] nested branch_end = Inr (branch_end, None)"
| "modern_branch_end lexical (index # indices) nested branch_end =
     (if length lexical \<le> index then Inl (ValueErr ''list index out of range'')
      else case directive_word (lexical ! index) of
        None \<Rightarrow> modern_branch_end lexical indices nested branch_end
      | Some kind \<Rightarrow>
          if opens_conditional kind then modern_branch_end lexical indices (nested + 1) branch_end
          else if kind = ''endif'' then
            (if nested - 1 = 0 then Inr (branch_end, Some index)
             else modern_branch_end lexical indices (nested - 1) branch_end)
          else if nested = 1 \<and> kind = ''else'' then
            (if branch_end \<noteq> None then Inl modern_branch_error
             else modern_branch_end lexical indices nested (Some index))
          else if nested = 1 \<and> kind = ''elif'' then Inl modern_branch_error
          else modern_branch_end lexical indices nested branch_end)"

definition extract_resukisu_modern_lsm_branch :: "path \<Rightarrow> string \<Rightarrow> string res" where
  "extract_resukisu_modern_lsm_branch path text =
     (let lines = splitlines_keep text;
          lexical_lines = splitlines_keep (mask_c_comments_and_literals text)
      in rbind (modern_candidates path 0 lexical_lines 0) (\<lambda>(depth, candidates).
         case candidates of
           [candidate] \<Rightarrow>
             if depth \<noteq> 0 then Inl modern_branch_error
             else rbind (modern_branch_end lexical_lines [Suc candidate ..< length lines] 1 None)
               (\<lambda>(branch_end, branch_close).
                 case (branch_end, branch_close) of
                   (Some e, Some c) \<Rightarrow>
                     Inr (concat (take (e - Suc candidate) (drop (Suc candidate) lines)))
                 | _ \<Rightarrow> Inl modern_branch_error)
         | _ \<Rightarrow> Inl modern_branch_error))"

subsection \<open>Hook registrations in the tree\<close>

text \<open>\<^verbatim>\<open>path.suffix\<close>\<close>

definition path_suffix :: "path \<Rightarrow> string" where
  "path_suffix p =
     (let name = (if p = [] then [] else last p);
          ext = rev (takeWhile (\<lambda>c. c \<noteq> CHR ''.'') (rev name))
      in if CHR ''.'' \<in> set name \<and> length ext + 1 < length name \<and> ext \<noteq> [] then CHR ''.'' # ext else [])"

text \<open>\<^verbatim>\<open>sorted(ksu.rglob("*"))\<close>: everything below the directory, in path order.\<close>

definition rglob_sorted :: "fs \<Rightarrow> path \<Rightarrow> path list" where
  "rglob_sorted fs p =
     (case realpath fs p of
        None \<Rightarrow> []
      | Some r \<Rightarrow> sort (map (\<lambda>e. p @ drop (length r) (fst e))
          (filter (\<lambda>e. strict_prefix r (fst e)) fs)))"

definition raw_contents :: "fs \<Rightarrow> path \<Rightarrow> string" where
  "raw_contents fs p = (case stat fs p of Some (FileN t) \<Rightarrow> t | Some (BinN t) \<Rightarrow> t | _ \<Rightarrow> [])"

definition token_paste_pattern :: regex where
  "token_paste_pattern = rseq [RBnd, RLit ''security_add_'', RStar rspace, RLit ''##'', RStar rspace,
     RLit ''hooks'', RBnd]"

definition registration_pattern :: regex where
  "registration_pattern = rseq [RBnd, RLit ''security_add_hooks'', RBnd]"

fun registration_loop :: "fs \<Rightarrow> path \<Rightarrow> path list \<Rightarrow> (path \<times> nat) list res" where
  "registration_loop fs ksu_dir [] = Inr []"
| "registration_loop fs ksu_dir (source # sources) =
     (let relative = drop (length ksu_dir) source;
          raw = raw_contents fs source;
          code = collapse_c_line_continuations (mask_c_comments_and_literals raw)
      in if ''abk_sandbox'' \<in> set relative \<or> \<not> path_is_file fs source
           \<or> path_suffix source \<notin> set [''.c'', ''.h'', ''.inc'', ''.inl'', ''.s'', ''.S'']
           \<or> \<not> py_in ''security_add_'' raw
         then registration_loop fs ksu_dir sources
         else if re_search token_paste_pattern code \<noteq> None then
           Inl (InstallError ''unsupported ReSukiSU runtime LSM hook shape: token-pasted registration'')
         else rbind (registration_loop fs ksu_dir sources) (\<lambda>found.
           let count = re_count registration_pattern code
           in Inr (if count \<noteq> 0 then (source, count) # found else found)))"

definition resukisu_registration_sources :: "fs \<Rightarrow> path \<Rightarrow> (path \<times> nat) list res" where
  "resukisu_registration_sources fs ksu_dir =
     registration_loop fs ksu_dir (rglob_sorted fs ksu_dir)"

subsection \<open>The audited shape\<close>

abbreviation ws :: regex where "ws \<equiv> RStar rspace"
abbreviation ws1 :: regex where "ws1 \<equiv> rplus rspace"

text \<open>A sequence of literals with optional white space between them.\<close>

fun spaced :: "string list \<Rightarrow> regex list" where
  "spaced [] = []"
| "spaced [t] = [RLit t]"
| "spaced (t # u # ts) = RLit t # ws # spaced (u # ts)"

definition modern_shape_pattern :: regex where
  "modern_shape_pattern = rseq (
     [ws] @ spaced [''#'', ''include'', ''<linux/lsm_hooks.h>''] @
     [ws, RLit ''static'', ws1, RLit ''struct'', ws1, RLit ''security_hook_list'', ws1,
      RLit ''ksu_hooks[]'', ws, RLit ''='', ws, RLit ''{'', RGrp 1 (RLazy rany), RLit ''};'', ws,
      RLit ''void'', ws1, RLit ''__init'', ws1] @
     spaced [''ksu_lsm_hook_built_in_init'', ''('', ''void'', '')''] @
     [ws, RGrp 2 (rseq [RLit ''{'', RStar rany, RLit ''}'']), ws])"

definition audited_shape_pattern :: regex where
  "audited_shape_pattern = rseq (
     [ws] @ spaced [''LSM_HOOK_INIT'', ''('', ''inode_rename'', '','', ''ksu_inode_rename'', '')'', '',''] @ [ws] @
     spaced [''#'', ''ifdef''] @ [ws1, RLit ''CONFIG_KSU_MANUAL_HOOK_AUTO_SETUID_HOOK'', RBnd, ws] @
     spaced [''LSM_HOOK_INIT'', ''('', ''task_fix_setuid'', '','', ''ksu_task_fix_setuid'', '')'', '',''] @ [ws] @
     spaced [''#'', ''endif'', ''#'', ''ifdef''] @
     [ws1, RLit ''CONFIG_KSU_MANUAL_HOOK_AUTO_INITRC_HOOK'', RBnd, ws] @
     spaced [''LSM_HOOK_INIT'', ''('', ''file_permission'', '','', ''ksu_file_permission'', '')'', '',''] @ [ws] @
     spaced [''#'', ''endif''] @ [ws])"

definition audited_registration_pattern :: regex where
  "audited_registration_pattern = rseq (
     spaced [''{'', ''if'', ''('', ''ARRAY_SIZE'', ''('', ''ksu_hooks'', '')'', ''=='', ''0'', '')'', ''return'', '';'',
       ''#'', ''if''] @
     [ws1] @ spaced [''LINUX_VERSION_CODE'', ''>='', ''KERNEL_VERSION'', ''('', ''4'', '','', ''11'', '','', ''0'', '')'',
       ''||'', ''defined'', ''('', ''KSU_COMPAT_REQUIRE_PROVIDE_LSM_NAME'', '')'',
       ''security_add_hooks'', ''('', ''ksu_hooks'', '','', ''ARRAY_SIZE'', ''('', ''ksu_hooks'', '')'', '','',
       [DQ] @ ''ksu'' @ [DQ], '')'', '';'', ''#'', ''else'',
       ''security_add_hooks'', ''('', ''ksu_hooks'', '','', ''ARRAY_SIZE'', ''('', ''ksu_hooks'', '')'', '')'', '';'',
       ''#'', ''endif'', ''}''])"

definition hook_shape_error :: "string \<Rightarrow> exn" where
  "hook_shape_error what = InstallError (''unsupported ReSukiSU runtime LSM hook shape: '' @ what)"

definition validate_hook_text :: "string \<Rightarrow> unit res" where
  "validate_hook_text text =
     (case re_fullmatch modern_shape_pattern text of
        None \<Rightarrow> Inl (hook_shape_error ''ksu_hooks array'')
      | Some modern \<Rightarrow>
          if re_fullmatch audited_shape_pattern (group 1 modern) = None
          then Inl (hook_shape_error ''array contents'')
          else if re_fullmatch audited_registration_pattern (group 2 modern) = None
          then Inl (hook_shape_error ''registration function'')
          else Inr ())"

definition validate_resukisu_runtime_lsm_hooks :: "path \<Rightarrow> unit io" where
  "validate_resukisu_runtime_lsm_hooks ksu_dir =
     (let hook_path = path_join ksu_dir ''hook/lsm_hooks.c''
      in bind (read hook_path) (\<lambda>raw_text.
         bind (lift (extract_resukisu_modern_lsm_branch hook_path raw_text)) (\<lambda>branch.
         bind (lift (validate_hook_text (collapse_c_line_continuations (mask_c_comments branch)))) (\<lambda>_.
         bind (gets fsys) (\<lambda>fs.
         bind (lift (resukisu_registration_sources fs ksu_dir)) (\<lambda>registration_sources.
         raise_when (registration_sources \<noteq> [(hook_path, 2)])
           (hook_shape_error ''extra registration token'')))))))"

subsection \<open>The runtime tail policy\<close>

definition parse_int :: "string \<Rightarrow> int res" where
  "parse_int part =
     (if part \<noteq> [] \<and> list_all py_digit part then Inr (int_base 10 part)
      else Inl (ValueErr ''invalid literal for int() with base 10''))"

definition parse_version :: "string \<Rightarrow> (int \<times> int) res" where
  "parse_version ver =
     (case py_split (CHR ''.'') ver of
        [a, b] \<Rightarrow> rbind (parse_int a) (\<lambda>major. rbind (parse_int b) (\<lambda>minor. Inr (major, minor)))
      | _ \<Rightarrow> Inl (ValueErr ''wrong number of values to unpack''))"

definition runtime_ksu_tail_policy :: "layout \<Rightarrow> string io" where
  "runtime_ksu_tail_policy layout =
     (if variant layout \<noteq> ''resukisu'' then ret RUNTIME_KSU_TAIL_NEVER
      else bind (lift (parse_version (version layout))) (\<lambda>(major, minor).
        if major > 6 \<or> major = 6 \<and> minor \<ge> 8 then ret RUNTIME_KSU_TAIL_NEVER
        else bind (validate_resukisu_runtime_lsm_hooks (ksu layout)) (\<lambda>_.
          ret RUNTIME_KSU_TAIL_RESUKISU_SUSFS)))"

definition validate_runtime_ksu_tail_config :: "string \<Rightarrow> path option \<Rightarrow> unit io" where
  "validate_runtime_ksu_tail_config policy defconfig =
     (case defconfig of
        None \<Rightarrow> ret ()
      | Some dc \<Rightarrow>
          if policy \<noteq> RUNTIME_KSU_TAIL_RESUKISU_SUSFS then ret ()
          else
            bind (mapM (\<lambda>symbol. bind (config_state dc symbol) (\<lambda>state. ret (symbol, state)))
              [''KSU_TRACEPOINT_HOOK'', ''KSU_MANUAL_HOOK'', ''KSU_SUSFS'']) (\<lambda>modes.
            let enabled = map fst (filter (\<lambda>m. snd m = Some ''y'') modes)
            in if length enabled > 1 then
                 raise (InstallError (''ReSukiSU defconfig enables multiple hook modes: ''
                   @ py_join '', '' enabled))
               else if ''KSU_MANUAL_HOOK'' \<in> set enabled then
                 raise (InstallError
                   ''ReSukiSU manual LSM credential hooks are unsupported with ABK KSU Sandbox'')
               else
                 forM (\<lambda>symbol. bind (config_state dc symbol) (\<lambda>state.
                   raise_when (state = Some ''y'')
                     (InstallError (''ReSukiSU optional LSM hook CONFIG_'' @ symbol @ ''=y is unsupported''))))
                   [''KSU_MANUAL_HOOK_AUTO_SETUID_HOOK'', ''KSU_MANUAL_HOOK_AUTO_INITRC_HOOK'']))"

end
