(* ===== verification/Installer.thy ===== *)
theory Installer
  imports Patches_Kernel Resukisu
begin

text \<open>
  Synchronising the sandbox sources, the \<^verbatim>\<open>install\<close> and \<^verbatim>\<open>verify\<close> commands and \<^verbatim>\<open>main\<close>.
\<close>

subsection \<open>Build artefacts\<close>

definition source_stem :: regex where
  "source_stem = ralt (map RLit [''core'', ''policy'', ''namespace'', ''lsm''])"

definition KBUILD_ARTIFACT_PATTERNS :: "regex list" where
  "KBUILD_ARTIFACT_PATTERNS =
     [rseq [source_stem, RLit ''.o''],
      rseq [RLit ''.'', source_stem, RLit ''.o.'', ralt (map RLit [''cmd'', ''d''])],
      rseq [source_stem, RLit ''.'', ralt (map RLit [''ko'', ''mod'', ''mod.c'', ''mod.o''])],
      rseq [RLit ''.'', source_stem, RLit ''.'', ralt (map RLit [''ko'', ''mod'', ''mod.o'']), RLit ''.cmd''],
      RLit ''built-in.a'', RLit ''.built-in.a.cmd'', RLit ''modules.order'', RLit ''.modules.order.cmd'',
      RLit ''Module.symvers'']"

definition LEGACY_SOURCE_NAMES :: "string list" where
  "LEGACY_SOURCE_NAMES = [''abk_ksu_sandbox_api.h'']"

definition path_name :: "path \<Rightarrow> string" where
  "path_name p = (if p = [] then [] else last p)"

definition trusted_kbuild_artifact :: "path \<Rightarrow> bool" where
  "trusted_kbuild_artifact p \<longleftrightarrow>
     list_ex (\<lambda>pattern. re_fullmatch pattern (path_name p) \<noteq> None) KBUILD_ARTIFACT_PATTERNS"

subsection \<open>Synchronising the sources\<close>

text \<open>The inspection of the files already in the target: the build artefacts and the legacy
  sources, or an error for anything that is neither and not owned.\<close>

definition refuse :: "string \<Rightarrow> path \<Rightarrow> exn" where
  "refuse what p = InstallError (''refusing '' @ what @ '': '' @ str_path p)"

fun inspect_target :: "string list \<Rightarrow> path list \<Rightarrow> (path list \<times> path list) io" where
  "inspect_target owned_names [] = ret ([], [])"
| "inspect_target owned_names (existing # rest) =
     bind (gets fsys) (\<lambda>fs.
     if path_is_symlink fs existing then raise (refuse ''symlink in sandbox source target'' existing)
     else if path_is_dir fs existing then
       raise (refuse ''unexpected directory in sandbox source target'' existing)
     else if \<not> path_is_file fs existing then
       raise (refuse ''unexpected entry in sandbox source target'' existing)
     else if path_name existing \<in> set owned_names then
       bind (read existing) (\<lambda>t.
       if py_in MARKER t then inspect_target owned_names rest
       else raise (refuse ''non-ABK file in sandbox source target'' existing))
     else if path_name existing \<in> set LEGACY_SOURCE_NAMES then
       bind (read existing) (\<lambda>t.
       if \<not> py_in MARKER t then raise (refuse ''non-ABK legacy file in sandbox source target'' existing)
       else bind (inspect_target owned_names rest) (\<lambda>(artifacts, legacy).
         ret (artifacts, existing # legacy)))
     else if \<not> trusted_kbuild_artifact existing then
       raise (refuse ''unexpected file in sandbox source target'' existing)
     else bind (inspect_target owned_names rest) (\<lambda>(artifacts, legacy).
       ret (existing # artifacts, legacy)))"

text \<open>\<^verbatim>\<open>any(...)\<close> over the sources, stopping at the first one that differs.\<close>

fun any_source_changed :: "path \<Rightarrow> (string \<times> string) list \<Rightarrow> bool io" where
  "any_source_changed target [] = ret False"
| "any_source_changed target ((name, source_text) # rest) =
     bind (is_file (target @ [name])) (\<lambda>regular.
     if \<not> regular then ret True
     else bind (read (target @ [name])) (\<lambda>t.
       if t \<noteq> source_text then ret True else any_source_changed target rest))"

definition source_file_list :: "fs \<Rightarrow> path \<Rightarrow> path list" where
  "source_file_list fs source =
     filter (\<lambda>item. path_name item \<noteq> ''abk_ksu_sandbox_api.h'' \<and> path_is_file fs item)
       (path_iterdir fs source)"

definition copy_sources :: "path \<Rightarrow> path \<Rightarrow> unit io" where
  "copy_sources ksu_dir module_root =
     (let source = path_join module_root ''files/abk_ksu_sandbox'';
          target = ksu_dir @ [''abk_sandbox'']
      in bind (gets fsys) (\<lambda>fs.
         if \<not> path_is_dir fs source then
           raise (InstallError (''module source directory missing: '' @ str_path source))
         else if path_is_symlink fs target \<or> (path_exists fs target \<and> \<not> path_is_dir fs target) then
           raise (InstallError (''refusing conflicting sandbox source target: '' @ str_path target))
         else
           let source_files = source_file_list fs source;
               owned_names = map path_name source_files
           in bind (if path_is_dir fs target then inspect_target owned_names (path_iterdir fs target)
                    else ret ([], [])) (\<lambda>(build_artifacts, legacy_sources).
              bind (mapM (\<lambda>item. bind (read item) (\<lambda>t. ret (path_name item, t))) source_files) (\<lambda>source_texts.
              bind (any_source_changed target source_texts) (\<lambda>sources_changed.
              bind (whenM sources_changed
                (forM (\<lambda>artifact. remove_file artifact ''stale build artifact'') build_artifacts)) (\<lambda>_.
              bind (forM (\<lambda>legacy. remove_file legacy ''legacy source'') legacy_sources) (\<lambda>_.
              bind (record_directory target) (\<lambda>_.
              bind (mkdir_parents target) (\<lambda>_.
              bind (forM (\<lambda>(name, source_text).
                bind (raise_when (\<not> py_in MARKER source_text)
                  (InstallError (''module source is missing ownership marker: '' @ str_path (source @ [name])))) (\<lambda>_.
                write_file (target @ [name]) source_text)) source_texts) (\<lambda>_.
              say (''ABK KSU Sandbox: synchronized sources to '' @ str_path target)))))))))))"

subsection \<open>Install\<close>

definition patch_sources :: "layout \<Rightarrow> path \<Rightarrow> unit io" where
  "patch_sources layout module_root =
     bind (patch_escape (ksu layout)) (\<lambda>_.
     bind (patch_supercall_dispatch (ksu layout)) (\<lambda>_.
     bind (patch_allowlist (ksu layout)) (\<lambda>_.
     bind (patch_policy_lock_order (ksu layout)) (\<lambda>_.
     bind (patch_policy_reapply (ksu layout)) (\<lambda>_.
     bind (patch_sucompat_fail_closed layout) (\<lambda>_.
     bind (patch_resukisu_manual_fail_closed layout) (\<lambda>_.
     bind (patch_common_header (common layout) module_root) (\<lambda>_.
     bind (patch_lsm_count (common layout) (version layout)) (\<lambda>_.
     patch_kernel_hooks (common layout))))))))))"

definition install_body :: "layout \<Rightarrow> path \<Rightarrow> string \<Rightarrow> unit io" where
  "install_body layout module_root tail_policy =
     bind (copy_sources (ksu layout) module_root) (\<lambda>_.
     bind (bind (lift (kbuild_block tail_policy)) (install_kbuild (ksu layout @ [''Kbuild'']))) (\<lambda>_.
     bind (insert_before_last (ksu layout @ [''Kconfig'']) ''endmenu'' KCONFIG_BLOCK) (\<lambda>_.
     patch_sources layout module_root)))"

definition report :: "string \<Rightarrow> layout \<Rightarrow> string \<Rightarrow> unit io" where
  "report verb layout tail_policy =
     say (''ABK KSU Sandbox: '' @ verb @ '' variant='' @ variant layout @ '' kernel='' @ version layout
       @ '' runtime_ksu_tail_policy='' @ tail_policy @ '' ksu='' @ str_path (ksu layout))"

definition install :: "layout \<Rightarrow> path \<Rightarrow> path option \<Rightarrow> unit io" where
  "install layout module_root defconfig =
     bind (case defconfig of None \<Rightarrow> ret () | Some dc \<Rightarrow> validate_defconfig dc False) (\<lambda>_.
     bind (runtime_ksu_tail_policy layout) (\<lambda>tail_policy.
     bind (validate_runtime_ksu_tail_config tail_policy defconfig) (\<lambda>_.
     bind (with_transaction (install_body layout module_root tail_policy)) (\<lambda>_.
     report ''installed'' layout tail_policy))))"

subsection \<open>Verify\<close>

definition set_validation_only :: "bool \<Rightarrow> unit io" where
  "set_validation_only b = modify (\<lambda>s. s\<lparr>validation_only := b\<rparr>)"

text \<open>\<^verbatim>\<open>try: m finally: f\<close>\<close>

definition finally_do :: "unit io \<Rightarrow> unit io \<Rightarrow> unit io" where
  "finally_do m f = bind (catch m (\<lambda>e. bind f (\<lambda>_. raise e))) (\<lambda>_. f)"

definition validate_patch_sources :: "layout \<Rightarrow> path \<Rightarrow> unit io" where
  "validate_patch_sources layout module_root =
     bind (gets validation_only) (\<lambda>previous.
     bind (set_validation_only True) (\<lambda>_.
     finally_do (patch_sources layout module_root) (set_validation_only previous)))"

definition verify_needles :: "layout \<Rightarrow> (path \<times> string list) list" where
  "verify_needles layout =
     [(ksu layout @ [''Kbuild''],
       [MARKER, ''requires CONFIG_KSU_ABK_SANDBOX=y'', ''ABK_KSU_RUNTIME_TAIL_SOURCE_VERIFIED'',
        ''abk_sandbox/core.o'', ''abk_sandbox/policy.o'', ''abk_sandbox/namespace.o'', ''abk_sandbox/lsm.o'']),
      (ksu layout @ [''Kconfig''],
       [MARKER, ''config KSU_ABK_SANDBOX'', ''depends on KSU=y && SECURITY_SELINUX && NAMESPACES'']),
      (path_join (ksu layout) ''policy/app_profile.c'',
       [escape_marker, ''abk_sandbox_try_escape(&handled)'', ''if (handled)'', ''return sandbox_ret;'']),
      (path_join (ksu layout) ''supercall/dispatch.c'',
       [supercall_marker, sandbox_include, ''abk_sandbox_current(NULL, NULL)'', ''return -EPERM;'']),
      (path_join (ksu layout) ''policy/allowlist.c'',
       [revoke_marker, prune_marker, ''abk_sandbox_revoke_uid_async(profile->curr_uid)'',
        ''abk_sandbox_revoke_uid_async(uid)'']),
      (path_join (ksu layout) ''selinux/rules.c'',
       [lock_order_marker, ''old_pol = rcu_dereference_protected(selinux_state.policy,'',
        reapply_marker, ''abk_sandbox_policy_reapply(db)'']),
      (path_join (common layout) ''kernel/seccomp.c'',
       [seccomp_marker, seccomp_call]),
      (path_join (common layout) ''fs/namespace.c'',
       [mount_privilege_marker, ''!may_mount() && !abk_ksu_sandbox_may_mount()'', bind_marker,
        new_bind_validation, umount_privilege_marker, mount_result_marker,
        ''abk_ksu_sandbox_mount_result(path, ret)'', umount_marker,
        ''abk_ksu_sandbox_umount_validate(path, flags)'', ''abk_ksu_sandbox_umount_result(path, ret)'']),
      (path_join (common layout) ''kernel/ptrace.c'',
       [ptrace_marker, ''abk_ksu_sandbox_may_ptrace(tcred)'', ''abk_ksu_sandbox_may_ptrace_task(task)'']),
      (path_join (common layout) ''kernel/signal.c'',
       [signal_marker, ''abk_ksu_sandbox_may_signal(t)'']),
      (path_join (common layout) ''include/linux/abk_ksu_sandbox.h'', [MARKER])]"

definition check_needles :: "path \<times> string list \<Rightarrow> unit io" where
  "check_needles pn =
     bind (read (fst pn)) (\<lambda>text.
     forM (\<lambda>needle. raise_when (\<not> py_in needle text)
       (InstallError (''incomplete sandbox injection: '' @ py_repr needle @ '' missing from ''
         @ str_path (fst pn)))) (snd pn))"

text \<open>The public header must be included, and before the marker of the hook that uses it.\<close>

definition header_misplaced :: "string \<Rightarrow> string \<Rightarrow> bool res" where
  "header_misplaced text marker =
     (if \<not> py_in kernel_include text then Inr True
      else rbind (py_index text kernel_include) (\<lambda>i.
           rbind (py_index text marker) (\<lambda>j. Inr (i > j))))"

definition check_header_order :: "path \<Rightarrow> string \<times> string \<Rightarrow> unit io" where
  "check_header_order common_dir rm =
     (let path = path_join common_dir (fst rm)
      in bind (read path) (\<lambda>text.
         bind (lift (header_misplaced text (snd rm))) (\<lambda>bad.
         raise_when bad (InstallError (''ABK public header is missing or appears after its hook in ''
           @ str_path path)))))"

definition check_lsm_slot :: "layout \<Rightarrow> unit io" where
  "check_lsm_slot layout =
     (if version layout = ''6.12'' then
        bind (read (path_join (common layout) ''include/linux/lsm_count.h'')) (\<lambda>text.
        raise_when (\<not> py_in lsm_count_marker text)
          (InstallError ''ABK LSM slot is missing from include/linux/lsm_count.h''))
      else ret ())"

definition check_su_fail_closed :: "layout \<Rightarrow> unit io" where
  "check_su_fail_closed layout =
     bind (read (path_join (ksu layout) ''feature/sucompat.c'')) (\<lambda>text.
     if variant layout = ''resukisu'' then
       raise_when (\<not> py_in manual_su_marker text \<or> \<not> py_in ''return sandbox_ret;'' text)
         (InstallError ''ReSukiSU manual su path is not fail closed'')
     else
       raise_when (\<not> py_in sucompat_marker text \<or> \<not> py_in ''ksu_close_fd(tmp_fd);'' text
           \<or> \<not> py_in ''return ret;'' text)
         (InstallError ''KernelSU sucompat path is not fail closed''))"

definition sandbox_source_names :: "string list" where
  "sandbox_source_names = [''Makefile'', ''core.c'', ''policy.c'', ''namespace.c'', ''lsm.c'', ''abk_sandbox.h'',
     ''lsm_build_config.h'', ''lsm_order.h'']"

definition check_same :: "string \<Rightarrow> path \<Rightarrow> path \<Rightarrow> unit io" where
  "check_same message installed template =
     bind (read installed) (\<lambda>a.
     bind (read template) (\<lambda>b.
     raise_when (a \<noteq> b) (InstallError (message @ str_path installed))))"

definition verify :: "layout \<Rightarrow> path \<Rightarrow> path option \<Rightarrow> unit io" where
  "verify layout module_root defconfig =
     (let source_dir = path_join module_root ''files/abk_ksu_sandbox'';
          kbuild_path = ksu layout @ [''Kbuild'']
      in bind (runtime_ksu_tail_policy layout) (\<lambda>tail_policy.
         bind (validate_runtime_ksu_tail_config tail_policy defconfig) (\<lambda>_.
         bind (lift (kbuild_block tail_policy)) (\<lambda>block.
         bind (bind (read kbuild_path) (\<lambda>text. lift (installed_kbuild_block kbuild_path text))) (\<lambda>installed_kbuild.
         bind (raise_when (installed_kbuild \<noteq> py_strip block)
           (InstallError (''incomplete sandbox injection: installed ABK Kbuild runtime ''
             @ ''LSM-tail policy does not match the target configuration''))) (\<lambda>_.
         bind (validate_patch_sources layout module_root) (\<lambda>_.
         bind (bind (read (ksu layout @ [''Kconfig''])) (\<lambda>text.
           lift (installed_kconfig_block (ksu layout @ [''Kconfig'']) text))) (\<lambda>_.
         bind (forM check_needles (verify_needles layout)) (\<lambda>_.
         bind (forM (check_header_order (common layout))
           [(''kernel/seccomp.c'', seccomp_marker), (''fs/namespace.c'', mount_privilege_marker),
            (''kernel/ptrace.c'', ptrace_marker), (''kernel/signal.c'', signal_marker)]) (\<lambda>_.
         bind (check_lsm_slot layout) (\<lambda>_.
         bind (check_su_fail_closed layout) (\<lambda>_.
         bind (forM (\<lambda>source. check_same ''installed source differs from module template: ''
             (ksu layout @ [''abk_sandbox'', source]) (source_dir @ [source])) sandbox_source_names) (\<lambda>_.
         bind (check_same ''installed public header differs from module template: ''
           (path_join (common layout) ''include/linux/abk_ksu_sandbox.h'')
           (source_dir @ [''abk_ksu_sandbox_api.h''])) (\<lambda>_.
         bind (case defconfig of None \<Rightarrow> ret () | Some dc \<Rightarrow> validate_defconfig dc True) (\<lambda>_.
         report ''verified'' layout tail_policy)))))))))))))))"

subsection \<open>The command line\<close>

datatype command = Install | Verify | Detect

record args =
  command_of :: command
  kernel_root_arg :: path
  module_root_arg :: path
  defconfig_arg :: "path option"

definition run_command :: "args \<Rightarrow> unit io" where
  "run_command a =
     bind (gets (\<lambda>s. path_resolve (fsys s) (kernel_root_arg a))) (\<lambda>root.
     bind (discover root) (\<lambda>layout.
     case command_of a of
       Detect \<Rightarrow> say (''variant='' @ variant layout @ '' kernel='' @ version layout
         @ '' ksu='' @ str_path (ksu layout))
     | Install \<Rightarrow> bind (gets (\<lambda>s. path_resolve (fsys s) (module_root_arg a))) (\<lambda>module_root.
         install layout module_root (defconfig_arg a))
     | Verify \<Rightarrow> bind (gets (\<lambda>s. path_resolve (fsys s) (module_root_arg a))) (\<lambda>module_root.
         verify layout module_root (defconfig_arg a))))"

text \<open>\<^verbatim>\<open>main\<close>: exit status 1 with a message for an \<^verbatim>\<open>InstallError\<close>; other exceptions escape.\<close>

definition main :: "args \<Rightarrow> int io" where
  "main a =
     catch (bind (run_command a) (\<lambda>_. ret 0)) (\<lambda>e.
       case e of
         InstallError m \<Rightarrow> bind (complain (''ABK KSU Sandbox: error: '' @ m)) (\<lambda>_. ret 1)
       | _ \<Rightarrow> raise e)"

end
