(* ===== verification/Effects.thy ===== *)
theory Effects
  imports Installer
begin

text \<open>
  What the procedures of the installer do to the state, proved once for every relation that the
  file-system primitives respect. \<open>runs R m\<close> says that \<open>m\<close> relates its start state to its final
  state by \<open>R\<close>, whether it returns or raises. The locales \<open>state_relation\<close>, \<open>write_effects\<close> and
  \<open>install_effects\<close> are the interfaces between the primitives of \<open>Transaction\<close> and the procedures
  that call them.
\<close>

definition runs :: "(state \<Rightarrow> state \<Rightarrow> bool) \<Rightarrow> 'a io \<Rightarrow> bool" where
  "runs R m \<longleftrightarrow> (\<forall>s. R s (snd (m s)))"

text \<open>Procedures that leave the state as it is.\<close>

definition query :: "'a io \<Rightarrow> bool" where
  "query m \<longleftrightarrow> runs (\<lambda>s s'. s' = s) m"

named_theorems queries \<open>procedures that only read\<close>

lemma queryD: "query m \<Longrightarrow> snd (m s) = s"
  by (simp add: query_def runs_def)

lemma query_basic [queries]:
  "query (ret x)" "query (raise e)" "query (lift r)" "query (gets f)" "query (raise_when b e)"
  by (simp_all add: query_def runs_def ret_def raise_def lift_def gets_def raise_when_def)

lemma query_bind [queries]: "query m \<Longrightarrow> (\<And>x. query (f x)) \<Longrightarrow> query (bind m f)"
  by (auto simp: query_def runs_def bind_def split: prod.splits sum.splits) (metis snd_conv)+

lemma query_catch [queries]: "query m \<Longrightarrow> (\<And>e. query (h e)) \<Longrightarrow> query (catch m h)"
  by (auto simp: query_def runs_def catch_def split: prod.splits sum.splits) (metis snd_conv)+

lemma query_if [queries]: "query a \<Longrightarrow> query b \<Longrightarrow> query (if c then a else b)"
  by simp

lemma query_case_option [queries]:
  "query a \<Longrightarrow> (\<And>x. query (f x)) \<Longrightarrow> query (case o1 of None \<Rightarrow> a | Some x \<Rightarrow> f x)"
  by (simp split: option.splits)

lemma query_case_prod [queries]: "(\<And>x y. query (f x y)) \<Longrightarrow> query (case p of (x, y) \<Rightarrow> f x y)"
  by (simp split: prod.splits)

lemma query_forM [queries]: "(\<And>x. query (f x)) \<Longrightarrow> query (forM f xs)"
  by (induction xs) (auto intro: queries)

lemma query_mapM [queries]: "(\<And>x. query (f x)) \<Longrightarrow> query (mapM f xs)"
  by (induction xs) (auto intro!: queries)

lemma query_tests [queries]:
  "query (exists_p p)" "query (is_file p)" "query (is_dir p)" "query (is_symlink p)"
  unfolding exists_p_def is_file_def is_dir_def is_symlink_def by (auto intro: queries)

lemma query_read_text [queries]: "query (read_text p)"
  unfolding read_text_def by (intro queries) (auto split: node.splits option.splits intro: queries)

lemma query_read [queries]: "query (read p)"
  unfolding read_def by (intro queries)

lemma query_config_state [queries]: "query (config_state p symbol)"
  unfolding config_state_def by (intro queries)

lemma query_require_config [queries]: "query (require_config p sm)"
  unfolding require_config_def by (intro queries)

lemma query_validate_defconfig [queries]: "query (validate_defconfig p b)"
  unfolding validate_defconfig_def require_config_def by (intro queries)

lemma query_tail_policy [queries]: "query (runtime_ksu_tail_policy l)"
  unfolding runtime_ksu_tail_policy_def validate_resukisu_runtime_lsm_hooks_def Let_def
  by (intro queries)

lemma query_tail_config [queries]: "query (validate_runtime_ksu_tail_config policy dc)"
  unfolding validate_runtime_ksu_tail_config_def Let_def by (intro queries)

lemma query_discover [queries]: "query (discover root)"
  unfolding discover_def kernel_common_def detect_variant_def kernel_version_def Let_def
  by (intro queries) (auto split: list.splits intro!: queries)

lemma query_inspect_target [queries]: "query (inspect_target names ps)"
  by (induction ps) (auto intro!: queries)

lemma query_any_source_changed [queries]: "query (any_source_changed target ts)"
  by (induction target ts rule: any_source_changed.induct) (auto intro!: queries)

lemma query_verify_checks [queries]:
  "query (check_needles pn)" "query (check_header_order d rm)" "query (check_lsm_slot l)"
  "query (check_su_fail_closed l)" "query (check_same m a b)"
  unfolding check_needles_def check_header_order_def check_lsm_slot_def check_su_fail_closed_def
    check_same_def Let_def
  by (intro queries)+

subsection \<open>Successful runs\<close>

lemma bind_ok: "bind m f s = (Inr y, s') \<longleftrightarrow> (\<exists>x u. m s = (Inr x, u) \<and> f x u = (Inr y, s'))"
  by (auto simp: bind_def split: prod.splits sum.splits)

lemma query_bind_ok: "query m \<Longrightarrow> bind m f s = (Inr y, s') \<Longrightarrow> \<exists>x. m s = (Inr x, s) \<and> f x s = (Inr y, s')"
  using queryD [of m s] by (fastforce simp: bind_ok)

lemma fst_bind: "fst (bind m f s) = Inr y \<longleftrightarrow> (\<exists>x. fst (m s) = Inr x \<and> fst (f x (snd (m s))) = Inr y)"
  by (auto simp: bind_def split: prod.splits sum.splits)

lemma read_outcome:
  "(\<exists>raw. stat (fsys s) p = Some (FileN raw) \<and> read p s = (Inr (universal_newlines raw), s)) \<or>
   (\<nexists>raw. stat (fsys s) p = Some (FileN raw)) \<and> (\<exists>e. read p s = (Inl e, s))"
  by (auto simp: read_def read_text_def catch_def bind_def gets_def ret_def raise_def split: option.splits node.splits)

subsection \<open>Relations that the primitives respect\<close>

locale state_relation =
  fixes R :: "state \<Rightarrow> state \<Rightarrow> bool"
  assumes R_refl: "R s s"
    and R_trans: "R s t \<Longrightarrow> R t u \<Longrightarrow> R s u"
    and R_stdout: "R s (s\<lparr>stdout := lines\<rparr>)"
    and R_stderr: "R s (s\<lparr>stderr := lines\<rparr>)"
begin

lemma runs_query: "query m \<Longrightarrow> runs R m"
  by (simp add: runs_def queryD R_refl)

lemma runs_bind: "runs R m \<Longrightarrow> (\<And>x. runs R (f x)) \<Longrightarrow> runs R (bind m f)"
  unfolding runs_def bind_def
  by (auto split: prod.splits sum.splits) (metis snd_conv, metis R_trans snd_conv)

lemma runs_bind_result:
  "runs R m \<Longrightarrow> (\<And>s x. fst (m s) = Inr x \<Longrightarrow> runs R (f x)) \<Longrightarrow> runs R (bind m f)"
  unfolding runs_def bind_def
  by (auto split: prod.splits sum.splits) (metis snd_conv, metis R_trans fst_conv snd_conv)

lemma runs_catch: "runs R m \<Longrightarrow> (\<And>e. runs R (h e)) \<Longrightarrow> runs R (catch m h)"
  unfolding runs_def catch_def
  by (auto split: prod.splits sum.splits) (metis R_trans snd_conv, metis snd_conv)

lemma runs_say: "runs R (say line)"
  by (simp add: runs_def say_def modify_def R_stdout)

lemma runs_complain: "runs R (complain line)"
  by (simp add: runs_def complain_def modify_def R_stderr)

lemma runs_if: "runs R a \<Longrightarrow> runs R b \<Longrightarrow> runs R (if c then a else b)"
  by simp

lemma runs_case_option:
  "runs R a \<Longrightarrow> (\<And>x. runs R (f x)) \<Longrightarrow> runs R (case o1 of None \<Rightarrow> a | Some x \<Rightarrow> f x)"
  by (simp split: option.splits)

lemma runs_case_prod: "(\<And>x y. runs R (f x y)) \<Longrightarrow> runs R (case p of (x, y) \<Rightarrow> f x y)"
  by (simp split: prod.splits)

lemma runs_whenM: "runs R m \<Longrightarrow> runs R (whenM b m)"
  by (simp add: whenM_def runs_query queries)

lemma runs_forM_in: "(\<And>x. x \<in> set xs \<Longrightarrow> runs R (f x)) \<Longrightarrow> runs R (forM f xs)"
  by (induction xs) (auto intro: runs_bind runs_query queries)

lemma runs_forM: "(\<And>x. runs R (f x)) \<Longrightarrow> runs R (forM f xs)"
  by (rule runs_forM_in)

lemmas runs_rules = runs_bind runs_catch runs_say runs_complain runs_if runs_case_option
  runs_case_prod runs_whenM runs_forM

lemma runs_mkdir_parents_in:
  assumes "\<And>q. prefix q p \<Longrightarrow> runs R (os_mkdir q)"
  shows "runs R (mkdir_parents p)"
  using assms
proof (induction p rule: mkdir_parents.induct)
  case (1 p)
  have here: "runs R (os_mkdir p)" using "1.prems" by simp
  then have ok: "runs R (mkdir_exist_ok p)"
    unfolding mkdir_exist_ok_def by (intro runs_catch) (assumption, intro runs_query queries)
  have up: "runs R (os_mkdir q)" if "prefix q (butlast p)" for q
    using "1.prems" that prefix_order.trans [OF that prefixeq_butlast] by blast
  have "runs R (if e = OSErr ENOENT p then
      (if p = [] then raise e else bind (mkdir_parents (butlast p)) (\<lambda>_. mkdir_exist_ok p))
      else bind (is_dir p) (\<lambda>d. if d then ret () else raise e))" for e
    using "1.IH" up ok by (auto intro!: runs_bind runs_query [OF query_basic(1)] runs_query [OF query_basic(2)]
        runs_query [OF query_tests(3)])
  then show ?case
    by (subst mkdir_parents.simps) (intro runs_catch here)
qed

lemma runs_mkdir_parents: "(\<And>p. runs R (os_mkdir p)) \<Longrightarrow> runs R (mkdir_parents p)"
  by (rule runs_mkdir_parents_in)

lemma runs_report: "runs R (report verb l policy)"
  unfolding report_def by (rule runs_say)

end

subsection \<open>What the installer writes\<close>

text \<open>The files that an installation into a layout may change, besides those of its own directory \<^verbatim>\<open>abk_sandbox\<close>.\<close>

definition ksu_targets :: "path \<Rightarrow> path list" where
  "ksu_targets k = map (path_join k) [''policy/app_profile.c'', ''supercall/dispatch.c'', ''policy/allowlist.c'',
     ''selinux/rules.c'', ''feature/sucompat.c'']"

definition common_targets :: "path \<Rightarrow> path list" where
  "common_targets c = map (path_join c) [''include/linux/abk_ksu_sandbox.h'', ''include/linux/lsm_count.h'',
     ''kernel/seccomp.c'', ''fs/namespace.c'', ''kernel/ptrace.c'', ''kernel/signal.c'']"

definition build_targets :: "path \<Rightarrow> path list" where
  "build_targets k = [k @ [''Kbuild''], k @ [''Kconfig'']]"

definition install_target :: "layout \<Rightarrow> path \<Rightarrow> bool" where
  "install_target l p \<longleftrightarrow>
     p \<in> set (build_targets (ksu l) @ ksu_targets (ksu l) @ common_targets (common l)) \<or>
     p \<noteq> [] \<and> butlast p = ksu l @ [''abk_sandbox'']"

text \<open>The patches change the state through \<^verbatim>\<open>write\<close> only, and only at their targets.\<close>

locale write_effects = state_relation +
  fixes allowed :: "path \<Rightarrow> bool"
  assumes R_write: "allowed p \<Longrightarrow> runs R (write_file p contents)"
begin

lemma runs_edit_file: "allowed p \<Longrightarrow> runs R (edit_file p edit)"
  unfolding edit_file_def by (intro runs_rules R_write runs_query queries)

lemma runs_write_result: "allowed p \<Longrightarrow> runs R (write_result p edited)"
  unfolding write_result_def by (intro runs_rules R_write runs_query queries)

lemma runs_read_with_include: "allowed p \<Longrightarrow> runs R (read_with_include p)"
  unfolding read_with_include_def by (intro runs_rules R_write runs_query queries)

lemma runs_install_kbuild: "allowed p \<Longrightarrow> runs R (install_kbuild p block)"
  unfolding install_kbuild_def Let_def by (intro runs_rules R_write runs_query queries)

lemma runs_insert_before_last: "allowed p \<Longrightarrow> runs R (insert_before_last p needle block)"
  unfolding insert_before_last_def Let_def by (intro runs_rules R_write runs_query queries)

lemma runs_ksu_patches:
  assumes "list_all allowed (ksu_targets k)"
  shows "runs R (patch_escape k)" "runs R (patch_supercall_dispatch k)" "runs R (patch_allowlist k)"
    "runs R (patch_policy_lock_order k)" "runs R (patch_policy_reapply k)"
  using assms unfolding patch_escape_def patch_supercall_dispatch_def patch_allowlist_def
    patch_policy_lock_order_def patch_policy_reapply_def Let_def ksu_targets_def list.map list.pred_inject
  by (blast intro: runs_edit_file)+

lemma runs_su_patches:
  assumes "list_all allowed (ksu_targets (ksu l))"
  shows "runs R (patch_sucompat_fail_closed l)" "runs R (patch_resukisu_manual_fail_closed l)"
  using assms unfolding patch_sucompat_fail_closed_def
    patch_resukisu_manual_fail_closed_def Let_def ksu_targets_def list.map list.pred_inject
  by (blast intro: runs_edit_file runs_if runs_query queries)+

lemma runs_patch_bind: "allowed p \<Longrightarrow> runs R (patch_bind p)"
  unfolding patch_bind_def by (intro runs_rules runs_write_result R_write runs_query queries)

lemma runs_common_patches:
  assumes "list_all allowed (common_targets c)"
  shows "runs R (patch_common_header c root)" "runs R (patch_lsm_count c v)"
  using assms unfolding patch_common_header_def patch_lsm_count_def Let_def common_targets_def list.map list.pred_inject
  by (intro runs_edit_file R_write runs_rules runs_query queries; blast)+

lemma runs_patch_kernel_hooks:
  assumes "list_all allowed (common_targets c)"
  shows "runs R (patch_kernel_hooks c)"
  using assms unfolding patch_kernel_hooks_def patch_seccomp_def patch_mount_privilege_def
    patch_umount_privilege_def patch_mount_result_def patch_umount_validate_def patch_ptrace_def
    patch_signal_def Let_def common_targets_def list.map list.pred_inject
  by (intro runs_rules runs_patch_bind runs_edit_file runs_write_result runs_read_with_include; blast)

lemma runs_patch_sources:
  assumes "list_all allowed (ksu_targets (ksu l))" "list_all allowed (common_targets (common l))"
  shows "runs R (patch_sources l root)"
  unfolding patch_sources_def
  by (intro runs_bind runs_ksu_patches runs_su_patches runs_common_patches runs_patch_kernel_hooks assms)

end

text \<open>Synchronising the sources also removes files and creates the target directory.\<close>

lemma inspect_target_subset:
  "fst (inspect_target names ps s) = Inr (artifacts, legacy) \<Longrightarrow> set artifacts \<union> set legacy \<subseteq> set ps"
proof (induction ps arbitrary: s artifacts legacy)
  case (Cons p ps)
  have read: "snd (read p s) = s" for s by (rule queryD [OF query_read])
  show ?case
  proof (cases "fst (inspect_target names (p # ps) s) = fst (inspect_target names ps s)")
    case True
    from Cons.prems [unfolded True] show ?thesis by (rule subset_trans [OF Cons.IH]) auto
  next
    case False
    with Cons.prems obtain a b where "fst (inspect_target names ps s) = Inr (a, b)"
      "set artifacts \<union> set legacy = insert p (set a \<union> set b)"
      using read [of s]
      by (auto simp: bind_def gets_def raise_def ret_def split: prod.splits sum.splits if_splits)
    with Cons.IH [of s a b] show ?thesis by auto
  qed
qed (simp add: ret_def)

lemma path_iterdir_children: "q \<in> set (path_iterdir fs p) \<Longrightarrow> \<exists>n. q = p @ [n]"
  by (auto simp: path_iterdir_def split: option.splits)

locale install_effects = write_effects +
  assumes R_remove: "allowed p \<Longrightarrow> runs R (remove_file p description)"
    and R_directory: "(\<And>n. allowed (p @ [n])) \<Longrightarrow> runs R (bind (record_directory p) (\<lambda>_. mkdir_parents p))"
begin

lemma bind_assoc: "bind a (\<lambda>x. bind (b x) c) = bind (bind a b) c"
  by (rule ext) (simp add: bind_def split: prod.splits sum.splits)

lemma runs_directory_then:
  "(\<And>n. allowed (p @ [n])) \<Longrightarrow> (\<And>x. runs R (f x)) \<Longrightarrow>
   runs R (bind (record_directory p) (\<lambda>_. bind (mkdir_parents p) f))"
  by (simp add: bind_assoc runs_bind R_directory)

lemma runs_copy_sources:
  assumes own: "\<And>n. allowed (k @ [''abk_sandbox''] @ [n])"
  shows "runs R (copy_sources k root)"
proof -
  let ?target = "k @ [''abk_sandbox'']"
  have own': "allowed (?target @ [n])" for n using own by simp
  have remove: "runs R (forM (\<lambda>x. remove_file x d) xs)" if sub: "set xs \<subseteq> set (path_iterdir fs ?target)" for xs d fs
  proof (intro runs_forM_in R_remove)
    fix x assume "x \<in> set xs"
    then obtain n where "x = ?target @ [n]" using sub path_iterdir_children by blast
    then show "allowed x" using own' by simp
  qed
  have inspected: "set a \<subseteq> set (path_iterdir fs ?target) \<and> set b \<subseteq> set (path_iterdir fs ?target)"
    if "fst ((if path_is_dir fs ?target then inspect_target names (path_iterdir fs ?target) else ret ([], [])) s) = Inr (a, b)"
    for names fs s a b
    using that inspect_target_subset [of names "path_iterdir fs ?target" s a b] by (auto simp: ret_def split: if_splits)
  show ?thesis
    unfolding copy_sources_def Let_def
    apply (intro runs_bind [OF runs_query [OF query_basic(4)]] runs_if runs_query [OF query_basic(2)])
    apply (rule runs_bind_result)
    subgoal by (intro runs_query queries)
    subgoal for fs s x
      apply (cases x, simp only: prod.case)
      apply (drule inspected, elim conjE)
      apply (intro runs_bind [OF runs_query [OF query_mapM]] runs_bind [OF runs_query [OF query_any_source_changed]]
          runs_bind [OF runs_whenM [OF remove]] runs_bind [OF remove] queries)
      apply assumption
      apply assumption
      apply (intro runs_directory_then own' runs_bind runs_forM runs_case_prod R_write runs_say runs_query [OF query_basic(5)])
      done
    done
qed

lemma runs_install_body:
  assumes "\<And>p. install_target l p \<Longrightarrow> allowed p"
  shows "runs R (install_body l root policy)"
proof -
  have "list_all allowed (ksu_targets (ksu l))" "list_all allowed (common_targets (common l))"
    "allowed (ksu l @ [''Kbuild''])" "allowed (ksu l @ [''Kconfig''])" "allowed (ksu l @ [''abk_sandbox''] @ [n])" for n
    using assms by (auto simp: list_all_iff install_target_def build_targets_def butlast_append)
  then show ?thesis
    unfolding install_body_def
    by (intro runs_bind runs_copy_sources runs_install_kbuild runs_insert_before_last
        runs_patch_sources runs_query [OF query_basic(3)])
qed

end

end
