(* ===== verification/Read_Only.thy ===== *)
theory Read_Only
  imports Effects
begin

text \<open>
  In validation mode the patches only check: the relation \<open>frozen\<close> is respected by \<^verbatim>\<open>write\<close> and so,
  by the locale \<open>write_effects\<close>, by every patch. The \<^verbatim>\<open>verify\<close> and \<^verbatim>\<open>detect\<close> commands therefore never
  change the file system.
\<close>

text \<open>What the \<^verbatim>\<open>verify\<close> command keeps: everything but the two output streams.\<close>

definition same_tree :: "state \<Rightarrow> state \<Rightarrow> bool" where
  "same_tree s s' \<longleftrightarrow> fsys s' = fsys s \<and> active_transaction s' = active_transaction s \<and>
     validation_only s' = validation_only s"

definition frozen :: "state \<Rightarrow> state \<Rightarrow> bool" where
  "frozen s s' \<longleftrightarrow> (validation_only s \<longrightarrow> same_tree s s')"

lemma frozen_write_file: "runs frozen (write_file p contents)"
  unfolding runs_def
proof
  fix s :: state
  have "query (if path_exists (fsys s) p then bind (read_text p) (\<lambda>t. ret (Some t)) else ret None)"
    by (intro queries)
  then have "snd ((if path_exists (fsys s) p then bind (read_text p) (\<lambda>t. ret (Some t)) else ret None) s) = s"
    by (rule queryD)
  then have "validation_only s \<Longrightarrow> snd (write_file p contents s) = s"
    by (auto simp: write_file_def bind_def exists_p_def gets_def raise_def ret_def
        split: prod.splits sum.splits)
  then show "frozen s (snd (write_file p contents s))"
    by (simp add: frozen_def same_tree_def)
qed

interpretation frozen_writes: write_effects frozen "\<lambda>_. True"
proof
  show "frozen s u" if "frozen s t" "frozen t u" for s t u
    using that by (auto simp: frozen_def same_tree_def)
qed (auto simp: frozen_def same_tree_def frozen_write_file)

interpretation tree: state_relation same_tree
  by unfold_locales (auto simp: same_tree_def)

lemma same_tree_validate_patch_sources: "runs same_tree (validate_patch_sources l root)"
  unfolding runs_def
proof
  fix s :: state
  let ?s = "s\<lparr>validation_only := True\<rparr>"
  have "frozen ?s (snd (patch_sources l root ?s))"
    using frozen_writes.runs_patch_sources [of l root] by (simp add: runs_def list_all_iff)
  then show "same_tree s (snd (validate_patch_sources l root s))"
    by (auto simp: validate_patch_sources_def finally_do_def bind_def catch_def gets_def modify_def
        raise_def set_validation_only_def frozen_def same_tree_def split: prod.splits sum.splits)
qed

lemma same_tree_verify: "runs same_tree (verify l root dc)"
  unfolding verify_def Let_def
  by (intro tree.runs_bind same_tree_validate_patch_sources tree.runs_report tree.runs_query queries)

subsection \<open>Properties\<close>

text \<open>
  C14: verification is read-only. Whatever the tree looks like and whatever the outcome, the
  \<^verbatim>\<open>verify\<close> command leaves the file system, the active transaction and the validation flag as it
  found them, although it runs all patch procedures.
\<close>

theorem verify_read_only:
  "fsys (snd (verify l root dc s)) = fsys s \<and>
   active_transaction (snd (verify l root dc s)) = active_transaction s \<and>
   validation_only (snd (verify l root dc s)) = validation_only s"
  using same_tree_verify [of l root dc] by (simp add: runs_def same_tree_def)

text \<open>
  C15: the command line changes the tree only for \<^verbatim>\<open>install\<close>: \<^verbatim>\<open>main\<close> with the command \<^verbatim>\<open>verify\<close> or
  \<^verbatim>\<open>detect\<close> leaves the file system unchanged, on success and on every error.
\<close>

theorem main_changes_tree_only_on_install:
  assumes "command_of a \<noteq> Install"
  shows "fsys (snd (main a s)) = fsys s"
proof -
  have "runs same_tree (run_command a)"
    unfolding run_command_def
    by (intro tree.runs_bind tree.runs_query [OF query_basic(4)] tree.runs_query [OF query_discover])
      (cases "command_of a"; simp add: assms tree.runs_say tree.runs_bind
        tree.runs_query [OF query_basic(4)] same_tree_verify)
  then have "runs same_tree (bind (run_command a) (\<lambda>_. ret (0 :: int)))"
    by (intro tree.runs_bind tree.runs_query [OF query_basic(1)])
  moreover have "runs same_tree (case e of
         InstallError m \<Rightarrow> bind (complain (''ABK KSU Sandbox: error: '' @ m)) (\<lambda>_. ret (1 :: int))
       | _ \<Rightarrow> raise e)" for e
    by (cases e) (simp_all add: tree.runs_bind tree.runs_complain tree.runs_query queries)
  ultimately have "runs same_tree (main a)"
    unfolding main_def by (rule tree.runs_catch)
  then show ?thesis by (simp add: runs_def same_tree_def)
qed

theorem main_changes_tree_only_on_install_witness:
  "fsys (snd (main \<lparr>command_of = Verify, kernel_root_arg = [''k''], module_root_arg = [''m''],
       defconfig_arg = None\<rparr>
     \<lparr>fsys = [([], DirN), ([''k''], DirN), ([''k'', ''Makefile''], FileN ''VERSION = 6\<newline>'')],
      active_transaction = None, validation_only = False, work_mode = [], stdout = [], stderr = []\<rparr>))
   = [([], DirN), ([''k''], DirN), ([''k'', ''Makefile''], FileN ''VERSION = 6\<newline>'')]"
  by (subst main_changes_tree_only_on_install) simp_all

end
