(* ===== verification/Verify_Laws.thy ===== *)
theory Verify_Laws
  imports Read_Only
begin

text \<open>
  What a successful \<^verbatim>\<open>verify\<close> means for \<^verbatim>\<open>install\<close>: \<^verbatim>\<open>verify\<close> runs the patches in a mode in which a write of
  a changed text is an error, so when it returns, the patches have nothing left to do.
\<close>

subsection \<open>Procedures that do not look at the validation flag\<close>

abbreviation validating :: "bool \<Rightarrow> state \<Rightarrow> state" where
  "validating b s \<equiv> s\<lparr>validation_only := b\<rparr>"

definition blind :: "'a io \<Rightarrow> bool" where
  "blind m \<longleftrightarrow> query m \<and> (\<forall>s b. fst (m (validating b s)) = fst (m s))"

named_theorems blind_rules

lemma blind_basic [blind_rules]: "blind (ret x)" "blind (raise e)" "blind (lift r)" "blind (raise_when b e)"
  using query_basic by (auto simp: blind_def ret_def raise_def lift_def raise_when_def)

lemma blind_gets [blind_rules]: "blind (gets fsys)" "blind (exists_p p)"
  using query_basic(4) by (simp_all add: blind_def gets_def exists_p_def)

lemma fst_query_bind: "query m \<Longrightarrow> fst (bind m f s) = (case fst (m s) of Inl e \<Rightarrow> Inl e | Inr x \<Rightarrow> fst (f x s))"
  using queryD [of m s] by (auto simp: bind_def split: prod.splits sum.splits)

lemma blind_bind [blind_rules]: "blind m \<Longrightarrow> (\<And>x. blind (f x)) \<Longrightarrow> blind (bind m f)"
  by (auto simp: blind_def fst_query_bind query_bind split: sum.splits)

lemma blind_if [blind_rules]: "blind a \<Longrightarrow> blind b \<Longrightarrow> blind (if c then a else b)"
  by simp

lemma blind_read [blind_rules]: "blind (read p)"
  using query_read [of p] by (auto simp: blind_def read_def read_text_def catch_def bind_def gets_def ret_def raise_def
      split: option.splits node.splits)

lemma blind_read_text: "blind (read_text p)"
  using query_read_text [of p] by (auto simp: blind_def read_text_def bind_def gets_def ret_def raise_def split: option.splits node.splits)

lemma blind_run: "blind m \<Longrightarrow> m (validating b s) = (fst (m s), validating b s)"
  by (simp add: blind_def) (metis prod.collapse queryD)

subsection \<open>Procedures that a validation run covers\<close>

text \<open>
  The two modes agree on the runs without an effect: \<open>m\<close> returns in validation mode exactly when it returns outside that mode without
  printing a line, with the same result, and then it changes nothing in either mode. Every effect of \<^verbatim>\<open>write\<close> prints a line.
\<close>

definition mirrored :: "'a io \<Rightarrow> bool" where
  "mirrored m \<longleftrightarrow> (\<forall>s. let on = m (validating True s); off = m (validating False s) in
     prefix (stdout s) (stdout (snd off)) \<and> \<not> validation_only (snd off) \<and>
     (\<forall>x. (fst on = Inr x) = (fst off = Inr x \<and> stdout (snd off) = stdout s)) \<and>
     (\<forall>x. fst on = Inr x \<longrightarrow> snd on = validating True s \<and> snd off = validating False s))"

lemma mirroredD:
  assumes "mirrored m" "m (validating False s) = (r, u)"
  shows "prefix (stdout s) (stdout u)" "\<not> validation_only u"
    "r = Inr x \<Longrightarrow> stdout u = stdout s \<Longrightarrow> u = validating False s \<and> m (validating True s) = (Inr x, validating True s)"
    "m (validating True s) = (Inr x, v) \<Longrightarrow> v = validating True s \<and> r = Inr x \<and> u = validating False s"
  using assms unfolding mirrored_def Let_def by (auto simp: prod_eq_iff dest!: spec [of _ s])

lemma mirroredI:
  assumes "\<And>s r u. m (validating False s) = (r, u) \<Longrightarrow> prefix (stdout s) (stdout u) \<and> \<not> validation_only u"
    and "\<And>s x v. m (validating True s) = (Inr x, v) \<Longrightarrow> v = validating True s \<and> m (validating False s) = (Inr x, validating False s)"
    and "\<And>s x u. m (validating False s) = (Inr x, u) \<Longrightarrow> stdout u = stdout s \<Longrightarrow> fst (m (validating True s)) = Inr x"
  shows "mirrored m"
  unfolding mirrored_def Let_def
proof (intro allI conjI iffI impI; (elim conjE)?)
  fix s :: state
  show "prefix (stdout s) (stdout (snd (m (validating False s))))" "\<not> validation_only (snd (m (validating False s)))"
    using assms(1) by (metis prod.collapse)+
  fix x
  show "fst (m (validating True s)) = Inr x" if "fst (m (validating False s)) = Inr x" "stdout (snd (m (validating False s))) = stdout s"
    using assms(3) that by (metis prod.collapse)
  assume "fst (m (validating True s)) = Inr x"
  then have "m (validating True s) = (Inr x, snd (m (validating True s)))" by (metis prod.collapse)
  from assms(2) [OF this] show "fst (m (validating False s)) = Inr x" "stdout (snd (m (validating False s))) = stdout s"
    "snd (m (validating True s)) = validating True s" "snd (m (validating False s)) = validating False s" by simp_all
qed

lemma mirrored_blind: "blind m \<Longrightarrow> mirrored m"
  by (rule mirroredI) (auto simp: blind_run)

lemma flag_off: "\<not> validation_only u \<Longrightarrow> validating False u = u"
  by (cases u) simp

lemma mirrored_bind:
  assumes m: "mirrored m" and f: "\<And>x. mirrored (f x)"
  shows "mirrored (bind m f)"
proof (rule mirroredI)
  fix s :: state and r u
  assume run: "bind m f (validating False s) = (r, u)"
  obtain y v where v: "m (validating False s) = (y, v)" by fastforce
  note mv = mirroredD(1,2) [OF m v]
  show "prefix (stdout s) (stdout u) \<and> \<not> validation_only u"
  proof (cases y)
    case (Inl e)
    with run v mv show ?thesis by (auto simp: bind_def)
  next
    case (Inr x)
    with run v have "f x (validating False v) = (r, u)" by (simp add: bind_def flag_off [OF mv(2)])
    from mirroredD(1,2) [OF f this] mv(1) show ?thesis using prefix_order.trans by blast
  qed
next
  fix s :: state and x v
  assume "bind m f (validating True s) = (Inr x, v)"
  then obtain y u where u: "m (validating True s) = (Inr y, u)" "f y u = (Inr x, v)" unfolding bind_ok by blast
  obtain r w where w: "m (validating False s) = (r, w)" by fastforce
  from mirroredD(4) [OF m w u(1)] have *: "u = validating True s" "m (validating False s) = (Inr y, validating False s)" using w by auto
  obtain r' w' where w': "f y (validating False s) = (r', w')" by fastforce
  from mirroredD(4) [OF f w'] u(2) * w' show "v = validating True s \<and> bind m f (validating False s) = (Inr x, validating False s)"
    by (simp add: bind_def)
next
  fix s :: state and x u
  assume "bind m f (validating False s) = (Inr x, u)" and same: "stdout u = stdout s"
  then obtain y v where v: "m (validating False s) = (Inr y, v)" and "f y v = (Inr x, u)" unfolding bind_ok by blast
  then have fv: "f y (validating False v) = (Inr x, u)" by (simp add: flag_off [OF mirroredD(2) [OF m v]])
  have "stdout v = stdout s"
    using mirroredD(1) [OF m v] mirroredD(1) [OF f fv] same by (metis prefix_order.antisym)
  from mirroredD(3) [OF m v refl this] have mv: "v = validating False s" "m (validating True s) = (Inr y, validating True s)" by auto
  from fv mv(1) have "f y (validating False s) = (Inr x, u)" by simp
  from mirroredD(3) [OF f this refl same] mv(2) show "fst (bind m f (validating True s)) = Inr x" by (simp add: bind_def)
qed

lemma mirrored_if: "mirrored a \<Longrightarrow> mirrored b \<Longrightarrow> mirrored (if c then a else b)"
  by simp

lemma mirrored_case_option: "mirrored a \<Longrightarrow> (\<And>x. mirrored (f x)) \<Longrightarrow> mirrored (case o1 of None \<Rightarrow> a | Some x \<Rightarrow> f x)"
  by (simp split: option.splits)

lemma mirrored_whenM: "mirrored m \<Longrightarrow> mirrored (whenM b m)"
  by (simp add: whenM_def mirrored_blind blind_basic)

subsection \<open>Writing\<close>

text \<open>The parts of \<^verbatim>\<open>write\<close> print nothing; its last step prints a line.\<close>

definition quiet :: "'a io \<Rightarrow> bool" where
  "quiet m \<longleftrightarrow> (\<forall>s. stdout (snd (m s)) = stdout s \<and> validation_only (snd (m s)) = validation_only s)"

lemma quiet_query: "query m \<Longrightarrow> quiet m"
  by (simp add: quiet_def queryD)

lemma quiet_bind: "quiet m \<Longrightarrow> (\<And>x. quiet (f x)) \<Longrightarrow> quiet (bind m f)"
  unfolding quiet_def bind_def by (auto split: prod.splits sum.splits) (metis snd_conv)+

lemma quiet_catch: "quiet m \<Longrightarrow> (\<And>e. quiet (h e)) \<Longrightarrow> quiet (catch m h)"
  unfolding quiet_def catch_def by (auto split: prod.splits sum.splits) (metis snd_conv)+

lemma quiet_if: "quiet a \<Longrightarrow> quiet b \<Longrightarrow> quiet (if c then a else b)"
  by simp

lemma quiet_set: "quiet (set_fs fs)" "quiet (set_txn t)"
  by (simp_all add: quiet_def set_fs_def set_txn_def modify_def)

lemma quiet_store: "quiet (store p n)" "quiet (os_mkdir p)"
  by (auto simp: quiet_def store_def os_mkdir_def bind_def gets_def raise_def set_fs_def modify_def split: option.splits node.splits)

lemma quiet_mkdir_parents: "quiet (mkdir_parents p)"
proof (induction p rule: mkdir_parents.induct)
  case (1 p)
  have "quiet (mkdir_exist_ok p)"
    unfolding mkdir_exist_ok_def by (intro quiet_catch quiet_store quiet_query queries)
  with 1 have "quiet (if e = OSErr ENOENT p then (if p = [] then raise e else bind (mkdir_parents (butlast p)) (\<lambda>_. mkdir_exist_ok p))
      else bind (is_dir p) (\<lambda>d. if d then ret () else raise e))" for e
    by (auto intro!: quiet_bind quiet_query [OF query_basic(1)] quiet_query [OF query_basic(2)] quiet_query [OF query_tests(3)])
  then show ?case by (subst mkdir_parents.simps) (intro quiet_catch quiet_store)
qed

lemma quiet_record_file: "quiet (record_file p)"
proof -
  have "quiet (record_missing_directories t q)" for t q
    by (auto simp: quiet_def record_missing_directories_def bind_def gets_def set_txn_def modify_def lift_def ret_def Let_def
        split: prod.splits sum.splits)
  moreover have "quiet (back_up_file t p)" for t
    unfolding back_up_file_def by (intro quiet_bind quiet_if quiet_set quiet_query [OF query_basic(4)] quiet_query [OF query_basic(2)])
  ultimately show ?thesis
    unfolding record_file_def
    by (intro quiet_bind quiet_query [OF query_basic(4)]) (auto intro!: quiet_bind quiet_query [OF query_basic(1)]
        quiet_query [OF query_basic(2)] quiet_query [OF query_tests(4)] split: option.split)
qed

lemma say_run: "say line s = (Inr (), s\<lparr>stdout := stdout s @ [line]\<rparr>)"
  by (simp add: say_def modify_def)

lemma quiet_then_say:
  assumes q: "quiet m" and run: "bind m (\<lambda>_. say line) s = (r, u)"
  shows "prefix (stdout s) (stdout u)" "validation_only u = validation_only s" "r = Inr x \<Longrightarrow> stdout u \<noteq> stdout s"
proof -
  obtain y v where v: "m s = (y, v)" by fastforce
  have sv: "stdout v = stdout s" "validation_only v = validation_only s" using q v unfolding quiet_def by (metis snd_conv)+
  show "prefix (stdout s) (stdout u)" "validation_only u = validation_only s" "r = Inr x \<Longrightarrow> stdout u \<noteq> stdout s"
    using run sv by (cases y; auto simp: bind_def v say_run)+
qed

lemma mirrored_update:
  assumes "quiet m"
  shows "mirrored (bind (gets validation_only) (\<lambda>v. if v then raise e else bind m (\<lambda>_. say line)))"
proof -
  have on: "bind (gets validation_only) (\<lambda>v. if v then raise e else bind m (\<lambda>_. say line)) (validating True s) = (Inl e, validating True s)"
    and off: "bind (gets validation_only) (\<lambda>v. if v then raise e else bind m (\<lambda>_. say line)) (validating False s) =
      bind m (\<lambda>_. say line) (validating False s)" for s
    by (simp_all add: bind_def gets_def raise_def)
  show ?thesis
    by (rule mirroredI; simp only: on off) (use quiet_then_say [OF assms] in \<open>fastforce+\<close>)
qed

lemma mirrored_write_file: "mirrored (write_file p contents)"
proof -
  have q: "quiet (bind (record_file p) (\<lambda>_. bind (mkdir_parents (path_parent p)) (\<lambda>_. write_text p contents)))"
    unfolding write_text_def by (intro quiet_bind quiet_record_file quiet_mkdir_parents quiet_store)
  have split: "bind (record_file p) (\<lambda>_. bind (mkdir_parents (path_parent p)) (\<lambda>_. bind (write_text p contents) (\<lambda>_. say line))) =
      bind (bind (record_file p) (\<lambda>_. bind (mkdir_parents (path_parent p)) (\<lambda>_. write_text p contents))) (\<lambda>_. say line)" for line
    by (auto simp: bind_def fun_eq_iff split: prod.splits sum.splits)
  have old: "blind (if ex then bind (read_text p) (\<lambda>t. ret (Some t)) else ret None)" for ex
    by (intro blind_if blind_bind blind_read_text blind_basic)
  show ?thesis
    unfolding write_file_def split
    by (intro mirrored_bind mirrored_if mirrored_blind [OF old] mirrored_blind [OF blind_gets(2)]
        mirrored_blind [OF blind_basic(1)] mirrored_update q)
qed

subsection \<open>The patches\<close>

lemmas mirrored_rules = mirrored_bind mirrored_if mirrored_case_option mirrored_whenM mirrored_write_file
  mirrored_blind [OF blind_read] mirrored_blind [OF blind_gets(2)] mirrored_blind [OF blind_basic(1)]
  mirrored_blind [OF blind_basic(2)] mirrored_blind [OF blind_basic(3)]

lemma mirrored_edit_file: "mirrored (edit_file p edit)"
  unfolding edit_file_def by (intro mirrored_rules)

lemma mirrored_ksu_patches:
  "mirrored (patch_escape k)" "mirrored (patch_supercall_dispatch k)" "mirrored (patch_allowlist k)"
  "mirrored (patch_policy_lock_order k)" "mirrored (patch_policy_reapply k)"
  "mirrored (patch_sucompat_fail_closed l)" "mirrored (patch_resukisu_manual_fail_closed l)"
  unfolding patch_escape_def patch_supercall_dispatch_def patch_allowlist_def patch_policy_lock_order_def
    patch_policy_reapply_def patch_sucompat_fail_closed_def patch_resukisu_manual_fail_closed_def Let_def
  by (intro mirrored_edit_file mirrored_rules)+

lemma mirrored_sections: "mirrored (read_with_include p)" "mirrored (write_result p edited)"
  unfolding read_with_include_def write_result_def by (intro mirrored_rules)+

lemma mirrored_kernel_patches:
  "mirrored (patch_common_header c root)" "mirrored (patch_lsm_count c ver)" "mirrored (patch_seccomp c)"
  "mirrored (patch_mount_privilege n)" "mirrored (patch_umount_privilege n)" "mirrored (patch_bind n)"
  "mirrored (patch_mount_result n)" "mirrored (patch_umount_validate n)" "mirrored (patch_ptrace c)" "mirrored (patch_signal c)"
  unfolding patch_common_header_def patch_lsm_count_def patch_seccomp_def patch_mount_privilege_def patch_umount_privilege_def
    patch_bind_def patch_mount_result_def patch_umount_validate_def patch_ptrace_def patch_signal_def Let_def
  by (intro mirrored_edit_file mirrored_sections mirrored_rules)+

lemma mirrored_patch_sources: "mirrored (patch_sources l root)"
  unfolding patch_sources_def patch_kernel_hooks_def Let_def
  by (intro mirrored_bind mirrored_ksu_patches mirrored_kernel_patches)

lemma validate_result:
  "fst (validate_patch_sources l root s) = fst (patch_sources l root (validating True s))"
  by (auto simp: validate_patch_sources_def finally_do_def set_validation_only_def modify_def bind_def catch_def gets_def raise_def
      split: prod.splits sum.splits)

text \<open>
  C7: Validation mode decides whether the patches are installed: \<^verbatim>\<open>validate_patch_sources\<close> accepts a tree exactly when
  \<^verbatim>\<open>patch_sources\<close>, run outside validation mode on the same tree, returns and changes nothing at all: no file or
  directory, no journal entry, no line printed. So every tree that \<^verbatim>\<open>verify\<close> accepts is a fixed point of the
  patches, and verification rejects every tree in which a patch would still change a file.
\<close>

theorem validation_decides_patched:
  "fst (validate_patch_sources l root s) = Inr () \<longleftrightarrow>
     patch_sources l root (validating False s) = (Inr (), validating False s)"
proof -
  obtain r u where u: "patch_sources l root (validating False s) = (r, u)" by fastforce
  obtain q v where v: "patch_sources l root (validating True s) = (q, v)" by fastforce
  note m = mirroredD [OF mirrored_patch_sources u]
  show ?thesis unfolding validate_result v using m(3,4) [of "()"] u v by auto
qed

end
