(* ===== verification/FS_Laws.thy ===== *)
theory FS_Laws
  imports Transaction
begin

text \<open>
  Laws of path resolution and of the file-system operations, stated on the map a file system
  denotes. Resolution depends on the symbolic links only, so operations that neither create nor
  remove links leave the meaning of every path alone.
\<close>

definition tree_fs :: "fs \<Rightarrow> bool" where
  "tree_fs fs \<longleftrightarrow> map_of fs [] = Some DirN \<and>
     (\<forall>p n. map_of fs p = Some n \<longrightarrow> p = [] \<or> map_of fs (butlast p) = Some DirN)"

lemma tree_parent: "tree_fs fs \<Longrightarrow> map_of fs (d @ [c]) = Some n \<Longrightarrow> map_of fs d = Some DirN"
  unfolding tree_fs_def by (metis butlast_snoc snoc_eq_iff_butlast)

lemma tree_root: "tree_fs fs \<Longrightarrow> map_of fs [] = Some DirN"
  by (simp add: tree_fs_def)

lemma tree_no_child: "tree_fs fs \<Longrightarrow> map_of fs d \<noteq> Some DirN \<Longrightarrow> map_of fs (d @ [c]) = None"
  using tree_parent by (cases "map_of fs (d @ [c])") auto

subsection \<open>Resolution\<close>

lemma walk_cong: "link_target fs = link_target fs' \<Longrightarrow> walk k fs d cs = walk k fs' d cs"
proof (induction k fs d cs rule: walk.induct)
  case (2 k fs d c cs)
  then show ?case by (cases "link_target fs' (d @ [c])"; cases k) auto
qed simp

lemma realpath_cong: "link_target fs = link_target fs' \<Longrightarrow> realpath fs = realpath fs'"
  by (rule ext) (simp add: realpath_def walk_cong [of fs fs'])

lemma entry_cong: "link_target fs = link_target fs' \<Longrightarrow> entry fs = entry fs'"
  by (rule ext) (simp add: entry_def realpath_cong [of fs fs'])

lemma walk_snoc:
  "walk k fs d cs = Some r \<Longrightarrow> link_target fs (r @ [c]) = None \<Longrightarrow> walk k fs d (cs @ [c]) = Some (r @ [c])"
proof (induction k fs d cs rule: walk.induct)
  case (2 k fs d x cs)
  then show ?case by (cases "link_target fs (d @ [x])"; cases k) auto
qed simp

lemma walk_prefix: "walk k fs d (cs @ [c]) = Some r \<Longrightarrow> \<exists>r'. walk k fs d cs = Some r'"
proof (induction k fs d cs rule: walk.induct)
  case (2 k fs d x cs)
  then show ?case by (cases "link_target fs (d @ [x])"; cases k) auto
qed simp

lemma walk_not_link: "walk k fs d cs = Some r \<Longrightarrow> link_target fs d = None \<Longrightarrow> link_target fs [] = None \<Longrightarrow>
  link_target fs r = None"
proof (induction k fs d cs rule: walk.induct)
  case (2 k fs d x cs)
  then show ?case by (cases "link_target fs (d @ [x])"; cases k) auto
qed simp

lemma link_target_root: "tree_fs fs \<Longrightarrow> link_target fs [] = None"
  by (simp add: link_target_def tree_root)

lemma realpath_not_link: "tree_fs fs \<Longrightarrow> realpath fs p = Some r \<Longrightarrow> link_target fs r = None"
  unfolding realpath_def using walk_not_link link_target_root by blast

lemma realpath_root [simp]: "realpath fs [] = Some []"
  by (simp add: realpath_def)

lemma path_is_symlink_iff:
  "path_is_symlink fs p \<longleftrightarrow> (\<exists>e. entry fs p = Some e \<and> link_target fs e \<noteq> None)"
  by (auto simp: path_is_symlink_def lstat_def link_target_def split: option.splits node.splits)

lemma realpath_entry:
  assumes "realpath fs p = Some r" "\<not> path_is_symlink fs p"
  shows "entry fs p = Some r"
proof (cases "p = []")
  case True
  with assms show ?thesis by (simp add: entry_def)
next
  case False
  then obtain d c where p: "p = d @ [c]" by (metis append_butlast_last_id)
  from assms(1) obtain e where e: "realpath fs d = Some e"
    unfolding realpath_def p using walk_prefix by blast
  then have ent: "entry fs p = Some (e @ [c])" by (simp add: entry_def p)
  with assms(2) have "link_target fs (e @ [c]) = None" by (auto simp: path_is_symlink_iff)
  with e have "realpath fs p = Some (e @ [c])"
    unfolding realpath_def p by (intro walk_snoc) auto
  with assms(1) ent show ?thesis by simp
qed

lemma entry_realpath:
  assumes "entry fs p = Some e" "link_target fs e = None"
  shows "realpath fs p = Some e"
proof (cases "p = []")
  case True
  with assms show ?thesis by (simp add: entry_def)
next
  case False
  then obtain d c where p: "p = d @ [c]" by (metis append_butlast_last_id)
  with assms obtain r where "realpath fs d = Some r" "e = r @ [c]" by (auto simp: entry_def)
  with assms(2) show ?thesis
    unfolding realpath_def p by (simp add: walk_snoc)
qed

lemma path_is_dir_realpath: "path_is_dir fs p \<longleftrightarrow> (\<exists>r. realpath fs p = Some r \<and> map_of fs r = Some DirN)"
  by (auto simp: path_is_dir_def stat_def split: option.splits)

text \<open>Everything above an existing path is a directory.\<close>

lemma exists_parent_dir:
  assumes "tree_fs fs" "path_exists fs (d @ [c])"
  shows "path_is_dir fs d"
proof -
  from assms(2) obtain r n where r: "realpath fs (d @ [c]) = Some r" and n: "map_of fs r = Some n"
    by (auto simp: path_exists_def stat_def split: option.splits)
  from r obtain e where e: "realpath fs d = Some e" unfolding realpath_def using walk_prefix by blast
  then have ent: "entry fs (d @ [c]) = Some (e @ [c])" by (simp add: entry_def)
  have "map_of fs (e @ [c]) \<noteq> None"
  proof (cases "path_is_symlink fs (d @ [c])")
    case True
    with ent show ?thesis
      by (auto simp: path_is_symlink_iff link_target_def split: option.splits)
  next
    case False
    with realpath_entry [OF r] ent n show ?thesis by simp
  qed
  with tree_parent [OF assms(1), of e c] e show ?thesis by (auto simp: path_is_dir_realpath)
qed

lemma dir_prefixes_dir:
  assumes "tree_fs fs" "path_is_dir fs p" "prefix d p"
  shows "path_is_dir fs d"
  using assms(2,3)
proof (induction p rule: rev_induct)
  case (snoc c p)
  show ?case
  proof (cases "d = p @ [c]")
    case False
    with snoc.prems have "prefix d p" by simp
    moreover have "path_is_dir fs p"
      using exists_parent_dir [OF assms(1)] snoc.prems(1) by (auto simp: path_exists_def path_is_dir_def)
    ultimately show ?thesis using snoc.IH by blast
  qed (use snoc.prems in simp)
qed simp

text \<open>A directory that exists keeps existing under an update that keeps links and directories.\<close>

definition keeps_dirs :: "fs \<Rightarrow> fs \<Rightarrow> bool" where
  "keeps_dirs fs fs' \<longleftrightarrow> link_target fs' = link_target fs \<and>
     (\<forall>r. map_of fs r = Some DirN \<longrightarrow> map_of fs' r = Some DirN)"

lemma keeps_dirs_refl [simp]: "keeps_dirs fs fs"
  by (simp add: keeps_dirs_def)

lemma keeps_dirs_trans: "keeps_dirs a b \<Longrightarrow> keeps_dirs b c \<Longrightarrow> keeps_dirs a c"
  by (simp add: keeps_dirs_def)

lemma keeps_dirs_realpath: "keeps_dirs fs fs' \<Longrightarrow> realpath fs' = realpath fs"
  unfolding keeps_dirs_def by (intro realpath_cong) simp

lemma keeps_dirs_entry: "keeps_dirs fs fs' \<Longrightarrow> entry fs' = entry fs"
  unfolding keeps_dirs_def by (intro entry_cong) simp

lemma keeps_dirs_path: "keeps_dirs fs fs' \<Longrightarrow> path_is_dir fs p \<Longrightarrow> path_is_dir fs' p"
  using keeps_dirs_realpath [of fs fs'] by (auto simp: keeps_dirs_def path_is_dir_realpath)

lemma keeps_dirs_symlink: "keeps_dirs fs fs' \<Longrightarrow> path_is_symlink fs' p = path_is_symlink fs p"
  using keeps_dirs_entry [of fs fs'] by (simp add: keeps_dirs_def path_is_symlink_iff)

subsection \<open>The effect of the operations\<close>

definition leaf :: "node option \<Rightarrow> bool" where
  "leaf n \<longleftrightarrow> (case n of None \<Rightarrow> True | Some m \<Rightarrow> is_regular m)"

lemma leaf_simps [simp]: "leaf None" "leaf (Some (FileN t))" "leaf (Some (BinN t))"
  "\<not> leaf (Some DirN)" "\<not> leaf (Some (LinkN q))" "\<not> leaf (Some OtherN)"
  by (simp_all add: leaf_def is_regular_def)

text \<open>Changing a leaf (an absent entry or a regular file) into another leaf.\<close>

lemma leaf_update:
  assumes "tree_fs fs" "leaf (map_of fs r)" "leaf n" "r \<noteq> []" "map_of fs (butlast r) = Some DirN"
    and m: "map_of fs' = (map_of fs)(r := n)"
  shows "keeps_dirs fs fs'" "tree_fs fs'"
proof -
  have "link_target fs' = link_target fs"
    using assms by (auto simp: fun_eq_iff link_target_def leaf_def is_regular_def split: option.splits node.splits)
  then show "keeps_dirs fs fs'"
    using assms by (auto simp: keeps_dirs_def)
  show "tree_fs fs'"
    using assms unfolding tree_fs_def m
    by (auto simp: leaf_def is_regular_def split: option.splits if_splits)
qed

lemma new_dir_update:
  assumes "tree_fs fs" "map_of fs r = None" "r \<noteq> []" "map_of fs (butlast r) = Some DirN"
    and m: "map_of fs' = (map_of fs)(r := Some DirN)"
  shows "keeps_dirs fs fs'" "tree_fs fs'"
proof -
  have "link_target fs' = link_target fs"
    using assms by (auto simp: fun_eq_iff link_target_def split: option.splits)
  then show "keeps_dirs fs fs'" using assms by (auto simp: keeps_dirs_def)
  show "tree_fs fs'" using assms unfolding tree_fs_def m by (auto split: if_splits)
qed

subsection \<open>The outcome of the operations\<close>

text \<open>Each operation raises without changing the state, or changes one entry.\<close>

lemma os_mkdir_cases:
  assumes "os_mkdir p s = (x, s')"
  shows "s' = s \<and> (\<exists>n. x = Inl (OSErr n p)) \<or>
    (\<exists>r. entry (fsys s) p = Some r \<and> map_of (fsys s) r = None \<and> r \<noteq> [] \<and>
       map_of (fsys s) (butlast r) = Some DirN \<and> s' = s\<lparr>fsys := AList.update r DirN (fsys s)\<rparr> \<and> x = Inr ())"
proof (cases "entry (fsys s) p")
  case None
  with assms show ?thesis by (auto simp: os_mkdir_def bind_def gets_def raise_def)
next
  case (Some r)
  with assms show ?thesis
    by (cases "map_of (fsys s) r"; cases "r \<noteq> [] \<and> map_of (fsys s) (butlast r) = Some DirN")
      (auto simp: os_mkdir_def bind_def gets_def raise_def set_fs_def modify_def)
qed

lemma store_cases:
  assumes "store p n s = (x, s')" "tree_fs (fsys s)"
  shows "s' = s \<and> (\<exists>k. x = Inl (OSErr k p)) \<or>
    (\<exists>r. realpath (fsys s) p = Some r \<and> leaf (map_of (fsys s) r) \<and> r \<noteq> [] \<and>
       map_of (fsys s) (butlast r) = Some DirN \<and> s' = s\<lparr>fsys := AList.update r n (fsys s)\<rparr> \<and> x = Inr ())"
proof (cases "realpath (fsys s) p")
  case None
  with assms show ?thesis by (auto simp: store_def bind_def gets_def raise_def)
next
  case (Some r)
  show ?thesis
  proof (cases "map_of (fsys s) r")
    case None
    with Some assms show ?thesis
      by (cases "r \<noteq> [] \<and> map_of (fsys s) (butlast r) = Some DirN")
        (auto simp: store_def bind_def gets_def raise_def set_fs_def modify_def)
  next
    case (Some k)
    from assms(2) Some have "r = [] \<and> k = DirN \<or> r \<noteq> [] \<and> map_of (fsys s) (butlast r) = Some DirN"
      by (auto simp: tree_fs_def)
    with Some \<open>realpath (fsys s) p = Some r\<close> assms(1) show ?thesis
      by (cases k) (auto simp: store_def bind_def gets_def raise_def set_fs_def modify_def)
  qed
qed

lemma unlink_cases:
  assumes "unlink p s = (x, s')"
  shows "s' = s \<and> (\<exists>k. x = Inl (OSErr k p)) \<or>
    (\<exists>r n. entry (fsys s) p = Some r \<and> map_of (fsys s) r = Some n \<and> n \<noteq> DirN \<and>
       s' = s\<lparr>fsys := AList.delete r (fsys s)\<rparr> \<and> x = Inr ())"
proof (cases "entry (fsys s) p")
  case None
  with assms show ?thesis by (auto simp: unlink_def bind_def gets_def raise_def)
next
  case (Some r)
  show ?thesis
  proof (cases "map_of (fsys s) r")
    case None
    with Some assms show ?thesis by (auto simp: unlink_def bind_def gets_def raise_def)
  next
    case (Some k)
    with \<open>entry (fsys s) p = Some r\<close> assms show ?thesis
      by (cases k) (auto simp: unlink_def bind_def gets_def raise_def set_fs_def modify_def)
  qed
qed

lemma rmdir_cases:
  assumes "rmdir p s = (x, s')"
  shows "s' = s \<and> (\<exists>k. x = Inl (OSErr k p) \<and>
      (k = ENOENT \<longrightarrow> (\<exists>r. entry (fsys s) p = Some r \<and> map_of (fsys s) r = None))) \<or>
    (\<exists>r. entry (fsys s) p = Some r \<and> map_of (fsys s) r = Some DirN \<and> dir_empty (fsys s) r \<and>
       s' = s\<lparr>fsys := AList.delete r (fsys s)\<rparr> \<and> x = Inr ())"
proof (cases "entry (fsys s) p")
  case None
  with assms show ?thesis by (auto simp: rmdir_def bind_def gets_def raise_def)
next
  case (Some r)
  show ?thesis
  proof (cases "map_of (fsys s) r")
    case None
    with Some assms show ?thesis by (auto simp: rmdir_def bind_def gets_def raise_def)
  next
    case (Some k)
    with \<open>entry (fsys s) p = Some r\<close> assms show ?thesis
      by (cases k; cases "dir_empty (fsys s) r")
        (auto simp: rmdir_def bind_def gets_def raise_def set_fs_def modify_def)
  qed
qed

end
