(* ===== verification/Journal.thy ===== *)
theory Journal
  imports FS_Laws Effects
begin

text \<open>
  The invariant of the install transaction: at every moment the journal holds what is needed to
  get back to the file system in which the transaction began. \<open>journal fs0 fs t\<close> relates the start
  \<open>fs0\<close>, the current file system \<open>fs\<close> and the journal \<open>t\<close>. Every operation of the installer keeps it.
\<close>

subsection \<open>Undoing the recorded files\<close>

text \<open>The map after restoring all backups, the earliest backup of a file winning.\<close>

definition undo :: "fs \<Rightarrow> (path \<times> node option) list \<Rightarrow> (path \<rightharpoonup> node) \<Rightarrow> (path \<rightharpoonup> node)" where
  "undo fs0 fl m r = (case find (\<lambda>pb. realpath fs0 (fst pb) = Some r) fl of
     Some pb \<Rightarrow> snd pb | None \<Rightarrow> m r)"

lemma undo_Nil [simp]: "undo fs0 [] m = m"
  by (rule ext) (simp add: undo_def)

lemma find_append: "find P (xs @ ys) = (case find P xs of Some x \<Rightarrow> Some x | None \<Rightarrow> find P ys)"
  by (induction xs) auto

lemma undo_snoc:
  "undo fs0 (fl @ [(p, b)]) m = undo fs0 fl (case realpath fs0 p of None \<Rightarrow> m | Some r \<Rightarrow> m(r := b))"
  by (rule ext) (auto simp: undo_def find_append split: option.splits)

lemma undo_recorded:
  assumes "p \<in> fst ` set fl" "realpath fs0 p = Some r"
  shows "undo fs0 fl (m(r := x)) = undo fs0 fl m"
proof
  fix r'
  from assms have "find (\<lambda>pb. realpath fs0 (fst pb) = Some r) fl \<noteq> None"
    by (auto simp: find_None_iff)
  then show "undo fs0 fl (m(r := x)) r' = undo fs0 fl m r'"
    by (auto simp: undo_def split: option.splits)
qed

lemma undo_update:
  "undo fs0 fl (m(r := x)) r' = undo fs0 fl m r' \<or>
   r' = r \<and> undo fs0 fl (m(r := x)) r' = x \<and> undo fs0 fl m r' = m r"
  by (auto simp: undo_def split: option.splits)

subsection \<open>The invariant\<close>

text \<open>Every directory on the way to \<open>q\<close> exists or is recorded as missing.\<close>

definition covered :: "fs \<Rightarrow> txn \<Rightarrow> path \<Rightarrow> bool" where
  "covered fs t q \<longleftrightarrow> (\<forall>d. prefix d q \<longrightarrow> path_is_dir fs d \<or> d \<in> set (missing_directories t))"

definition journal_files :: "fs \<Rightarrow> fs \<Rightarrow> txn \<Rightarrow> bool" where
  "journal_files fs0 fs t \<longleftrightarrow> (\<forall>(p, b)\<in>set (files t). \<not> path_is_symlink fs0 p \<and> leaf b \<and>
     (b \<noteq> None \<longrightarrow> path_is_dir fs (path_parent p)) \<and> covered fs t (path_parent p))"

definition journal_dirs :: "fs \<Rightarrow> txn \<Rightarrow> bool" where
  "journal_dirs fs0 t \<longleftrightarrow> (\<forall>d\<in>set (missing_directories t). \<not> path_is_symlink fs0 d \<and>
     (\<forall>r. realpath fs0 d = Some r \<longrightarrow> map_of fs0 r \<noteq> Some DirN))"

text \<open>After undoing the files, all that is left of the installation are recorded directories.\<close>

definition journal_undo :: "fs \<Rightarrow> fs \<Rightarrow> txn \<Rightarrow> bool" where
  "journal_undo fs0 fs t \<longleftrightarrow> (\<forall>r. undo fs0 (files t) (map_of fs) r \<noteq> map_of fs0 r \<longrightarrow>
     undo fs0 (files t) (map_of fs) r = Some DirN \<and> map_of fs0 r = None \<and>
     (\<exists>d\<in>set (missing_directories t). realpath fs0 d = Some r))"

definition journal :: "fs \<Rightarrow> fs \<Rightarrow> txn \<Rightarrow> bool" where
  "journal fs0 fs t \<longleftrightarrow> tree_fs fs \<and> keeps_dirs fs0 fs \<and> journal_files fs0 fs t \<and>
     journal_dirs fs0 t \<and> journal_undo fs0 fs t"

lemma journal_start: "tree_fs fs \<Longrightarrow> journal fs fs empty_txn"
  by (simp add: journal_def journal_files_def journal_dirs_def journal_undo_def empty_txn_def)

lemma journal_tree: "journal fs0 fs t \<Longrightarrow> tree_fs fs"
  by (simp add: journal_def)

lemma journal_paths:
  assumes "journal fs0 fs t"
  shows "realpath fs = realpath fs0" "entry fs = entry fs0" "path_is_symlink fs p = path_is_symlink fs0 p"
  using assms keeps_dirs_realpath [of fs0 fs] keeps_dirs_entry [of fs0 fs] keeps_dirs_symlink [of fs0 fs]
  by (simp_all add: journal_def)

lemma covered_mono:
  "covered fs t q \<Longrightarrow> keeps_dirs fs fs' \<Longrightarrow> set (missing_directories t) \<subseteq> set (missing_directories t') \<Longrightarrow>
   prefix q' q \<Longrightarrow> covered fs' t' q'"
  unfolding covered_def by (meson keeps_dirs_path prefix_order.trans subsetD)

lemma journal_files_mono:
  assumes "journal_files fs0 fs t" "keeps_dirs fs fs'" "files t' = files t"
    "set (missing_directories t) \<subseteq> set (missing_directories t')"
  shows "journal_files fs0 fs' t'"
  unfolding journal_files_def
proof clarify
  fix p b assume "(p, b) \<in> set (files t')"
  with assms have "\<not> path_is_symlink fs0 p" "leaf b" "b \<noteq> None \<longrightarrow> path_is_dir fs (path_parent p)"
    "covered fs t (path_parent p)" by (auto simp: journal_files_def)
  with assms(2,4) show "\<not> path_is_symlink fs0 p \<and> leaf b \<and> (b \<noteq> None \<longrightarrow> path_is_dir fs' (path_parent p)) \<and>
      covered fs' t' (path_parent p)"
    using covered_mono [of fs t "path_parent p" fs' t' "path_parent p"] by (auto intro: keeps_dirs_path)
qed

subsection \<open>Recording\<close>

lemma missing_chain_adds:
  "missing_chain fs cursor missing = (r, missing') \<Longrightarrow> set missing \<subseteq> set missing' \<and>
   (\<forall>d\<in>set missing' - set missing. \<not> path_exists fs d \<and> \<not> path_is_symlink fs d)"
proof (induction fs cursor missing rule: missing_chain.induct)
  case (1 fs cursor missing)
  let ?m = "if cursor \<in> set missing then missing else missing @ [cursor]"
  consider (stop) "missing' = missing"
    | (root) "\<not> path_exists fs cursor" "\<not> path_is_symlink fs cursor" "missing' = ?m"
    | (up) "\<not> path_exists fs cursor" "\<not> path_is_symlink fs cursor" "cursor \<noteq> []"
        "missing_chain fs (path_parent cursor) ?m = (r, missing')"
    using "1.prems" by (subst (asm) missing_chain.simps) (simp add: Let_def split: if_splits)
  then show ?case
  proof cases
    case up
    from "1.IH" [OF up(1,2) _ up(3) up(4)] up show ?thesis by (auto split: if_splits)
  qed auto
qed

lemma missing_chain_covers:
  "missing_chain fs cursor missing = (Inr (), missing') \<Longrightarrow> tree_fs fs \<Longrightarrow> prefix d cursor \<Longrightarrow>
   path_is_dir fs d \<or> d \<in> set missing'"
proof (induction fs cursor missing rule: missing_chain.induct)
  case (1 fs cursor missing)
  let ?m = "if cursor \<in> set missing then missing else missing @ [cursor]"
  consider (stop) "path_is_dir fs cursor"
    | (root) "cursor = []" "missing' = ?m"
    | (up) "\<not> path_exists fs cursor" "\<not> path_is_symlink fs cursor" "cursor \<noteq> []"
        "missing_chain fs (path_parent cursor) ?m = (Inr (), missing')"
    using "1.prems"(1) by (subst (asm) missing_chain.simps) (simp add: Let_def split: if_splits)
  then show ?case
  proof cases
    case stop
    with "1.prems" show ?thesis using dir_prefixes_dir by blast
  next
    case root
    with "1.prems"(3) show ?thesis by simp
  next
    case up
    show ?thesis
    proof (cases "d = cursor")
      case True
      with missing_chain_adds [OF up(4)] show ?thesis by (auto split: if_splits)
    next
      case False
      with "1.prems"(3) have "prefix d (path_parent cursor)"
        by (auto simp: path_parent_def prefix_def) (metis butlast_append)
      with "1.IH" [OF up(1,2) _ up(3) up(4)] "1.prems"(2) show ?thesis by simp
    qed
  qed
qed

lemma journal_add_missing:
  assumes "journal fs0 fs t" "missing_chain fs p (missing_directories t) = (r, missing)"
  shows "journal fs0 fs (t\<lparr>missing_directories := missing\<rparr>)"
proof -
  note adds = missing_chain_adds [OF assms(2)]
  let ?t = "t\<lparr>missing_directories := missing\<rparr>"
  have "journal_files fs0 fs ?t"
    using assms(1) adds journal_files_mono [of fs0 fs t fs ?t] by (simp add: journal_def)
  moreover have "journal_dirs fs0 ?t"
    unfolding journal_dirs_def
  proof
    fix d assume d: "d \<in> set (missing_directories ?t)"
    show "\<not> path_is_symlink fs0 d \<and> (\<forall>r. realpath fs0 d = Some r \<longrightarrow> map_of fs0 r \<noteq> Some DirN)"
    proof (cases "d \<in> set (missing_directories t)")
      case True
      with assms(1) show ?thesis by (simp add: journal_def journal_dirs_def)
    next
      case False
      with adds d have "\<not> path_exists fs d" "\<not> path_is_symlink fs d" by auto
      with journal_paths [OF assms(1)] assms(1) show ?thesis
        by (auto simp: path_exists_def stat_def journal_def keeps_dirs_def)
    qed
  qed
  moreover have "journal_undo fs0 fs ?t"
    using assms(1) adds by (simp add: journal_def journal_undo_def) (metis subsetD)
  ultimately show ?thesis using assms(1) by (simp add: journal_def)
qed

lemma journal_add_file:
  assumes "journal fs0 fs t" "\<not> path_is_symlink fs p" "leaf (stat fs p)" "covered fs t (path_parent p)"
  shows "journal fs0 fs (t\<lparr>files := files t @ [(p, stat fs p)]\<rparr>)"
proof -
  let ?t = "t\<lparr>files := files t @ [(p, stat fs p)]\<rparr>"
  note paths = journal_paths [OF assms(1)]
  have par: "path_is_dir fs (path_parent p)" if "stat fs p \<noteq> None"
  proof (cases p rule: rev_cases)
    case Nil
    with journal_tree [OF assms(1)] assms(3) show ?thesis by (simp add: stat_def tree_root)
  next
    case (snoc d c)
    with exists_parent_dir [OF journal_tree [OF assms(1)], of d c] that show ?thesis
      by (simp add: path_parent_def path_exists_def)
  qed
  have cov: "covered fs ?t q = covered fs t q" for q by (simp add: covered_def)
  have "journal_files fs0 fs ?t"
    using assms par paths cov by (auto simp: journal_def journal_files_def)
  moreover have "undo fs0 (files ?t) (map_of fs) = undo fs0 (files t) (map_of fs)"
  proof (cases "realpath fs0 p")
    case (Some r)
    then have "(map_of fs)(r := stat fs p) = map_of fs" using paths by (simp add: stat_def fun_eq_iff)
    with Some show ?thesis by (simp add: undo_snoc)
  qed (simp add: undo_snoc)
  ultimately show ?thesis using assms(1) by (simp add: journal_def journal_dirs_def journal_undo_def)
qed

subsection \<open>Changing the tree\<close>

lemma journal_leaf:
  assumes J: "journal fs0 fs t" and "p \<in> fst ` set (files t)" "realpath fs p = Some r"
    and "leaf (map_of fs r)" "leaf n" "r \<noteq> []" "map_of fs (butlast r) = Some DirN"
    and m: "map_of fs' = (map_of fs)(r := n)"
  shows "journal fs0 fs' t"
proof -
  note upd = leaf_update [OF journal_tree [OF J] assms(4-7) m]
  have "undo fs0 (files t) (map_of fs') = undo fs0 (files t) (map_of fs)"
    unfolding m by (rule undo_recorded) (use assms(2,3) journal_paths [OF J] in auto)
  then have "journal_undo fs0 fs' t" using J by (simp add: journal_def journal_undo_def)
  with upd J show ?thesis
    using journal_files_mono [of fs0 fs t fs' t] keeps_dirs_trans [of fs0 fs fs'] by (simp add: journal_def)
qed

lemma journal_mkdir:
  assumes J: "journal fs0 fs t" and p: "p \<in> set (missing_directories t)" "entry fs p = Some r"
    and "map_of fs r = None" "r \<noteq> []" "map_of fs (butlast r) = Some DirN"
    and m: "map_of fs' = (map_of fs)(r := Some DirN)"
  shows "journal fs0 fs' t"
proof -
  note upd = new_dir_update [OF journal_tree [OF J] assms(4-6) m]
  have "link_target fs r = None" using assms(4) by (simp add: link_target_def)
  with p have "realpath fs0 p = Some r"
    using entry_realpath [of fs p r] journal_paths [OF J] by simp
  then have "journal_undo fs0 fs' t"
    using J p(1) assms(4) undo_update [of fs0 "files t" "map_of fs" r "Some DirN"]
    unfolding journal_def journal_undo_def m by (metis option.distinct(1))
  with upd J show ?thesis
    using journal_files_mono [of fs0 fs t fs' t] keeps_dirs_trans [of fs0 fs fs'] by (simp add: journal_def)
qed

subsection \<open>The operations keep the invariant\<close>

definition journaled :: "fs \<Rightarrow> state \<Rightarrow> bool" where
  "journaled fs0 s \<longleftrightarrow> (\<exists>t. active_transaction s = Some t \<and> journal fs0 (fsys s) t)"

text \<open>\<open>guarded fs0 P m Q\<close>: from a state with \<open>P\<close>, the procedure \<open>m\<close> returns in a state with \<open>Q\<close> or
  raises in a state in which the invariant holds.\<close>

definition guarded :: "fs \<Rightarrow> (state \<Rightarrow> bool) \<Rightarrow> 'a io \<Rightarrow> ('a \<Rightarrow> state \<Rightarrow> bool) \<Rightarrow> bool" where
  "guarded fs0 P m Q \<longleftrightarrow> (\<forall>s. P s \<longrightarrow>
     (case m s of (Inr x, s') \<Rightarrow> Q x s' | (Inl e, s') \<Rightarrow> journaled fs0 s'))"

lemma guardedI:
  "(\<And>s x s'. P s \<Longrightarrow> m s = (Inr x, s') \<Longrightarrow> Q x s') \<Longrightarrow>
   (\<And>s e s'. P s \<Longrightarrow> m s = (Inl e, s') \<Longrightarrow> journaled fs0 s') \<Longrightarrow> guarded fs0 P m Q"
  by (auto simp: guarded_def split: prod.splits sum.splits)

lemma guarded_bind:
  "guarded fs0 P m R \<Longrightarrow> (\<And>x. guarded fs0 (R x) (f x) Q) \<Longrightarrow> guarded fs0 P (bind m f) Q"
proof (rule guardedI)
  assume m: "guarded fs0 P m R" and f: "\<And>x. guarded fs0 (R x) (f x) Q"
  fix s :: state and y s'
  assume "P s" "bind m f s = (Inr y, s')"
  then obtain x u where "m s = (Inr x, u)" "f x u = (Inr y, s')"
    by (auto simp: bind_def split: prod.splits sum.splits)
  with m f [of x] \<open>P s\<close> show "Q y s'" by (fastforce simp: guarded_def)
next
  assume m: "guarded fs0 P m R" and f: "\<And>x. guarded fs0 (R x) (f x) Q"
  fix s :: state and e s'
  assume s: "P s" "bind m f s = (Inl e, s')"
  then consider "m s = (Inl e, s')" | x u where "m s = (Inr x, u)" "f x u = (Inl e, s')"
    by (auto simp: bind_def split: prod.splits sum.splits)
  then show "journaled fs0 s'"
  proof cases
    case 1
    with m s show ?thesis by (fastforce simp: guarded_def)
  next
    case (2 x u)
    with m f [of x] s show ?thesis by (fastforce simp: guarded_def)
  qed
qed

lemma guarded_if:
  "(c \<Longrightarrow> guarded fs0 P a Q) \<Longrightarrow> (\<not> c \<Longrightarrow> guarded fs0 P b Q) \<Longrightarrow> guarded fs0 P (if c then a else b) Q"
  by simp

lemma guarded_basic:
  "(\<And>s. P s \<Longrightarrow> Q x s) \<Longrightarrow> guarded fs0 P (ret x) Q"
  "(\<And>s. P s \<Longrightarrow> journaled fs0 s) \<Longrightarrow> guarded fs0 P (raise e) Q"
  "(\<And>s. P s \<Longrightarrow> Q (f s) s) \<Longrightarrow> guarded fs0 P (gets f) Q"
  by (simp_all add: guarded_def ret_def raise_def gets_def)

text \<open>The invariant with a given journal, for a journal that covers a path or records a file.\<close>

definition holds :: "fs \<Rightarrow> txn \<Rightarrow> state \<Rightarrow> bool" where
  "holds fs0 t s \<longleftrightarrow> active_transaction s = Some t \<and> journal fs0 (fsys s) t"

lemma holds_journaled: "holds fs0 t s \<Longrightarrow> journaled fs0 s"
  by (auto simp: holds_def journaled_def)

lemma record_missing_directories_guarded:
  "guarded fs0 (\<lambda>s. holds fs0 t s \<and> K (fsys s)) (record_missing_directories t p)
     (\<lambda>t' s. holds fs0 t' s \<and> covered (fsys s) t' p \<and> files t' = files t \<and> K (fsys s))"
proof (rule guardedI)
  fix s :: state and t' s'
  assume s: "holds fs0 t s \<and> K (fsys s)" and run: "record_missing_directories t p s = (Inr t', s')"
  then obtain missing where c: "missing_chain (fsys s) p (missing_directories t) = (Inr (), missing)"
    and t': "t' = t\<lparr>missing_directories := missing\<rparr>" and s': "s' = s\<lparr>active_transaction := Some t'\<rparr>"
    by (auto simp: record_missing_directories_def set_txn_def bind_def gets_def modify_def lift_def ret_def
        Let_def split: prod.splits sum.splits)
  from s have "covered (fsys s) t' p"
    using missing_chain_covers [OF c journal_tree [of fs0 _ t]] by (simp add: covered_def t' holds_def)
  with s journal_add_missing [OF _ c]
  show "holds fs0 t' s' \<and> covered (fsys s') t' p \<and> files t' = files t \<and> K (fsys s')"
    by (simp add: holds_def t' s')
next
  fix s :: state and e s'
  assume s: "holds fs0 t s \<and> K (fsys s)" and run: "record_missing_directories t p s = (Inl e, s')"
  obtain r missing where c: "missing_chain (fsys s) p (missing_directories t) = (r, missing)"
    by fastforce
  with run have "s' = s\<lparr>active_transaction := Some (t\<lparr>missing_directories := missing\<rparr>)\<rparr>"
    by (auto simp: record_missing_directories_def set_txn_def bind_def gets_def modify_def lift_def ret_def
        Let_def split: prod.splits sum.splits)
  with s journal_add_missing [OF _ c] show "journaled fs0 s'"
    by (simp add: holds_def journaled_def)
qed

text \<open>After recording: the file is in the journal and its parents are covered.\<close>

definition recorded :: "fs \<Rightarrow> path \<Rightarrow> state \<Rightarrow> bool" where
  "recorded fs0 p s \<longleftrightarrow> (\<exists>t. holds fs0 t s \<and> p \<in> fst ` set (files t) \<and> covered (fsys s) t (path_parent p))"

definition covering :: "fs \<Rightarrow> path \<Rightarrow> state \<Rightarrow> bool" where
  "covering fs0 q s \<longleftrightarrow> (\<exists>t. holds fs0 t s \<and> covered (fsys s) t q)"

lemma recorded_journaled: "recorded fs0 p s \<Longrightarrow> journaled fs0 s"
  by (auto simp: recorded_def holds_journaled)

lemma covering_journaled: "covering fs0 p s \<Longrightarrow> journaled fs0 s"
  by (auto simp: covering_def holds_journaled)

lemma already_recorded:
  assumes "holds fs0 t s" "p \<in> fst ` set (files t)"
  shows "recorded fs0 p s"
proof -
  from assms(2) obtain b where "(p, b) \<in> set (files t)" by auto
  with assms(1) have "covered (fsys s) t (path_parent p)"
    by (auto simp: holds_def journal_def journal_files_def)
  with assms show ?thesis by (auto simp: recorded_def)
qed

lemma record_file_new:
  assumes "holds fs0 t s" "covered (fsys s) t (path_parent p)" "\<not> path_is_symlink (fsys s) p" "leaf b"
    and b: "b = stat (fsys s) p"
  shows "recorded fs0 p (s\<lparr>active_transaction := Some (t\<lparr>files := files t @ [(p, b)]\<rparr>)\<rparr>)"
proof -
  have "journal fs0 (fsys s) (t\<lparr>files := files t @ [(p, b)]\<rparr>)"
    using assms unfolding b by (intro journal_add_file) (simp_all add: holds_def)
  then show ?thesis
    by (intro already_recorded [of _ "t\<lparr>files := files t @ [(p, b)]\<rparr>"]) (auto simp: holds_def)
qed

lemma stat_leaf: "path_is_file fs p \<Longrightarrow> leaf (stat fs p)" "\<not> path_exists fs p \<Longrightarrow> stat fs p = None"
  by (auto simp: path_exists_def path_is_file_def leaf_def split: option.splits)

lemma back_up_file_guarded:
  "guarded fs0 (\<lambda>s. holds fs0 t s \<and> covered (fsys s) t (path_parent p) \<and> K \<and> \<not> path_is_symlink (fsys s) p)
     (back_up_file t p) (\<lambda>_. recorded fs0 p)"
proof (rule guardedI)
  fix s :: state and u s'
  assume s: "holds fs0 t s \<and> covered (fsys s) t (path_parent p) \<and> K \<and> \<not> path_is_symlink (fsys s) p"
    and run: "back_up_file t p s = (Inr u, s')"
  then have "s' = s\<lparr>active_transaction := Some (t\<lparr>files := files t @ [(p, stat (fsys s) p)]\<rparr>)\<rparr>"
    "leaf (stat (fsys s) p)"
    using stat_leaf [of "fsys s" p]
    by (auto simp: back_up_file_def bind_def gets_def raise_def set_txn_def modify_def split: if_splits)
  with s record_file_new [of fs0 t s p] show "recorded fs0 p s'" by simp
next
  fix s :: state and e s'
  assume "holds fs0 t s \<and> covered (fsys s) t (path_parent p) \<and> K \<and> \<not> path_is_symlink (fsys s) p"
    "back_up_file t p s = (Inl e, s')"
  then show "journaled fs0 s'"
    by (auto simp: back_up_file_def bind_def gets_def raise_def set_txn_def modify_def holds_journaled
        split: if_splits)
qed

lemma record_file_guarded: "guarded fs0 (journaled fs0) (record_file p) (\<lambda>_. recorded fs0 p)"
proof -
  have new: "guarded fs0 (\<lambda>s. holds fs0 t s \<and> \<not> path_is_symlink (fsys s) p)
      (bind (record_missing_directories t (path_parent p)) (\<lambda>t'. back_up_file t' p)) (\<lambda>_. recorded fs0 p)" for t
    by (rule guarded_bind, rule record_missing_directories_guarded [where K = "\<lambda>fs. \<not> path_is_symlink fs p"],
        rule back_up_file_guarded)
  have "guarded fs0 (\<lambda>s. holds fs0 t s \<and> path_is_symlink (fsys s) p = link)
      (if link then raise (InstallError (''refusing symlink installer file target: '' @ str_path p))
       else bind (record_missing_directories t (path_parent p)) (\<lambda>t'. back_up_file t' p)) (\<lambda>_. recorded fs0 p)" for t link
    using new [of t] by (cases link) (auto intro: guarded_basic holds_journaled)
  note linked = guarded_bind [OF guarded_basic(3) this]
  show ?thesis
    unfolding record_file_def
    by (rule guarded_bind [OF guarded_basic(3) [where Q = "\<lambda>at s. \<exists>t. at = Some t \<and> holds fs0 t s"]])
      (auto simp: journaled_def holds_def is_symlink_def intro!: linked guarded_basic already_recorded
        split: option.splits)
qed

lemma record_directory_guarded: "guarded fs0 (journaled fs0) (record_directory p) (\<lambda>_. covering fs0 p)"
proof (rule guardedI)
  fix s :: state and u s'
  assume "journaled fs0 s" and run: "record_directory p s = (Inr u, s')"
  then obtain t where t: "active_transaction s = Some t" and h: "holds fs0 t s"
    by (auto simp: journaled_def holds_def)
  from run t consider "s' = s" "path_is_dir (fsys s) p"
    | t' where "record_missing_directories t p s = (Inr t', s')"
    by (auto simp: record_directory_def is_symlink_def exists_p_def is_dir_def bind_def gets_def raise_def
        ret_def split: if_splits prod.splits sum.splits)
  then show "covering fs0 p s'"
  proof cases
    case 1
    with h have "covered (fsys s) t p"
      using dir_prefixes_dir [OF journal_tree [of fs0 "fsys s" t]] by (simp add: covered_def holds_def)
    with 1 h show ?thesis by (auto simp: covering_def)
  next
    case 2
    with h record_missing_directories_guarded [of fs0 t "\<lambda>_. True" p] show ?thesis
      by (fastforce simp: guarded_def covering_def)
  qed
next
  fix s :: state and e s'
  assume "journaled fs0 s" and run: "record_directory p s = (Inl e, s')"
  then obtain t where t: "active_transaction s = Some t" and h: "holds fs0 t s"
    by (auto simp: journaled_def holds_def)
  from run t consider "s' = s" | "record_missing_directories t p s = (Inl e, s')"
    by (auto simp: record_directory_def is_symlink_def exists_p_def is_dir_def bind_def gets_def raise_def
        ret_def split: if_splits prod.splits sum.splits)
  then show "journaled fs0 s'"
  proof cases
    case 2
    with h record_missing_directories_guarded [of fs0 t "\<lambda>_. True" p] show ?thesis
      by (fastforce simp: guarded_def)
  qed (use h in \<open>simp add: holds_journaled\<close>)
qed

text \<open>Creating directories on a covered path keeps the invariant and the journal.\<close>

lemma dir_entry_exists:
  assumes "tree_fs fs" "path_is_dir fs p" "entry fs p = Some r"
  shows "map_of fs r \<noteq> None"
proof (cases "link_target fs r")
  case None
  with assms show ?thesis using entry_realpath [of fs p r] by (auto simp: path_is_dir_realpath)
next
  case (Some a)
  then show ?thesis by (auto simp: link_target_def split: option.splits)
qed

lemma os_mkdir_keeps:
  assumes "os_mkdir p s = (x, s')" "holds fs0 t s" "covered (fsys s) t p"
  shows "holds fs0 t s' \<and> keeps_dirs (fsys s) (fsys s')"
proof -
  from os_mkdir_cases [OF assms(1)] consider "s' = s"
    | r where "entry (fsys s) p = Some r" "map_of (fsys s) r = None" "r \<noteq> []"
        "map_of (fsys s) (butlast r) = Some DirN" "s' = s\<lparr>fsys := AList.update r DirN (fsys s)\<rparr>"
    by blast
  then show ?thesis
  proof cases
    case (2 r)
    have "tree_fs (fsys s)" using assms(2) journal_tree by (auto simp: holds_def)
    from dir_entry_exists [OF this] 2(1,2) have "\<not> path_is_dir (fsys s) p" by blast
    with assms(3) have "p \<in> set (missing_directories t)" by (auto simp: covered_def)
    moreover have m: "map_of (fsys s') = (map_of (fsys s))(r := Some DirN)"
      by (simp add: 2 update_conv')
    moreover have J: "journal fs0 (fsys s) t" using assms(2) by (simp add: holds_def)
    ultimately have "journal fs0 (fsys s') t" using 2 by (blast intro: journal_mkdir)
    moreover have "keeps_dirs (fsys s) (fsys s')"
      by (rule new_dir_update [OF journal_tree [OF J] 2(2-4) m])
    ultimately show ?thesis using assms(2) 2(5) by (simp add: holds_def)
  qed (use assms in simp)
qed

lemma mkdir_exist_ok_keeps:
  assumes "mkdir_exist_ok p s = (x, s')" "holds fs0 t s" "covered (fsys s) t p"
  shows "holds fs0 t s' \<and> keeps_dirs (fsys s) (fsys s')"
proof -
  obtain y u where u: "os_mkdir p s = (y, u)" by fastforce
  from assms(1) have "s' = u"
    by (auto simp: mkdir_exist_ok_def catch_def u is_dir_def bind_def gets_def raise_def ret_def
        split: sum.splits if_splits)
  with os_mkdir_keeps [OF u assms(2,3)] show ?thesis by simp
qed

lemma mkdir_parents_keeps:
  assumes "mkdir_parents p s = (x, s')" "holds fs0 t s" "covered (fsys s) t p"
  shows "holds fs0 t s' \<and> keeps_dirs (fsys s) (fsys s')"
  using assms
proof (induction p arbitrary: s x s' rule: mkdir_parents.induct)
  case (1 p)
  obtain y u where u: "os_mkdir p s = (y, u)" by fastforce
  note first = os_mkdir_keeps [OF u "1.prems"(2,3)]
  from "1.prems"(1) consider "s' = u"
    | e where "y = Inl e" "e = OSErr ENOENT p" "p \<noteq> []"
        "bind (mkdir_parents (butlast p)) (\<lambda>_. mkdir_exist_ok p) u = (x, s')"
    by (subst (asm) mkdir_parents.simps)
      (auto simp: catch_def u is_dir_def bind_def gets_def raise_def ret_def split: sum.splits if_splits)
  then show ?case
  proof cases
    case (2 e)
    obtain z v where v: "mkdir_parents (butlast p) u = (z, v)" by fastforce
    have cov: "covered (fsys u) t p" using first "1.prems"(3) by (auto intro: covered_mono)
    then have "covered (fsys u) t (butlast p)"
      by (rule covered_mono) (auto simp: prefixeq_butlast)
    with "1.IH" [OF 2(2,3) v] first have up: "holds fs0 t v \<and> keeps_dirs (fsys u) (fsys v)" by blast
    from 2(4) consider "s' = v" | "mkdir_exist_ok p v = (x, s')"
      by (auto simp: bind_def v split: sum.splits)
    then show ?thesis
    proof cases
      case 1
      with up first show ?thesis using keeps_dirs_trans by blast
    next
      case 2
      from up cov have "covered (fsys v) t p" by (auto intro: covered_mono)
      with mkdir_exist_ok_keeps [OF 2] up first show ?thesis using keeps_dirs_trans by blast
    qed
  qed (use first in simp)
qed

lemma mkdir_parents_guarded:
  "guarded fs0 (covering fs0 q) (mkdir_parents q) (\<lambda>_. journaled fs0)"
  "guarded fs0 (recorded fs0 p) (mkdir_parents (path_parent p)) (\<lambda>_. recorded fs0 p)"
  using mkdir_parents_keeps
  by (rule_tac [!] guardedI)
    (unfold covering_def recorded_def, meson holds_journaled, meson holds_journaled,
      meson covered_mono prefix_order.refl subset_refl, meson holds_journaled)

lemma store_guarded:
  assumes "leaf (Some n)"
  shows "guarded fs0 (recorded fs0 p) (store p n) (\<lambda>_. journaled fs0)"
proof -
  have "journaled fs0 s'" if rec: "recorded fs0 p s" and run: "store p n s = (x, s')" for s x s'
  proof -
    from rec obtain t where t: "active_transaction s = Some t" and J: "journal fs0 (fsys s) t"
      and p: "p \<in> fst ` set (files t)" by (auto simp: recorded_def holds_def)
    from store_cases [OF run journal_tree [OF J]] consider "s' = s"
      | r where "realpath (fsys s) p = Some r" "leaf (map_of (fsys s) r)" "r \<noteq> []"
          "map_of (fsys s) (butlast r) = Some DirN" "s' = s\<lparr>fsys := AList.update r n (fsys s)\<rparr>"
      by blast
    then show ?thesis
    proof cases
      case (2 r)
      have "journal fs0 (AList.update r n (fsys s)) t"
        by (rule journal_leaf [OF J p 2(1,2) assms 2(3,4)]) (rule update_conv')
      with t 2(5) show ?thesis by (simp add: journaled_def)
    qed (use rec in \<open>simp add: recorded_journaled\<close>)
  qed
  then show ?thesis by (blast intro: guardedI)
qed

lemma unlink_guarded:
  "guarded fs0 (\<lambda>s. recorded fs0 p s \<and> path_is_file (fsys s) p \<and> \<not> path_is_symlink (fsys s) p)
     (unlink p) (\<lambda>_. journaled fs0)"
proof -
  have "journaled fs0 s'" if rec: "recorded fs0 p s" and "path_is_file (fsys s) p"
    and ln: "\<not> path_is_symlink (fsys s) p" and run: "unlink p s = (x, s')" for s x s'
  proof -
    from rec obtain t where t: "active_transaction s = Some t" and J: "journal fs0 (fsys s) t"
      and p: "p \<in> fst ` set (files t)" by (auto simp: recorded_def holds_def)
    from \<open>path_is_file (fsys s) p\<close> obtain r where r: "realpath (fsys s) p = Some r" "leaf (map_of (fsys s) r)"
      by (auto simp: path_is_file_def stat_def leaf_def split: option.splits)
    from unlink_cases [OF run] realpath_entry [OF r(1) ln] consider "s' = s"
      | n where "map_of (fsys s) r = Some n" "n \<noteq> DirN" "s' = s\<lparr>fsys := AList.delete r (fsys s)\<rparr>"
      by auto
    then show ?thesis
    proof cases
      case (2 n)
      with journal_tree [OF J] have "r \<noteq> []" "map_of (fsys s) (butlast r) = Some DirN"
        by (auto simp: tree_fs_def)
      then have "journal fs0 (AList.delete r (fsys s)) t"
        using journal_leaf [OF J p r, of None] by (simp add: delete_conv')
      with t 2(3) show ?thesis by (simp add: journaled_def)
    qed (use rec in \<open>simp add: recorded_journaled\<close>)
  qed
  then show ?thesis by (intro guardedI) blast+
qed

lemma record_file_fsys: "fsys (snd (record_file p s)) = fsys s"
proof -
  have "fsys (snd (record_missing_directories t q u)) = fsys u" for t q u
    by (auto simp: record_missing_directories_def bind_def gets_def set_txn_def modify_def lift_def ret_def
        Let_def split: prod.splits sum.splits)
  moreover have "fsys (snd (back_up_file t p u)) = fsys u" for t u
    by (simp add: back_up_file_def bind_def gets_def raise_def set_txn_def modify_def)
  ultimately show ?thesis
    by (auto simp: record_file_def is_symlink_def bind_def gets_def raise_def ret_def
        split: option.splits prod.splits sum.splits) (metis snd_conv)+
qed

lemma guarded_query:
  "query m \<Longrightarrow> (\<And>s. P s \<Longrightarrow> journaled fs0 s) \<Longrightarrow> guarded fs0 P m (\<lambda>_. P)"
  by (rule guardedI) (metis queryD snd_conv)+

lemma guarded_weaken:
  "guarded fs0 P m Q \<Longrightarrow> (\<And>s. P' s \<Longrightarrow> P s) \<Longrightarrow> guarded fs0 P' m Q"
  by (simp add: guarded_def)

lemma say_guarded: "guarded fs0 (journaled fs0) (say line) (\<lambda>_. journaled fs0)"
  by (simp add: guarded_def say_def modify_def journaled_def)

lemma write_file_guarded: "guarded fs0 (journaled fs0) (write_file p contents) (\<lambda>_. journaled fs0)"
proof -
  have "guarded fs0 (recorded fs0 p) (write_text p contents) (\<lambda>_. journaled fs0)"
    unfolding write_text_def by (rule store_guarded) simp
  then show ?thesis
    unfolding write_file_def
    by (intro guarded_bind [OF guarded_query] guarded_if guarded_basic(1,2)
        guarded_bind [OF record_file_guarded] guarded_bind [OF mkdir_parents_guarded(2)]
        guarded_bind [OF _ say_guarded] queries)
qed

lemma remove_file_guarded: "guarded fs0 (journaled fs0) (remove_file p description) (\<lambda>_. journaled fs0)"
proof -
  let ?K = "\<lambda>fs. path_is_file fs p \<and> \<not> path_is_symlink fs p"
  have "guarded fs0 (\<lambda>s. journaled fs0 s \<and> ?K (fsys s)) (record_file p) (\<lambda>_ s. recorded fs0 p s \<and> ?K (fsys s))"
  proof (rule guardedI)
    fix s :: state and u s'
    assume "journaled fs0 s \<and> ?K (fsys s)" "record_file p s = (Inr u, s')"
    then show "recorded fs0 p s' \<and> ?K (fsys s')"
      using record_file_fsys [of p s] record_file_guarded [of fs0 p] by (fastforce simp: guarded_def)
  next
    fix s :: state and e s'
    assume "journaled fs0 s \<and> ?K (fsys s)" "record_file p s = (Inl e, s')"
    then show "journaled fs0 s'" using record_file_guarded [of fs0 p] by (fastforce simp: guarded_def)
  qed
  note steps = guarded_bind [OF this guarded_bind [OF unlink_guarded say_guarded]]
  have body: "guarded fs0 (\<lambda>s. journaled fs0 s \<and> path_is_symlink (fsys s) p = link \<and> path_is_file (fsys s) p = regular)
      (if link \<or> \<not> regular then
         raise (InstallError (''refusing non-regular installer removal target: '' @ str_path p))
       else bind (record_file p) (\<lambda>_. bind (unlink p) (\<lambda>_.
         say (''ABK KSU Sandbox: removed '' @ description @ '' '' @ str_path p)))) (\<lambda>_. journaled fs0)" for link regular
    by (rule guarded_if) (auto intro: guarded_basic guarded_weaken [OF steps])
  have regular: "guarded fs0 (\<lambda>s. journaled fs0 s \<and> path_is_symlink (fsys s) p = link)
      (bind (gets (\<lambda>s. path_is_file (fsys s) p)) (\<lambda>regular.
       if link \<or> \<not> regular then
         raise (InstallError (''refusing non-regular installer removal target: '' @ str_path p))
       else bind (record_file p) (\<lambda>_. bind (unlink p) (\<lambda>_.
         say (''ABK KSU Sandbox: removed '' @ description @ '' '' @ str_path p))))) (\<lambda>_. journaled fs0)" for link
    by (rule guarded_bind, rule_tac [2] body, rule guarded_basic(3)) simp
  show ?thesis
    unfolding remove_file_def is_symlink_def is_file_def exists_p_def
    by (rule guarded_bind [OF guarded_basic(3) [where Q = "\<lambda>ex. journaled fs0"]], assumption,
        rule guarded_if, rule guarded_basic(1), assumption,
        rule guarded_bind, rule_tac [2] regular, rule guarded_basic(3)) simp
qed

text \<open>The relation that all of \<open>install_body\<close> respects.\<close>

definition keeps_journal :: "state \<Rightarrow> state \<Rightarrow> bool" where
  "keeps_journal s s' \<longleftrightarrow> (\<forall>fs0. journaled fs0 s \<longrightarrow> journaled fs0 s')"

lemma guarded_runs:
  assumes "\<And>fs0. guarded fs0 (journaled fs0) m (\<lambda>_. journaled fs0)"
  shows "runs keeps_journal m"
  unfolding runs_def keeps_journal_def
proof (intro allI impI)
  fix s :: state and fs0
  assume "journaled fs0 s"
  with assms [of fs0] show "journaled fs0 (snd (m s))"
    by (cases "m s"; cases "fst (m s)") (auto simp: guarded_def)
qed

interpretation transaction: install_effects keeps_journal "\<lambda>_. True"
proof
  show "runs keeps_journal (bind (record_directory p) (\<lambda>_. mkdir_parents p))" for p
    by (intro guarded_runs guarded_bind [OF record_directory_guarded mkdir_parents_guarded(1)])
qed (auto simp: keeps_journal_def journaled_def
    intro: guarded_runs [OF write_file_guarded] guarded_runs [OF remove_file_guarded])

end
