(* ===== verification/Rollback.thy ===== *)
theory Rollback
  imports Journal Read_Only
begin

text \<open>
  Rolling back a journaled installation: a rollback that reports no failure has restored the file
  system in which the transaction began, and a rollback can only fail with its own error. With the
  invariant of \<open>Journal\<close> this makes \<^verbatim>\<open>install\<close> all-or-nothing.
\<close>

subsection \<open>A rollback without failures\<close>

lemma mapM_attempt_ok:
  "mapM (\<lambda>x. attempt (f x) (g x)) xs s = (Inr ys, s') \<Longrightarrow> concat ys = [] \<Longrightarrow> forM g xs s = (Inr (), s')"
proof (induction xs arbitrary: s ys)
  case (Cons x xs)
  from Cons.prems obtain y u zs where y: "attempt (f x) (g x) s = (Inr y, u)"
    and rest: "mapM (\<lambda>x. attempt (f x) (g x)) xs u = (Inr zs, s')" and ys: "ys = y # zs"
    by (auto simp: bind_def ret_def split: prod.splits sum.splits)
  from y Cons.prems(2) ys have "g x s = (Inr (), u)"
    by (auto simp: attempt_def catch_def bind_def ret_def raise_def split: prod.splits sum.splits option.splits)
  with Cons.IH [OF rest] Cons.prems(2) ys show ?case by (simp add: bind_def)
qed (simp add: ret_def)

lemma rollback_ok:
  assumes "rollback t s = (Inr (), s')"
  obtains u where "forM (\<lambda>(p, b). restore_file p b) (rev (files t)) s = (Inr (), u)"
    "forM remove_directory (rev (sort_key length (rev (missing_directories t)))) u = (Inr (), s')"
proof -
  have eta: "(\<lambda>(p, backup). attempt p (restore_file p backup)) = (\<lambda>x. attempt (fst x) (restore_file (fst x) (snd x)))"
    "(\<lambda>x. restore_file (fst x) (snd x)) = (\<lambda>(p, b). restore_file p b)" by auto
  from assms obtain xs u ys where
    1: "mapM (\<lambda>x. attempt (fst x) (restore_file (fst x) (snd x))) (rev (files t)) s = (Inr xs, u)" and
    2: "mapM (\<lambda>p. attempt p (remove_directory p)) (rev (sort_key length (rev (missing_directories t)))) u = (Inr ys, s')"
    and 3: "concat xs = []" "concat ys = []"
    by (auto simp: rollback_def eta(1) bind_def raise_when_def raise_def ret_def Let_def
        split: prod.splits sum.splits if_splits)
  from mapM_attempt_ok [OF 1 3(1)] mapM_attempt_ok [OF 2 3(2)] that show thesis
    by (simp add: eta(2))
qed

subsection \<open>Restoring the files\<close>

lemma mkdir_parents_existing:
  assumes "path_is_dir (fsys s) p" "tree_fs (fsys s)"
  shows "snd (mkdir_parents p s) = s"
proof -
  obtain r where r: "realpath (fsys s) p = Some r" using assms by (auto simp: path_is_dir_realpath)
  obtain x u where run: "os_mkdir p s = (x, u)" by fastforce
  have "entry (fsys s) p \<noteq> None"
    using r walk_prefix [of max_links "fsys s" "[]" "butlast p" "last p"]
    by (cases "p = []") (auto simp: entry_def realpath_def)
  then obtain e where e: "entry (fsys s) p = Some e" by blast
  with dir_entry_exists [OF assms(2,1) e] have "os_mkdir p s = (Inl (OSErr EEXIST p), s)"
    by (simp add: os_mkdir_def bind_def gets_def raise_def)
  with assms(1) show ?thesis
    by (subst mkdir_parents.simps) (simp add: catch_def is_dir_def bind_def gets_def ret_def)
qed

text \<open>A successful restore of a leaf puts the backup at the real path of the file.\<close>

lemma restore_file_ok:
  assumes run: "restore_file p b s = (Inr (), s')" and tree: "tree_fs (fsys s)"
    and ln: "\<not> path_is_symlink (fsys s) p" and "leaf b" "b \<noteq> None \<longrightarrow> path_is_dir (fsys s) (path_parent p)"
  shows "map_of (fsys s') = (case realpath (fsys s) p of None \<Rightarrow> map_of (fsys s) | Some r \<Rightarrow> (map_of (fsys s))(r := b))
    \<and> keeps_dirs (fsys s) (fsys s') \<and> tree_fs (fsys s')"
proof (cases b)
  case None
  show ?thesis
  proof (cases "path_is_file (fsys s) p")
    case True
    then obtain r where r: "realpath (fsys s) p = Some r" "leaf (map_of (fsys s) r)"
      by (auto simp: path_is_file_def stat_def leaf_def split: option.splits)
    from run True ln None have "unlink p s = (Inr (), s')"
      by (simp add: restore_file_def bind_def gets_def)
    from unlink_cases [OF this] realpath_entry [OF r(1) ln] obtain n
      where n: "map_of (fsys s) r = Some n" "n \<noteq> DirN" "s' = s\<lparr>fsys := AList.delete r (fsys s)\<rparr>" by auto
    from tree n(1,2) have par: "r \<noteq> []" "map_of (fsys s) (butlast r) = Some DirN" by (auto simp: tree_fs_def)
    have m: "map_of (fsys s') = (map_of (fsys s))(r := None)" by (simp add: n(3) delete_conv')
    from leaf_update [OF tree r(2) _ par m] m r(1) None show ?thesis by simp
  next
    case False
    with run ln None have "s' = s" "\<not> path_exists (fsys s) p"
      by (auto simp: restore_file_def bind_def gets_def raise_def ret_def split: if_splits)
    with None tree show ?thesis by (auto simp: path_exists_def stat_def split: option.splits)
  qed
next
  case (Some n)
  with assms(5) have d: "path_is_dir (fsys s) (path_parent p)" by simp
  from run Some ln mkdir_parents_existing [OF d tree] have "store p n s = (Inr (), s')"
    by (auto simp: restore_file_def raise_when_def bind_def gets_def raise_def ret_def
        split: prod.splits sum.splits if_splits)
  from store_cases [OF this tree] obtain r where r: "realpath (fsys s) p = Some r" "leaf (map_of (fsys s) r)"
      "r \<noteq> []" "map_of (fsys s) (butlast r) = Some DirN" "s' = s\<lparr>fsys := AList.update r n (fsys s)\<rparr>" by auto
  have m: "map_of (fsys s') = (map_of (fsys s))(r := Some n)" by (simp add: r(5) update_conv')
  from leaf_update [OF tree r(2) _ r(3,4) m] assms(4) m r(1) Some show ?thesis by simp
qed

lemma restore_files_ok:
  assumes "forM (\<lambda>(p, b). restore_file p b) (rev fl) s = (Inr (), s')" "tree_fs (fsys s)" "keeps_dirs fs0 (fsys s)"
    and "\<forall>(p, b)\<in>set fl. \<not> path_is_symlink fs0 p \<and> leaf b \<and> (b \<noteq> None \<longrightarrow> path_is_dir (fsys s) (path_parent p))"
  shows "map_of (fsys s') = undo fs0 fl (map_of (fsys s)) \<and> keeps_dirs fs0 (fsys s')"
  using assms
proof (induction fl arbitrary: s rule: rev_induct)
  case (snoc pb fl)
  obtain p b where pb: "pb = (p, b)" by fastforce
  with snoc.prems(1) obtain u where first: "restore_file p b s = (Inr (), u)"
    and rest: "forM (\<lambda>(p, b). restore_file p b) (rev fl) u = (Inr (), s')"
    by (auto simp: bind_def split: prod.splits sum.splits)
  from snoc.prems(4) pb have p: "\<not> path_is_symlink (fsys s) p" "leaf b"
      "b \<noteq> None \<longrightarrow> path_is_dir (fsys s) (path_parent p)"
    using keeps_dirs_symlink [OF snoc.prems(3)] by auto
  note one = restore_file_ok [OF first snoc.prems(2) p]
  have "\<forall>(p, b)\<in>set fl. \<not> path_is_symlink fs0 p \<and> leaf b \<and> (b \<noteq> None \<longrightarrow> path_is_dir (fsys u) (path_parent p))"
    using snoc.prems(4) one by (auto intro: keeps_dirs_path)
  with snoc.IH [OF rest] one snoc.prems(3) pb show ?case
    using keeps_dirs_trans [of fs0 "fsys s" "fsys u"] keeps_dirs_realpath [OF snoc.prems(3)]
    by (auto simp: undo_snoc)
qed (simp add: ret_def)

subsection \<open>Removing the directories\<close>

lemma remove_directory_ok:
  assumes "remove_directory d s = (Inr (), s')"
  shows "\<exists>r. entry (fsys s) d = Some r \<and> map_of (fsys s') r = None \<and> link_target (fsys s') = link_target (fsys s) \<and>
    (s' = s \<or> map_of (fsys s) r = Some DirN \<and> map_of (fsys s') = (map_of (fsys s))(r := None))"
proof -
  obtain x u where run: "rmdir d s = (x, u)" by fastforce
  with assms have u: "u = s'" and x: "x = Inr () \<or> x = Inl (OSErr ENOENT d)"
    by (auto simp: remove_directory_def catch_def ret_def raise_def split: sum.splits if_splits)
  from rmdir_cases [OF run] x consider (gone) r where "s' = s" "entry (fsys s) d = Some r" "map_of (fsys s) r = None"
    | (removed) r where "entry (fsys s) d = Some r" "map_of (fsys s) r = Some DirN"
        "s' = s\<lparr>fsys := AList.delete r (fsys s)\<rparr>"
    using u by auto
  then show ?thesis
  proof cases
    case (removed r)
    have m: "map_of (fsys s') = (map_of (fsys s))(r := None)" by (simp add: removed(3) delete_conv')
    with removed(2) have "link_target (fsys s') = link_target (fsys s)"
      by (auto simp: fun_eq_iff link_target_def)
    with removed m show ?thesis by simp
  qed auto
qed

lemma remove_directories_ok:
  assumes "forM remove_directory ds s = (Inr (), s')" "link_target (fsys s) = link_target fs0"
  shows "(\<forall>d\<in>set ds. \<forall>r. entry fs0 d = Some r \<longrightarrow> map_of (fsys s') r = None) \<and>
    (\<forall>r. map_of (fsys s') r = map_of (fsys s) r \<or> map_of (fsys s') r = None \<and>
       map_of (fsys s) r = Some DirN \<and> (\<exists>d\<in>set ds. entry fs0 d = Some r))"
  using assms
proof (induction ds arbitrary: s)
  case (Cons d ds)
  from Cons.prems(1) obtain u where first: "remove_directory d s = (Inr (), u)"
    and rest: "forM remove_directory ds u = (Inr (), s')"
    by (auto simp: bind_def split: prod.splits sum.splits)
  from remove_directory_ok [OF first] Cons.prems(2) obtain r where r: "entry fs0 d = Some r" "map_of (fsys u) r = None"
    "link_target (fsys u) = link_target fs0"
    "u = s \<or> map_of (fsys s) r = Some DirN \<and> map_of (fsys u) = (map_of (fsys s))(r := None)"
    using entry_cong [of "fsys s" fs0] by auto
  note IH = Cons.IH [OF rest r(3)]
  have gone: "map_of (fsys s') r = None" using IH r(2) by (metis option.distinct(1))
  have "map_of (fsys s') q = map_of (fsys s) q \<or> map_of (fsys s') q = None \<and>
      map_of (fsys s) q = Some DirN \<and> (\<exists>d'\<in>set (d # ds). entry fs0 d' = Some q)" for q
  proof (cases "q = r")
    case True
    with r gone show ?thesis by auto
  next
    case False
    with r(4) have "map_of (fsys u) q = map_of (fsys s) q" by auto
    with conjunct2 [OF IH, THEN spec, of q] show ?thesis by auto
  qed
  with IH r(1) gone show ?case by auto
qed (simp add: ret_def)

lemma rollback_restores:
  assumes J: "journal fs0 (fsys s) t" and "rollback t s = (Inr (), s')"
  shows "map_of (fsys s') = map_of fs0"
proof -
  let ?ds = "rev (sort_key length (rev (missing_directories t)))"
  obtain u where files: "forM (\<lambda>(p, b). restore_file p b) (rev (files t)) s = (Inr (), u)"
    and dirs: "forM remove_directory ?ds u = (Inr (), s')" using rollback_ok [OF assms(2)] .
  have "map_of (fsys u) = undo fs0 (files t) (map_of (fsys s)) \<and> keeps_dirs fs0 (fsys u)"
    by (rule restore_files_ok [OF files]) (use J in \<open>auto simp: journal_def journal_files_def\<close>)
  then have u: "map_of (fsys u) = undo fs0 (files t) (map_of (fsys s))"
    and "link_target (fsys u) = link_target fs0" by (auto simp: keeps_dirs_def)
  note rm = remove_directories_ok [OF dirs this(2)]
  show ?thesis
  proof
    fix r
    consider (same) "map_of (fsys u) r = map_of fs0 r"
      | (left) d where "map_of (fsys u) r = Some DirN" "map_of fs0 r = None" "d \<in> set (missing_directories t)"
          "realpath fs0 d = Some r"
      using J unfolding journal_def journal_undo_def u by blast
    then show "map_of (fsys s') r = map_of fs0 r"
    proof cases
      case same
      show ?thesis
      proof (rule ccontr)
        assume "map_of (fsys s') r \<noteq> map_of fs0 r"
        with conjunct2 [OF rm, THEN spec, of r] same obtain d where d: "map_of fs0 r = Some DirN" "d \<in> set (missing_directories t)" "entry fs0 d = Some r"
          by auto
        then have "realpath fs0 d = Some r" by (intro entry_realpath) (auto simp: link_target_def)
        with d J show False by (auto simp: journal_def journal_dirs_def)
      qed
    next
      case (left d)
      then have "entry fs0 d = Some r"
        using J by (intro realpath_entry) (auto simp: journal_def journal_dirs_def)
      with left rm show ?thesis by auto
    qed
  qed
qed

subsection \<open>A rollback that fails\<close>

text \<open>Procedures whose exceptions are all operating-system errors.\<close>

definition os_only :: "'a io \<Rightarrow> bool" where
  "os_only m \<longleftrightarrow> (\<forall>s e s'. m s = (Inl e, s') \<longrightarrow> oserror_text e \<noteq> None)"

lemma os_only_bind: "os_only m \<Longrightarrow> (\<And>x. os_only (f x)) \<Longrightarrow> os_only (bind m f)"
  unfolding os_only_def by (auto simp: bind_def split: prod.splits sum.splits)

lemma os_only_basic: "os_only (ret x)" "os_only (gets f)" "os_only (set_fs fs)" "os_only (raise (OSErr n p))"
    "os_only (raise (OSMsg m))" "os_only (raise_when b (OSMsg m))"
  by (auto simp: os_only_def ret_def gets_def set_fs_def modify_def raise_def raise_when_def oserror_text_def)

lemma os_only_catch:
  assumes "os_only m" "\<And>e. oserror_text e \<noteq> None \<Longrightarrow> os_only (h e)"
  shows "os_only (catch m h)"
  unfolding os_only_def
proof (intro allI impI)
  fix s :: state and e s'
  assume "catch m h s = (Inl e, s')"
  then obtain d u where "m s = (Inl d, u)" "h d u = (Inl e, s')"
    by (auto simp: catch_def split: prod.splits sum.splits)
  with assms show "oserror_text e \<noteq> None" unfolding os_only_def by metis
qed

lemma os_only_raise: "oserror_text e \<noteq> None \<Longrightarrow> os_only (raise e)"
  by (simp add: os_only_def raise_def)

lemma os_only_ops: "os_only (unlink p)" "os_only (rmdir p)" "os_only (store p n)" "os_only (os_mkdir p)"
  unfolding unlink_def rmdir_def store_def os_mkdir_def
  by (auto intro!: os_only_bind os_only_basic split: option.splits node.splits)

lemma os_only_mkdir_exist_ok: "os_only (mkdir_exist_ok p)"
  unfolding mkdir_exist_ok_def is_dir_def
  by (auto intro!: os_only_catch os_only_ops os_only_bind os_only_basic os_only_raise)

lemma os_only_mkdir_parents: "os_only (mkdir_parents p)"
proof (induction p rule: mkdir_parents.induct)
  case (1 p)
  then show ?case
    by (subst mkdir_parents.simps)
      (auto simp: is_dir_def intro!: os_only_catch os_only_ops os_only_bind os_only_basic os_only_raise
        os_only_mkdir_exist_ok)
qed

lemma os_only_restore_file: "os_only (restore_file p b)"
  unfolding restore_file_def
  by (cases b) (auto intro!: os_only_bind os_only_basic os_only_ops os_only_mkdir_parents)

lemma os_only_remove_directory: "os_only (remove_directory p)"
  unfolding remove_directory_def by (auto intro!: os_only_catch os_only_ops os_only_basic os_only_raise)

lemma attempt_returns:
  assumes "os_only m"
  shows "\<exists>x s'. attempt p m s = (Inr x, s')"
proof (cases "m s")
  case (Pair x u)
  show ?thesis
  proof (cases x)
    case (Inl e)
    with Pair assms obtain text' where "oserror_text e = Some text'" by (auto simp: os_only_def)
    with Inl Pair show ?thesis by (simp add: attempt_def catch_def bind_def ret_def)
  qed (simp add: Pair attempt_def catch_def bind_def ret_def)
qed

lemma mapM_attempt_returns: "(\<And>x. os_only (g x)) \<Longrightarrow> \<exists>ys s'. mapM (\<lambda>x. attempt (f x) (g x)) xs s = (Inr ys, s')"
proof (induction xs arbitrary: s)
  case (Cons x xs)
  obtain y u where "attempt (f x) (g x) s = (Inr y, u)" using attempt_returns Cons.prems by blast
  moreover obtain ys s' where "mapM (\<lambda>x. attempt (f x) (g x)) xs u = (Inr ys, s')" using Cons by blast
  ultimately show ?case by (simp add: bind_def ret_def)
qed (simp add: ret_def)

lemma rollback_error:
  assumes "rollback t s = (Inl e, s')"
  shows "\<exists>m. e = InstallError (''installation rollback failed: '' @ m)"
proof -
  have eta: "(\<lambda>(p, backup). attempt p (restore_file p backup)) = (\<lambda>x. attempt (fst x) (restore_file (fst x) (snd x)))"
    by auto
  obtain xs u where 1: "mapM (\<lambda>x. attempt (fst x) (restore_file (fst x) (snd x))) (rev (files t)) s = (Inr xs, u)"
    using mapM_attempt_returns [of "\<lambda>x. restore_file (fst x) (snd x)" fst] os_only_restore_file by blast
  obtain ys v where 2: "mapM (\<lambda>p. attempt p (remove_directory p)) (rev (sort_key length (rev (missing_directories t)))) u = (Inr ys, v)"
    using mapM_attempt_returns [of remove_directory "\<lambda>x. x"] os_only_remove_directory by blast
  from assms show ?thesis
    unfolding rollback_def eta
    by (auto simp: bind_def 1 2 raise_when_def raise_def ret_def Let_def split: if_splits)
qed

subsection \<open>Installation\<close>

lemma with_transaction_atomic:
  assumes "runs keeps_journal body" and run: "with_transaction body s = (Inl e, s')"
    and "active_transaction s = None" and tree: "tree_fs (fsys s)"
  shows "map_of (fsys s') = map_of (fsys s) \<or> (\<exists>m. e = InstallError (''installation rollback failed: '' @ m))"
proof -
  let ?s = "s\<lparr>active_transaction := Some empty_txn\<rparr>"
  obtain x u where u: "body ?s = (x, u)" by fastforce
  have "journaled (fsys s) ?s" using journal_start [OF tree] by (simp add: journaled_def)
  with assms(1) u have "journaled (fsys s) u" by (auto simp: runs_def keeps_journal_def dest: spec [of _ ?s])
  then obtain t where t: "active_transaction u = Some t" and J: "journal (fsys s) (fsys u) t"
    by (auto simp: journaled_def)
  have enter: "transaction_enter s = (Inr (), ?s)"
    by (simp add: transaction_enter_def bind_def gets_def assms(3) set_txn_def modify_def)
  have exn: "transaction_exit (Some d) u = (Inl e, s')" if "x = Inl d" for d
    using run that by (auto simp: with_transaction_def bind_def enter catch_def u transaction_exit_def
        end_transaction_def modify_def split: prod.splits sum.splits)
  obtain d where x: "x = Inl d"
    using run by (cases x) (auto simp: with_transaction_def bind_def enter catch_def u transaction_exit_def
        end_transaction_def modify_def)
  obtain y v where v: "rollback t u = (y, v)" by fastforce
  show ?thesis
  proof (cases y)
    case (Inl f)
    with exn [OF x] v t have "e = f"
      by (auto simp: transaction_exit_def bind_def gets_def catch_def end_transaction_def modify_def raise_def)
    with rollback_error v Inl show ?thesis by blast
  next
    case (Inr w)
    with exn [OF x] v t have "fsys s' = fsys v"
      by (auto simp: transaction_exit_def bind_def gets_def catch_def end_transaction_def modify_def raise_def
          whenM_def complain_def ret_def split: if_splits)
    with rollback_restores [OF J, of v] v Inr show ?thesis by simp
  qed
qed

lemma bind_query_error:
  assumes "query m" "bind m f s = (Inl e, s')"
  shows "s' = s \<or> (\<exists>x. f x s = (Inl e, s'))"
  using assms queryD [OF assms(1), of s]
  by (auto simp: bind_def split: prod.splits sum.splits)

text \<open>An \<^verbatim>\<open>install\<close> that raises has raised in its checks, without an effect, or in its transaction.\<close>

lemma install_error:
  assumes "install l root dc s = (Inl e, s')"
  shows "s' = s \<or> (\<exists>p. with_transaction (install_body l root p) s = (Inl e, s'))"
proof -
  have q: "query (case dc of None \<Rightarrow> ret () | Some d \<Rightarrow> validate_defconfig d False)"
    by (intro queries)
  have body: "bind (with_transaction (install_body l root p)) (\<lambda>_. report ''installed'' l p) s = (Inl e, s') \<Longrightarrow>
      with_transaction (install_body l root p) s = (Inl e, s')" for p
    by (auto simp: bind_def report_def say_def modify_def split: prod.splits sum.splits)
  from bind_query_error [OF q assms [unfolded install_def]] show ?thesis
    by (auto dest!: bind_query_error [OF query_tail_policy] bind_query_error [OF query_tail_config] body)
qed

lemma install_atomic:
  assumes "install l root dc s = (Inl e, s')" "active_transaction s = None" "tree_fs (fsys s)"
  shows "map_of (fsys s') = map_of (fsys s) \<or> (\<exists>m. e = InstallError (''installation rollback failed: '' @ m))"
proof -
  have "runs keeps_journal (install_body l root p)" for p by (rule transaction.runs_install_body) simp
  with install_error [OF assms(1)] with_transaction_atomic [OF _ _ assms(2,3)] show ?thesis by blast
qed

lemma run_command_atomic:
  assumes "run_command a s = (Inl e, s')" "active_transaction s = None" "tree_fs (fsys s)"
  shows "map_of (fsys s') = map_of (fsys s) \<or> (\<exists>m. e = InstallError (''installation rollback failed: '' @ m))"
proof -
  from bind_query_error [OF query_basic(4) assms(1) [unfolded run_command_def]] show ?thesis
  proof (elim disjE exE)
    fix root assume "bind (discover root) (\<lambda>layout. case command_of a of
         Detect \<Rightarrow> say (''variant='' @ variant layout @ '' kernel='' @ version layout @ '' ksu='' @ str_path (ksu layout))
       | Install \<Rightarrow> bind (gets (\<lambda>s. path_resolve (fsys s) (module_root_arg a))) (\<lambda>module_root.
           install layout module_root (defconfig_arg a))
       | Verify \<Rightarrow> bind (gets (\<lambda>s. path_resolve (fsys s) (module_root_arg a))) (\<lambda>module_root.
           verify layout module_root (defconfig_arg a))) s = (Inl e, s')"
    from bind_query_error [OF query_discover this] show ?thesis
    proof (elim disjE exE)
      fix l assume cmd: "(case command_of a of
           Detect \<Rightarrow> say (''variant='' @ variant l @ '' kernel='' @ version l @ '' ksu='' @ str_path (ksu l))
         | Install \<Rightarrow> bind (gets (\<lambda>s. path_resolve (fsys s) (module_root_arg a))) (\<lambda>module_root.
             install l module_root (defconfig_arg a))
         | Verify \<Rightarrow> bind (gets (\<lambda>s. path_resolve (fsys s) (module_root_arg a))) (\<lambda>module_root.
             verify l module_root (defconfig_arg a))) s = (Inl e, s')"
      let ?m = "path_resolve (fsys s) (module_root_arg a)"
      show ?thesis
      proof (cases "command_of a")
        case Install
        with cmd have "install l ?m (defconfig_arg a) s = (Inl e, s')" by (simp add: bind_def gets_def)
        then show ?thesis by (rule install_atomic [OF _ assms(2,3)])
      next
        case Verify
        with cmd have "verify l ?m (defconfig_arg a) s = (Inl e, s')" by (simp add: bind_def gets_def)
        with same_tree_verify [of l ?m "defconfig_arg a"] have "fsys s' = fsys s"
          by (auto simp: runs_def same_tree_def dest: spec [of _ s])
        then show ?thesis by simp
      next
        case Detect
        with cmd show ?thesis by (simp add: say_def modify_def)
      qed
    qed simp
  qed simp
qed

subsection \<open>Properties\<close>

text \<open>
  C1: the installer is all or nothing. Whenever \<^verbatim>\<open>main\<close> does not finish with exit status 0 - it returns
  1 or an exception escapes it - the file system is the one it started from, entry by entry, however
  many files were written, directories created and artefacts removed before the failure. The only
  exception is a run whose last line on the error stream says that the rollback failed. The
  start state has no active transaction and every entry of its file system lies in a directory.
\<close>

theorem main_all_or_nothing:
  assumes "main a s = (r, s')" "r \<noteq> Inr 0" "active_transaction s = None" "tree_fs (fsys s)"
  shows "map_of (fsys s') = map_of (fsys s) \<or>
    (\<exists>m. last (stderr s') = ''ABK KSU Sandbox: error: installation rollback failed: '' @ m)"
proof -
  from assms(1,2) obtain e u where run: "run_command a s = (Inl e, u)"
    by (auto simp: main_def catch_def bind_def ret_def split: prod.splits sum.splits)
  with assms(1) have s': "(case e of InstallError m \<Rightarrow> bind (complain (''ABK KSU Sandbox: error: '' @ m)) (\<lambda>_. ret 1)
       | _ \<Rightarrow> raise e) u = (r, s')"
    by (simp add: main_def catch_def bind_def)
  then have "fsys s' = fsys u"
    by (auto simp: complain_def bind_def modify_def ret_def raise_def split: exn.splits)
  moreover have "last (stderr s') = ''ABK KSU Sandbox: error: '' @ m" if "e = InstallError m" for m
    using s' that by (auto simp: complain_def bind_def modify_def ret_def)
  ultimately show ?thesis using run_command_atomic [OF run assms(3,4)] by auto
qed

text \<open>A run of \<^verbatim>\<open>install\<close> on a tree whose \<^verbatim>\<open>Kconfig\<close> has no \<^verbatim>\<open>endmenu\<close>: it has created a directory, written a
  source file and changed \<^verbatim>\<open>Kbuild\<close> when it fails.\<close>

definition sample_fs :: fs where
  "sample_fs = [([], DirN), ([''k''], DirN), ([''k'', ''Makefile''], FileN ''VERSION = 6\<newline>PATCHLEVEL = 1\<newline>''),
     ([''k'', ''kernel''], DirN), ([''k'', ''kernel'', ''Kbuild''], FileN ''kernelsu-objs := a.o\<newline>''),
     ([''k'', ''kernel'', ''Kconfig''], FileN ''menu\<newline>''), ([''k'', ''kernel'', ''policy''], DirN),
     ([''k'', ''kernel'', ''policy'', ''app_profile.c''], FileN ''int escape_with_root_profile(void)''),
     ([''k'', ''kernel'', ''selinux''], DirN), ([''k'', ''kernel'', ''selinux'', ''sepolicy.c''], FileN []),
     ([''m''], DirN), ([''m'', ''files''], DirN), ([''m'', ''files'', ''abk_ksu_sandbox''], DirN),
     ([''m'', ''files'', ''abk_ksu_sandbox'', ''core.c''], FileN ''/* ABK_KSU_SANDBOX_V1 */'')]"

definition sample_state :: state where
  "sample_state = \<lparr>fsys = sample_fs, active_transaction = None, validation_only = False, work_mode = [],
     stdout = [], stderr = []\<rparr>"

definition sample_args :: args where
  "sample_args = \<lparr>command_of = Install, kernel_root_arg = [''k''], module_root_arg = [''m''], defconfig_arg = None\<rparr>"

definition sample_layout :: layout where
  "sample_layout = \<lparr>kernel_root = [''k''], common = [''k''], ksu = [''k'', ''kernel''], variant = ''official'', version = ''6.1''\<rparr>"

lemma sample_tree: "tree_fs sample_fs"
  by (auto simp: tree_fs_def sample_fs_def split: if_splits)


lemma sample_run:
  "case main sample_args sample_state of (r, s') \<Rightarrow> r = Inr 1 \<and>
     stdout s' = [''ABK KSU Sandbox: updated /k/kernel/abk_sandbox/core.c'',
       ''ABK KSU Sandbox: synchronized sources to /k/kernel/abk_sandbox'',
       ''ABK KSU Sandbox: updated /k/kernel/Kbuild''] \<and>
     last (stderr s') = ''ABK KSU Sandbox: error: injection anchor 'endmenu' not found in /k/kernel/Kconfig''"
  by code_simp

theorem main_all_or_nothing_witness:
  "map_of (fsys (snd (main sample_args sample_state))) = map_of sample_fs"
proof -
  obtain r s' where run: "main sample_args sample_state = (r, s')" by fastforce
  with sample_run have s': "r = Inr 1"
    "last (stderr s') = ''ABK KSU Sandbox: error: injection anchor 'endmenu' not found in /k/kernel/Kconfig''"
    by simp_all
  from main_all_or_nothing [OF run] show ?thesis
    using sample_tree run s' by (simp add: sample_state_def)
qed

text \<open>
  C13: the journal always suffices. From the start of a transaction on the file system \<open>fs0\<close> through every step of
  \<open>install_body\<close> and at its end, whether it returns or raises, the journal satisfies the invariant \<open>journal\<close>:
  links and directories of \<open>fs0\<close> are still there, every recorded file has its old contents in the journal, and undoing the
  recorded files leaves at most recorded new directories as a difference to \<open>fs0\<close>.
\<close>

theorem install_body_keeps_journal:
  assumes "active_transaction s = Some t" "journal fs0 (fsys s) t" "install_body l root policy s = (x, s')"
  shows "\<exists>t'. active_transaction s' = Some t' \<and> journal fs0 (fsys s') t'"
proof -
  have "runs keeps_journal (install_body l root policy)" by (rule transaction.runs_install_body) simp
  then have "keeps_journal s s'" using assms(3) by (auto simp: runs_def dest: spec [of _ s])
  then show ?thesis using assms(1,2) by (auto simp: keeps_journal_def journaled_def)
qed

theorem install_body_keeps_journal_witness:
  "\<exists>t'. active_transaction (snd (install_body sample_layout [''m''] RUNTIME_KSU_TAIL_NEVER (sample_state\<lparr>active_transaction := Some empty_txn\<rparr>)))
     = Some t' \<and> journal sample_fs (fsys (snd (install_body sample_layout [''m''] RUNTIME_KSU_TAIL_NEVER
       (sample_state\<lparr>active_transaction := Some empty_txn\<rparr>)))) t'"
proof -
  let ?s = "sample_state\<lparr>active_transaction := Some empty_txn\<rparr>"
  obtain x s' where run: "install_body sample_layout [''m''] RUNTIME_KSU_TAIL_NEVER ?s = (x, s')" by fastforce
  show ?thesis
    using install_body_keeps_journal [of ?s empty_txn sample_fs, OF _ _ run] journal_start [OF sample_tree] run
    by (simp add: sample_state_def)
qed

end
