(* ===== verification/Confined.thy ===== *)
theory Confined
  imports Rollback
begin

text \<open>
  What an installation may touch. The journal of a transaction only ever names the targets of the layout and
  directories above them; together with the invariant of \<open>Journal\<close> this bounds the difference between
  the tree before and the tree after a successful installation.
\<close>

definition within :: "(path \<Rightarrow> bool) \<Rightarrow> txn \<Rightarrow> bool" where
  "within T t \<longleftrightarrow> (\<forall>p\<in>fst ` set (files t). T p) \<and> (\<forall>d\<in>set (missing_directories t). \<exists>p. T p \<and> prefix d p)"

definition confined :: "(path \<Rightarrow> bool) \<Rightarrow> state \<Rightarrow> state \<Rightarrow> bool" where
  "confined T s s' \<longleftrightarrow> (\<forall>t. active_transaction s = Some t \<longrightarrow> within T t \<longrightarrow>
     (\<exists>t'. active_transaction s' = Some t' \<and> within T t'))"

definition same_txn :: "state \<Rightarrow> state \<Rightarrow> bool" where
  "same_txn s s' \<longleftrightarrow> active_transaction s' = active_transaction s"

interpretation same_txn: state_relation same_txn
  by unfold_locales (auto simp: same_txn_def)

interpretation confined_relation: state_relation "confined T" for T
  by unfold_locales (auto simp: confined_def)

lemma same_txn_set_fs: "runs same_txn (set_fs fs)"
  by (simp add: runs_def set_fs_def modify_def same_txn_def)

lemma same_txn_ops: "runs same_txn (store p n)" "runs same_txn (unlink p)" "runs same_txn (os_mkdir p)"
  unfolding store_def unlink_def os_mkdir_def
  by (auto intro!: same_txn.runs_bind same_txn.runs_query [OF query_basic(4)] same_txn_set_fs
      same_txn.runs_query [OF query_basic(2)] split: option.splits node.splits)

lemma same_txn_mkdir_parents: "runs same_txn (mkdir_parents p)"
  by (rule same_txn.runs_mkdir_parents) (rule same_txn_ops)

lemma runs_same_txn: "runs same_txn m \<Longrightarrow> runs (confined T) m"
  by (auto simp: runs_def same_txn_def confined_def)

text \<open>Recording a target.\<close>

lemma missing_chain_prefix:
  "set (snd (missing_chain fs cursor missing)) \<subseteq> set missing \<union> {d. prefix d cursor}"
proof (induction fs cursor missing rule: missing_chain.induct)
  case (1 fs cursor missing)
  let ?m = "if cursor \<in> set missing then missing else missing @ [cursor]"
  have "prefix (path_parent cursor) cursor" by (simp add: path_parent_def prefixeq_butlast)
  then have "set (snd (missing_chain fs (path_parent cursor) ?m)) \<subseteq> set missing \<union> {d. prefix d cursor}"
    if "\<not> path_exists fs cursor" "\<not> path_is_symlink fs cursor" "cursor \<noteq> []"
    using "1.IH" [OF that(1,2) refl that(3)] prefix_order.trans by (auto split: if_splits)
  then show ?case by (subst missing_chain.simps) auto
qed

lemma within_missing:
  assumes "within T t" "\<And>d. prefix d p \<Longrightarrow> \<exists>q. T q \<and> prefix d q"
  shows "within T (t\<lparr>missing_directories := snd (missing_chain fs p (missing_directories t))\<rparr>)"
  using assms missing_chain_prefix [of fs p "missing_directories t"] by (auto simp: within_def)

lemma record_missing_confined:
  assumes "within T t" "\<And>d. prefix d p \<Longrightarrow> \<exists>q. T q \<and> prefix d q" "record_missing_directories t p s = (x, s')"
  shows "\<exists>t'. active_transaction s' = Some t' \<and> within T t' \<and> (\<forall>u. x = Inr u \<longrightarrow> u = t')"
proof -
  have "within T (t\<lparr>missing_directories := snd (missing_chain (fsys s) p (missing_directories t))\<rparr>)"
    by (rule within_missing [OF assms(1)]) (rule assms(2))
  then show ?thesis using assms(3)
  by (auto simp: record_missing_directories_def bind_def gets_def set_txn_def modify_def lift_def ret_def Let_def
      split: prod.splits sum.splits)
qed

lemma back_up_confined:
  assumes "within T t" "T p" "back_up_file t p s = (x, s')" "active_transaction s = Some t"
  shows "\<exists>t'. active_transaction s' = Some t' \<and> within T t'"
  using assms
  by (auto simp: back_up_file_def bind_def gets_def raise_def set_txn_def modify_def within_def split: if_splits)

lemma confined_record_file:
  assumes "T p"
  shows "runs (confined T) (record_file p)"
  unfolding runs_def confined_def
proof (intro allI impI)
  fix s :: state and t
  assume t: "active_transaction s = Some t" "within T t"
  have above: "\<exists>q. T q \<and> prefix d q" if "prefix d (path_parent p)" for d
    using assms that prefix_order.trans [OF that, of p] by (auto simp: path_parent_def prefixeq_butlast)
  obtain x u where x: "record_missing_directories t (path_parent p) s = (x, u)" by fastforce
  obtain t' where t': "active_transaction u = Some t'" "within T t'" "\<And>v. x = Inr v \<Longrightarrow> v = t'"
    using record_missing_confined [OF t(2) above x] by blast
  obtain y v where y: "back_up_file t' p u = (y, v)" by fastforce
  have "\<exists>t''. active_transaction v = Some t'' \<and> within T t''"
    using back_up_confined [OF t'(2) assms y t'(1)] .
  with t t' x y show "\<exists>t'. active_transaction (snd (record_file p s)) = Some t' \<and> within T t'"
    by (cases x) (auto simp: record_file_def bind_def gets_def ret_def raise_def is_symlink_def)
qed

lemma confined_record_directory:
  assumes "\<And>n. T (p @ [n])"
  shows "runs (confined T) (record_directory p)"
  unfolding runs_def confined_def
proof (intro allI impI)
  fix s :: state and t
  assume t: "active_transaction s = Some t" "within T t"
  have above: "\<exists>q. T q \<and> prefix d q" if "prefix d p" for d
    using assms [of "[]"] prefix_prefix [OF that] by blast
  obtain x u where x: "record_missing_directories t p s = (x, u)" by fastforce
  obtain t' where t': "active_transaction u = Some t'" "within T t'"
    using record_missing_confined [OF t(2) above x] by blast
  with t x show "\<exists>t'. active_transaction (snd (record_directory p s)) = Some t' \<and> within T t'"
    by (cases x) (auto simp: record_directory_def bind_def gets_def ret_def raise_def is_symlink_def exists_p_def is_dir_def)
qed

interpretation confined: install_effects "confined T" T for T
proof
  show "runs (confined T) (write_file p contents)" if "T p" for p contents
    unfolding write_file_def write_text_def
    by (intro confined_relation.runs_rules confined_record_file [where T = T and p = p, OF that] runs_same_txn [OF same_txn_mkdir_parents]
        runs_same_txn [OF same_txn_ops(1)] confined_relation.runs_query queries)
  show "runs (confined T) (remove_file p description)" if "T p" for p description
    unfolding remove_file_def
    by (intro confined_relation.runs_rules confined_record_file [where T = T and p = p, OF that]
        runs_same_txn [OF same_txn_ops(2)] confined_relation.runs_query queries)
  show "runs (confined T) (bind (record_directory p) (\<lambda>_. mkdir_parents p))" if "\<And>n. T (p @ [n])" for p
    by (intro confined_relation.runs_bind confined_record_directory that runs_same_txn [OF same_txn_mkdir_parents])
qed

subsection \<open>The difference made by an installation\<close>

text \<open>An entry at \<open>r\<close> that differs between two trees is a target, or a new directory above a target.\<close>

definition target_change :: "layout \<Rightarrow> fs \<Rightarrow> fs \<Rightarrow> path \<Rightarrow> bool" where
  "target_change l fs0 fs r \<longleftrightarrow>
     (\<exists>p. install_target l p \<and> realpath fs0 p = Some r) \<or>
     map_of fs0 r = None \<and> map_of fs r = Some DirN \<and>
       (\<exists>p d. install_target l p \<and> prefix d p \<and> realpath fs0 d = Some r)"

lemma journal_difference:
  assumes "journal fs0 fs t" "within (install_target l) t" "map_of fs r \<noteq> map_of fs0 r"
  shows "target_change l fs0 fs r"
proof (cases "find (\<lambda>pb. realpath fs0 (fst pb) = Some r) (files t)")
  case (Some pb)
  then have "pb \<in> set (files t)" "realpath fs0 (fst pb) = Some r" by (auto simp: find_Some_iff)
  with assms(2) show ?thesis unfolding target_change_def within_def by blast
next
  case None
  then have u: "undo fs0 (files t) (map_of fs) r = map_of fs r" by (simp add: undo_def)
  with assms(1,3) have "map_of fs r = Some DirN" "map_of fs0 r = None"
    and d: "\<exists>d\<in>set (missing_directories t). realpath fs0 d = Some r"
    unfolding journal_def journal_undo_def by metis+
  moreover from d assms(2) obtain d p where "realpath fs0 d = Some r" "install_target l p" "prefix d p"
    unfolding within_def by blast
  ultimately show ?thesis unfolding target_change_def by blast
qed

lemma install_body_difference:
  assumes "install_body l root policy s = (x, s')" "active_transaction s = Some empty_txn" "tree_fs (fsys s)"
    "map_of (fsys s') r \<noteq> map_of (fsys s) r"
  shows "target_change l (fsys s) (fsys s') r"
proof -
  have "journaled (fsys s) s" using journal_start [OF assms(3)] assms(2) by (simp add: journaled_def)
  moreover have "runs keeps_journal (install_body l root policy)" by (rule transaction.runs_install_body) simp
  ultimately have "journaled (fsys s) s'" using assms(1) by (auto simp: runs_def keeps_journal_def dest: spec [of _ s])
  then obtain t where t: "active_transaction s' = Some t" "journal (fsys s) (fsys s') t" by (auto simp: journaled_def)
  have "runs (confined (install_target l)) (install_body l root policy)" by (rule confined.runs_install_body)
  then have "confined (install_target l) s s'" using assms(1) by (auto simp: runs_def dest: spec [of _ s])
  then have "within (install_target l) t" using t(1) assms(2) by (auto simp: confined_def within_def empty_txn_def)
  from journal_difference [OF t(2) this assms(4)] show ?thesis .
qed

text \<open>A successful run of \<^verbatim>\<open>main\<close> is a run of \<open>install_body\<close>.\<close>

lemma transaction_exit_raises: "transaction_exit (Some e) s \<noteq> (Inr u, s')"
  by (auto simp: transaction_exit_def bind_ok raise_def Let_def)

lemma with_transaction_ok:
  assumes "with_transaction body s = (Inr (), s')"
  shows "\<exists>u. body (s\<lparr>active_transaction := Some empty_txn\<rparr>) = (Inr (), u) \<and> fsys s' = fsys u \<and> active_transaction s = None"
proof -
  from assms obtain u v where enter: "transaction_enter s = (Inr (), u)"
    and body: "catch body (\<lambda>e. transaction_exit (Some e)) u = (Inr (), v)" and leave: "transaction_exit None v = (Inr (), s')"
    unfolding with_transaction_def bind_ok by auto
  from leave have "fsys s' = fsys v" by (auto simp: transaction_exit_def end_transaction_def modify_def)
  moreover have "u = s\<lparr>active_transaction := Some empty_txn\<rparr>" "active_transaction s = None"
    using enter by (auto simp: transaction_enter_def bind_def gets_def raise_def set_txn_def modify_def split: if_splits)
  moreover have "body u = (Inr (), v)"
    using body transaction_exit_raises by (auto simp: catch_def split: prod.splits sum.splits)
  ultimately show ?thesis by simp
qed

lemma install_ok:
  assumes "install l root dc s = (Inr (), s')"
  shows "\<exists>policy u. install_body l root policy (s\<lparr>active_transaction := Some empty_txn\<rparr>) = (Inr (), u) \<and>
    fsys s' = fsys u \<and> active_transaction s = None"
proof -
  have q: "query (case dc of None \<Rightarrow> ret () | Some d \<Rightarrow> validate_defconfig d False)" by (intro queries)
  from query_bind_ok [OF q assms [unfolded install_def]] obtain p where
    "bind (validate_runtime_ksu_tail_config p dc) (\<lambda>_. bind (with_transaction (install_body l root p))
      (\<lambda>_. report ''installed'' l p)) s = (Inr (), s')"
    by (elim exE conjE) (drule query_bind_ok [OF query_tail_policy], blast)
  from query_bind_ok [OF query_tail_config this] obtain u where u: "with_transaction (install_body l root p) s = (Inr (), u)" "report ''installed'' l p u = (Inr (), s')"
    unfolding bind_ok by auto
  from u(2) have "fsys s' = fsys u" unfolding report_def say_def modify_def by auto
  with with_transaction_ok [OF u(1)] show ?thesis by auto
qed

lemma main_install_ok:
  assumes "main a s = (Inr 0, s')" "command_of a = Install"
  shows "\<exists>l root. fst (discover (path_resolve (fsys s) (kernel_root_arg a)) s) = Inr l \<and>
    install l root (defconfig_arg a) s = (Inr (), s')"
proof -
  have "run_command a s = (Inr (), s')"
    using assms(1) by (auto simp: main_def catch_def bind_def ret_def raise_def complain_def modify_def
        split: prod.splits sum.splits exn.splits)
  then obtain l where l: "discover (path_resolve (fsys s) (kernel_root_arg a)) s = (Inr l, s)"
    and "bind (gets (\<lambda>s. path_resolve (fsys s) (module_root_arg a))) (\<lambda>root. install l root (defconfig_arg a)) s = (Inr (), s')"
    unfolding run_command_def assms(2) command.case
    by (elim query_bind_ok [OF query_basic(4), THEN exE] conjE) (drule query_bind_ok [OF query_discover], auto simp: gets_def)
  then show ?thesis unfolding bind_ok gets_def by auto
qed

lemma main_install_difference:
  assumes "main a s = (Inr 0, s')" "command_of a = Install" "tree_fs (fsys s)"
    and "map_of (fsys s') r \<noteq> map_of (fsys s) r"
  shows "\<exists>l. fst (discover (path_resolve (fsys s) (kernel_root_arg a)) s) = Inr l \<and>
    target_change l (fsys s) (fsys s') r"
proof -
  obtain l root where l: "fst (discover (path_resolve (fsys s) (kernel_root_arg a)) s) = Inr l"
    and "install l root (defconfig_arg a) s = (Inr (), s')" using main_install_ok [OF assms(1,2)] by blast
  then obtain policy u where "install_body l root policy (s\<lparr>active_transaction := Some empty_txn\<rparr>) = (Inr (), u)"
    "fsys s' = fsys u" using install_ok by blast
  with install_body_difference [of l root policy "s\<lparr>active_transaction := Some empty_txn\<rparr>" _ u r] assms(3,4) l
  show ?thesis by auto
qed

subsection \<open>Properties\<close>

text \<open>
  C2: an installation changes nothing but its targets. Whenever the transaction of \<^verbatim>\<open>install\<close> ends, by success or by an
  exception, every entry of the file system that differs from the start is one of the thirteen patched files of the
  layout or lies in its directory \<^verbatim>\<open>abk_sandbox\<close> (through symbolic links as they were), or it is a new directory
  above such a file. A successful \<^verbatim>\<open>main\<close> is such a run, on the layout that \<^verbatim>\<open>discover\<close> found.
\<close>

theorem install_changes_only_targets:
  assumes "install_body l root policy s = (x, s')" "active_transaction s = Some empty_txn" "tree_fs (fsys s)"
    and "map_of (fsys s') r \<noteq> map_of (fsys s) r"
  shows "(\<exists>p. install_target l p \<and> realpath (fsys s) p = Some r) \<or>
    map_of (fsys s) r = None \<and> map_of (fsys s') r = Some DirN \<and>
      (\<exists>p d. install_target l p \<and> prefix d p \<and> realpath (fsys s) d = Some r)"
  using install_body_difference [OF assms] unfolding target_change_def .

lemma sample_body_run:
  "map_of (fsys (snd (install_body sample_layout [''m''] RUNTIME_KSU_TAIL_NEVER
     (sample_state\<lparr>active_transaction := Some empty_txn\<rparr>)))) [''k'', ''kernel'', ''Kbuild'']
   \<noteq> Some (FileN ''kernelsu-objs := a.o\<newline>'')"
  by code_simp

theorem install_changes_only_targets_witness:
  "(\<exists>p. install_target sample_layout p \<and> realpath sample_fs p = Some [''k'', ''kernel'', ''Kbuild''])"
proof -
  let ?s = "sample_state\<lparr>active_transaction := Some empty_txn\<rparr>" and ?r = "[''k'', ''kernel'', ''Kbuild'']"
  have fs: "fsys ?s = sample_fs" by (simp add: sample_state_def)
  have old: "map_of sample_fs ?r = Some (FileN ''kernelsu-objs := a.o\<newline>'')" by (simp add: sample_fs_def)
  obtain x s' where run: "install_body sample_layout [''m''] RUNTIME_KSU_TAIL_NEVER ?s = (x, s')" by fastforce
  have "map_of (fsys s') ?r \<noteq> map_of (fsys ?s) ?r" using sample_body_run run by (simp add: fs old)
  from install_changes_only_targets [OF run _ _ this] show ?thesis
    using sample_tree old by (simp add: fs)
qed

end
