(* ===== verification/File_Laws.thy ===== *)
theory File_Laws
  imports Confined
begin

text \<open>
  The primitives \<^verbatim>\<open>write\<close> and \<^verbatim>\<open>read\<close> against each other: what has been written is read back, and no other file changes.
\<close>

text \<open>Creating directories: everything that existed stays.\<close>

definition grows :: "state \<Rightarrow> state \<Rightarrow> bool" where
  "grows s s' \<longleftrightarrow> (tree_fs (fsys s) \<longrightarrow> tree_fs (fsys s') \<and> keeps_dirs (fsys s) (fsys s') \<and>
     (\<forall>r. map_of (fsys s) r \<noteq> None \<longrightarrow> map_of (fsys s') r = map_of (fsys s) r))"

interpretation growing: state_relation grows
proof
  show "grows s u" if "grows s t" "grows t u" for s t u
    using that unfolding grows_def by (metis keeps_dirs_trans)
qed (simp_all add: grows_def)

lemma grows_os_mkdir: "runs grows (os_mkdir p)"
  unfolding runs_def
proof
  fix s :: state
  obtain x s' where run: "os_mkdir p s = (x, s')" by fastforce
  from os_mkdir_cases [OF run] show "grows s (snd (os_mkdir p s))"
  proof (elim disjE exE conjE)
    fix r assume r: "map_of (fsys s) r = None" "r \<noteq> []" "map_of (fsys s) (butlast r) = Some DirN"
      and s': "s' = s\<lparr>fsys := AList.update r DirN (fsys s)\<rparr>"
    have m: "map_of (fsys s') = (map_of (fsys s))(r := Some DirN)" by (simp add: s' AList.update_conv')
    show ?thesis using new_dir_update [OF _ r m] r(1) m by (auto simp: grows_def run)
  qed (simp add: run grows_def)
qed

lemma grows_mkdir_parents: "runs grows (mkdir_parents p)"
  by (rule growing.runs_mkdir_parents) (rule grows_os_mkdir)

lemma universal_newlines_no_cr: "CR \<notin> set t \<Longrightarrow> universal_newlines t = t"
  by (induction t) auto

lemma read_file: "stat (fsys s) p = Some (FileN t) \<Longrightarrow> read p s = (Inr (universal_newlines t), s)"
  by (simp add: read_def read_text_def catch_def bind_def gets_def ret_def)

lemma stat_realpath: "stat fs p = (case realpath fs p of None \<Rightarrow> None | Some r \<Rightarrow> map_of fs r)"
  by (simp add: stat_def)

lemma store_ok:
  assumes "store p n s = (Inr (), s')" "tree_fs (fsys s)" "leaf (Some n)"
  shows "stat (fsys s') p = Some n" "realpath (fsys s) q \<noteq> realpath (fsys s) p \<Longrightarrow> stat (fsys s') q = stat (fsys s) q"
proof -
  from store_cases [OF assms(1,2)] obtain r where r: "realpath (fsys s) p = Some r" "leaf (map_of (fsys s) r)" "r \<noteq> []"
    "map_of (fsys s) (butlast r) = Some DirN" and s': "s' = s\<lparr>fsys := AList.update r n (fsys s)\<rparr>" by auto
  have m: "map_of (fsys s') = (map_of (fsys s))(r := Some n)" by (simp add: s' AList.update_conv')
  have "realpath (fsys s') = realpath (fsys s)"
    by (rule keeps_dirs_realpath [OF leaf_update(1) [OF assms(2) r(2) assms(3) r(3,4) m]])
  then show "stat (fsys s') p = Some n" "realpath (fsys s) q \<noteq> realpath (fsys s) p \<Longrightarrow> stat (fsys s') q = stat (fsys s) q"
    using r(1) by (auto simp: stat_realpath m split: option.splits)
qed

lemma write_file_ok:
  assumes "write_file p t s = (Inr (), s')"
  shows "s' = s \<and> read_text p s = (Inr t, s) \<or>
    (\<exists>u v w. record_file p s = (Inr (), u) \<and> mkdir_parents (path_parent p) u = (Inr (), v) \<and>
       store p (FileN t) v = (Inr (), w) \<and> fsys s' = fsys w)"
proof -
  let ?old = "if path_exists (fsys s) p then bind (read_text p) (\<lambda>t. ret (Some t)) else ret None"
  have q: "query ?old" by (intro queries)
  have e: "exists_p p s = (Inr (path_exists (fsys s) p), s)" by (simp add: exists_p_def gets_def)
  from assms have run: "bind ?old (\<lambda>old. if old = Some t then ret () else bind (gets validation_only) (\<lambda>v.
      if v then raise (InstallError (''incomplete sandbox injection: validation would update '' @ str_path p))
      else bind (record_file p) (\<lambda>_. bind (mkdir_parents (path_parent p)) (\<lambda>_. bind (write_text p t) (\<lambda>_.
        say (''ABK KSU Sandbox: updated '' @ str_path p)))))) s = (Inr (), s')"
    unfolding write_file_def bind_def [of "exists_p p"] e prod.case sum.case .
  from query_bind_ok [OF q run] obtain old where old: "?old s = (Inr old, s)" and
    rest: "(if old = Some t then ret () else bind (gets validation_only) (\<lambda>v.
      if v then raise (InstallError (''incomplete sandbox injection: validation would update '' @ str_path p))
      else bind (record_file p) (\<lambda>_. bind (mkdir_parents (path_parent p)) (\<lambda>_. bind (write_text p t) (\<lambda>_.
        say (''ABK KSU Sandbox: updated '' @ str_path p)))))) s = (Inr (), s')" by blast
  show ?thesis
  proof (cases "old = Some t")
    case True
    have "read_text p s = (Inr t, s)"
      using old True queryD [OF query_read_text, of p s] by (auto simp: bind_ok ret_def split: if_splits)
    with True rest show ?thesis by (simp add: ret_def)
  next
    case False
    with rest have "bind (record_file p) (\<lambda>_. bind (mkdir_parents (path_parent p)) (\<lambda>_. bind (write_text p t) (\<lambda>_.
        say (''ABK KSU Sandbox: updated '' @ str_path p)))) s = (Inr (), s')"
      by (auto simp: bind_def [of "gets _"] gets_def raise_def split: if_splits)
    then show ?thesis unfolding bind_ok write_text_def say_def modify_def by auto
  qed
qed

text \<open>The file holds the text, and whatever existed elsewhere is as before.\<close>

lemma write_file_effect:
  assumes "write_file p t s = (Inr (), s')" "CR \<notin> set t" "tree_fs (fsys s)"
  shows "\<exists>raw. stat (fsys s') p = Some (FileN raw) \<and> universal_newlines raw = t"
    "path_exists (fsys s) q \<Longrightarrow> realpath (fsys s) q \<noteq> realpath (fsys s) p \<Longrightarrow> stat (fsys s') q = stat (fsys s) q"
proof -
  have "(\<exists>raw. stat (fsys s') p = Some (FileN raw) \<and> universal_newlines raw = t) \<and>
    (path_exists (fsys s) q \<longrightarrow> realpath (fsys s) q \<noteq> realpath (fsys s) p \<longrightarrow> stat (fsys s') q = stat (fsys s) q)"
    using write_file_ok [OF assms(1)]
  proof (elim disjE exE conjE)
    assume "s' = s" "read_text p s = (Inr t, s)"
    then show ?thesis by (auto simp: read_text_def bind_def gets_def ret_def raise_def split: option.splits node.splits)
  next
    fix u v w
    assume run: "record_file p s = (Inr (), u)" "mkdir_parents (path_parent p) u = (Inr (), v)"
      "store p (FileN t) v = (Inr (), w)" and w: "fsys s' = fsys w"
    have u: "fsys u = fsys s" using record_file_fsys [of p s] run(1) by simp
    have v: "tree_fs (fsys v)" "keeps_dirs (fsys s) (fsys v)"
      "\<And>r. map_of (fsys s) r \<noteq> None \<Longrightarrow> map_of (fsys v) r = map_of (fsys s) r"
      using grows_mkdir_parents [of "path_parent p"] run(2) assms(3) u
      by (auto simp: runs_def grows_def dest: spec [of _ u])
    note st = store_ok [OF run(3) v(1)]
    have "stat (fsys s') q = stat (fsys s) q" if "path_exists (fsys s) q" "realpath (fsys s) q \<noteq> realpath (fsys s) p"
      using that st(2) [of q] v(3) keeps_dirs_realpath [OF v(2)] w
      by (auto simp: path_exists_def stat_realpath split: option.splits)
    with st(1) universal_newlines_no_cr [OF assms(2)] w show ?thesis by simp
  qed
  then show "\<exists>raw. stat (fsys s') p = Some (FileN raw) \<and> universal_newlines raw = t"
    "path_exists (fsys s) q \<Longrightarrow> realpath (fsys s) q \<noteq> realpath (fsys s) p \<Longrightarrow> stat (fsys s') q = stat (fsys s) q" by blast+
qed

text \<open>
  C19: what \<^verbatim>\<open>write\<close> has written is read back, and nothing else changes. After a successful \<^verbatim>\<open>write\<close> of a text without carriage
  returns, \<^verbatim>\<open>read\<close> of the same path returns that text, whatever parent directories had to be created, and
  every path that existed and leads to another file still has the same contents.
\<close>

theorem write_then_read:
  assumes "write_file p t s = (Inr (), s')" "CR \<notin> set t" "tree_fs (fsys s)"
  shows "read p s' = (Inr t, s') \<and>
    (\<forall>q. path_exists (fsys s) q \<and> realpath (fsys s) q \<noteq> realpath (fsys s) p \<longrightarrow> stat (fsys s') q = stat (fsys s) q)"
  using write_file_effect [OF assms] read_file [of s' p] by blast

theorem write_then_read_witness:
  "read [''k'', ''kernel'', ''new'', ''a.c''] (snd (write_file [''k'', ''kernel'', ''new'', ''a.c''] ''int x;\<newline>'' sample_state)) =
     (Inr ''int x;\<newline>'', snd (write_file [''k'', ''kernel'', ''new'', ''a.c''] ''int x;\<newline>'' sample_state))"
proof -
  let ?p = "[''k'', ''kernel'', ''new'', ''a.c'']"
  obtain s' where run: "write_file ?p ''int x;\<newline>'' sample_state = (Inr (), s')"
  proof -
    have "fst (write_file ?p ''int x;\<newline>'' sample_state) = Inr ()" by code_simp
    then show ?thesis using that by (metis surjective_pairing)
  qed
  from write_then_read [OF run] show ?thesis using run sample_tree by (simp add: sample_state_def)
qed

end
