(* ===== verification/Regex_Lang.thy ===== *)
theory Regex_Lang
  imports Py_Regex
begin

text \<open>
  A declarative reading of patterns: \<open>accepts r w g\<close> says that the word \<open>w\<close> as a whole matches \<open>r\<close>, with the captured groups \<open>g\<close>.
  For patterns without anchors the backtracking matcher finds exactly these words, so \<^verbatim>\<open>re.fullmatch\<close> decides
  the language of the pattern.
\<close>

inductive accepts :: "regex \<Rightarrow> string \<Rightarrow> groups \<Rightarrow> bool" where
  lit: "accepts (RLit s) s []"
| cls: "P c \<Longrightarrow> accepts (RCls P) [c] []"
| seq: "accepts a v g \<Longrightarrow> accepts b w h \<Longrightarrow> accepts (RSeq a b) (v @ w) (g @ h)"
| alt1: "accepts a w g \<Longrightarrow> accepts (RAlt a b) w g"
| alt2: "accepts b w g \<Longrightarrow> accepts (RAlt a b) w g"
| star0: "accepts (RStar a) [] []"
| star: "accepts a v g \<Longrightarrow> v \<noteq> [] \<Longrightarrow> accepts (RStar a) w h \<Longrightarrow> accepts (RStar a) (v @ w) (g @ h)"
| lazy0: "accepts (RLazy a) [] []"
| lazy: "accepts a v g \<Longrightarrow> v \<noteq> [] \<Longrightarrow> accepts (RLazy a) w h \<Longrightarrow> accepts (RLazy a) (v @ w) (g @ h)"
| grp: "accepts a w g \<Longrightarrow> accepts (RGrp n a) w (g @ [(n, w)])"

inductive_simps accepts_lit [simp]: "accepts (RLit s) w g"
inductive_simps accepts_cls [simp]: "accepts (RCls P) w g"
inductive_simps accepts_seq: "accepts (RSeq a b) w g"
inductive_simps accepts_alt [simp]: "accepts (RAlt a b) w g"
inductive_simps accepts_grp: "accepts (RGrp n a) w g"
inductive_cases accepts_starE: "accepts (RStar a) w g"

fun anchor_free :: "regex \<Rightarrow> bool" where
  "anchor_free (RSeq a b) \<longleftrightarrow> anchor_free a \<and> anchor_free b"
| "anchor_free (RAlt a b) \<longleftrightarrow> anchor_free a \<and> anchor_free b"
| "anchor_free (RStar a) \<longleftrightarrow> anchor_free a"
| "anchor_free (RLazy a) \<longleftrightarrow> anchor_free a"
| "anchor_free (RGrp n a) \<longleftrightarrow> anchor_free a"
| "anchor_free (RLit s) \<longleftrightarrow> True"
| "anchor_free (RCls P) \<longleftrightarrow> True"
| "anchor_free r \<longleftrightarrow> False"

subsection \<open>The matcher finds only accepted words\<close>

lemma iter_greedy_sound:
  assumes m: "\<And>c x. x \<in> set (m c) \<Longrightarrow> \<exists>w. snd c = w @ snd (fst x) \<and> accepts a w (snd x)"
    and r: "r = RStar a \<or> r = RLazy a"
  shows "x \<in> set (iter_greedy m c) \<Longrightarrow> \<exists>w. snd c = w @ snd (fst x) \<and> accepts r w (snd x)"
proof (induction c arbitrary: x rule: measure_induct_rule [of "\<lambda>c. length (snd c)"])
  case (less c)
  from less.prems consider "x = (c, [])"
    | y z where "y \<in> set (m c)" "length (snd (fst y)) < length (snd c)"
        "z \<in> set (iter_greedy m (fst y))" "x = (fst z, snd y @ snd z)"
    by (subst (asm) set_iter_greedy) auto
  then show ?case
  proof cases
    case 1
    then show ?thesis using r by (auto intro: accepts.star0 accepts.lazy0)
  next
    case 2
    from m [OF 2(1)] obtain v where v: "snd c = v @ snd (fst y)" "accepts a v (snd y)" by blast
    from less.IH [OF 2(2,3)] obtain w where w: "snd (fst y) = w @ snd (fst z)" "accepts r w (snd z)" by blast
    have "v \<noteq> []" using v(1) 2(2) by auto
    with v(2) w(2) r have "accepts r (v @ w) (snd y @ snd z)" by (auto intro: accepts.star accepts.lazy)
    with v(1) w(1) 2(4) show ?thesis by auto
  qed
qed

lemma match_lit_sound: "match_lit s c = Some d \<Longrightarrow> snd c = s @ snd d"
  by (induction s c rule: match_lit.induct) (auto split: if_splits)

lemma re_results_sound:
  "anchor_free r \<Longrightarrow> x \<in> set (re_results r c) \<Longrightarrow> \<exists>w. snd c = w @ snd (fst x) \<and> accepts r w (snd x)"
proof (induction r arbitrary: c x)
  case (RLit s)
  then show ?case by (cases "match_lit s c") (auto dest: match_lit_sound)
next
  case (RCls P)
  then show ?case by (cases "snd c") (auto split: if_splits)
next
  case (RSeq a b)
  from RSeq.prems obtain y z where y: "y \<in> set (re_results a c)" and z: "z \<in> set (re_results b (fst y))"
    and x: "x = (fst z, snd y @ snd z)" by auto
  from RSeq.IH(1) [OF _ y] RSeq.prems obtain v where "snd c = v @ snd (fst y)" "accepts a v (snd y)" by auto
  moreover from RSeq.IH(2) [OF _ z] RSeq.prems obtain w where "snd (fst y) = w @ snd (fst z)" "accepts b w (snd z)" by auto
  ultimately show ?case using x accepts.seq by fastforce
next
  case (RAlt a b)
  from RAlt.prems consider "x \<in> set (re_results a c)" | "x \<in> set (re_results b c)" by auto
  then show ?case
  proof cases
    case 1
    from RAlt.IH(1) [OF _ this] RAlt.prems show ?thesis by auto
  next
    case 2
    from RAlt.IH(2) [OF _ this] RAlt.prems show ?thesis by auto
  qed
next
  case (RStar a)
  then show ?case using iter_greedy_sound [of "re_results a" a "RStar a"] by simp
next
  case (RLazy a)
  then show ?case using iter_greedy_sound [of "re_results a" a "RLazy a"] by (simp add: set_iter_lazy)
next
  case (RGrp n a)
  from RGrp.prems obtain y where y: "y \<in> set (re_results a c)"
    and x: "x = (fst y, snd y @ [(n, take (length (snd c) - length (snd (fst y))) (snd c))])" by auto
  from RGrp.IH [OF _ y] RGrp.prems obtain w where w: "snd c = w @ snd (fst y)" "accepts a w (snd y)" by auto
  then have "take (length (snd c) - length (snd (fst y))) (snd c) = w" by simp
  with w x show ?case by (auto intro: accepts.grp)
qed simp_all

subsection \<open>The matcher finds every accepted word\<close>

lemma match_lit_complete: "\<exists>q. match_lit s (p, s @ u) = Some (q, u)"
  by (induction s arbitrary: p) auto

lemma seq_mem:
  "(d, g) \<in> set (re_results a c) \<Longrightarrow> (e, h) \<in> set (re_results b d) \<Longrightarrow> (e, g @ h) \<in> set (re_results (RSeq a b) c)"
  by force

lemma iter_mem:
  assumes "(d, g) \<in> set (m c)" "(e, h) \<in> set (iter_greedy m d)" "length (snd d) < length (snd c)"
  shows "(e, g @ h) \<in> set (iter_greedy m c)"
  by (subst set_iter_greedy) (intro disjI2 bexI [of _ "(d, g)"] conjI bexI [of _ "(e, h)"]; simp add: assms)

lemma re_results_complete: "accepts r w g \<Longrightarrow> \<exists>q. ((q, u), g) \<in> set (re_results r (p, w @ u))"
proof (induction arbitrary: p u rule: accepts.induct)
  case (lit s)
  then show ?case using match_lit_complete [of s p u] by auto
next
  case (seq a v g b w h)
  from seq.IH(1) [of "w @ u" p] obtain q where "((q, w @ u), g) \<in> set (re_results a (p, v @ w @ u))" by auto
  moreover from seq.IH(2) [of u q] obtain q' where "((q', u), h) \<in> set (re_results b (q, w @ u))" by auto
  ultimately show ?case using seq_mem by fastforce
next
  case (star a v g w h)
  from star.IH(1) [of "w @ u" p] obtain q where "((q, w @ u), g) \<in> set (re_results a (p, v @ w @ u))" by auto
  moreover from star.IH(2) [of u q] obtain q' where "((q', u), h) \<in> set (iter_greedy (re_results a) (q, w @ u))" by auto
  ultimately have "((q', u), g @ h) \<in> set (iter_greedy (re_results a) (p, v @ w @ u))"
    by (rule iter_mem) (simp add: star.hyps(2))
  then show ?case by auto
next
  case (lazy a v g w h)
  from lazy.IH(1) [of "w @ u" p] obtain q where "((q, w @ u), g) \<in> set (re_results a (p, v @ w @ u))" by auto
  moreover from lazy.IH(2) [of u q] obtain q' where "((q', u), h) \<in> set (iter_greedy (re_results a) (q, w @ u))"
    by (auto simp: set_iter_lazy)
  ultimately have "((q', u), g @ h) \<in> set (iter_greedy (re_results a) (p, v @ w @ u))"
    by (rule iter_mem) (simp add: lazy.hyps(2))
  then show ?case by (auto simp: set_iter_lazy)
next
  case (grp a w g n)
  then show ?case by force
next
  case (star0 a)
  have "((p, u), []) \<in> set (iter_greedy (re_results a) (p, u))" by (subst set_iter_greedy) simp
  then show ?case by auto
next
  case (lazy0 a)
  have "((p, u), []) \<in> set (iter_greedy (re_results a) (p, u))" by (subst set_iter_greedy) simp
  then show ?case by (auto simp: set_iter_lazy)
qed auto

lemma fullmatch_accepts: "anchor_free r \<Longrightarrow> re_fullmatch r s = Some g \<Longrightarrow> accepts r s g"
proof -
  assume r: "anchor_free r" and m: "re_fullmatch r s = Some g"
  then obtain x xs where "filter (\<lambda>x. snd (fst x) = []) (re_results r (None, s)) = x # xs" and g: "g = snd x"
    by (auto simp: re_fullmatch_def start_cursor_def split: list.splits)
  then have "x \<in> set (re_results r (None, s))" "snd (fst x) = []" by (auto dest: filter_eq_ConsD)
  from re_results_sound [OF r this(1)] this(2) g show ?thesis by simp
qed

lemma fullmatch_none: "re_fullmatch r s = None \<Longrightarrow> \<not> accepts r s g"
proof
  assume m: "re_fullmatch r s = None" and "accepts r s g"
  from re_results_complete [OF this(2), of "[]" None] obtain q where
    "((q, []), g) \<in> set (re_results r (None, s))" by auto
  with m show False by (auto simp: re_fullmatch_def start_cursor_def filter_empty_conv split: list.splits)
qed

subsection \<open>Languages of common forms\<close>

lemma accepts_star_cls [simp]: "accepts (RStar (RCls P)) w g \<longleftrightarrow> g = [] \<and> list_all P w"
proof
  have "accepts r w g \<Longrightarrow> r = RStar (RCls P) \<Longrightarrow> g = [] \<and> list_all P w" for r
    by (induction rule: accepts.induct) auto
  then show "accepts (RStar (RCls P)) w g \<Longrightarrow> g = [] \<and> list_all P w" by blast
next
  have "list_all P w \<Longrightarrow> accepts (RStar (RCls P)) w []"
  proof (induction w)
    case (Cons c w)
    then show ?case using accepts.star [of "RCls P" "[c]" "[]" w "[]"] by simp
  qed (rule accepts.star0)
  then show "g = [] \<and> list_all P w \<Longrightarrow> accepts (RStar (RCls P)) w g" by simp
qed

lemma accepts_plus_cls [simp]: "accepts (rplus (RCls P)) w g \<longleftrightarrow> g = [] \<and> w \<noteq> [] \<and> list_all P w"
proof (cases w)
  case (Cons c v)
  have "accepts (rplus (RCls P)) (c # v) []" if "P c" "list_all P v"
    using accepts.seq [of "RCls P" "[c]" "[]" "RStar (RCls P)" v "[]"] that by (simp add: rplus_def)
  with Cons show ?thesis by (auto simp: rplus_def accepts_seq)
qed (auto simp: rplus_def accepts_seq)

end
