(* ===== verification/Discover_Laws.thy ===== *)
theory Discover_Laws
  imports Confined Regex_Lang
begin

text \<open>
  What the installer knows about a tree before it touches it: the layout that \<^verbatim>\<open>discover\<close> returns, the names of the
  build artefacts that it is prepared to delete, and the contents of an existing sandbox directory.
\<close>

subsection \<open>The layout\<close>

lemma collect_candidates_mem:
  "c \<in> set (collect_candidates fs seen cs) \<Longrightarrow> c \<in> set cs \<and> is_ksu_tree fs c \<and> path_resolve fs c \<notin> set seen"
  by (induction fs seen cs rule: collect_candidates.induct) (auto simp: Let_def split: if_splits)

lemma collect_candidates_all:
  "c \<in> set cs \<Longrightarrow> is_ksu_tree fs c \<Longrightarrow>
   path_resolve fs c \<in> set seen \<union> path_resolve fs ` set (collect_candidates fs seen cs)"
  by (induction fs seen cs rule: collect_candidates.induct) (auto simp: Let_def split: if_splits)

definition candidate_paths :: "path \<Rightarrow> path \<Rightarrow> path list" where
  "candidate_paths root common_dir = [path_join common_dir ''drivers/kernelsu'', path_join root ''drivers/kernelsu'',
     path_join root ''KernelSU/kernel'', root @ [''kernel'']]"

lemma unique_candidate:
  assumes "ksu_candidates fs root common_dir = [k]"
  shows "k \<in> set (candidate_paths root common_dir)" "is_ksu_tree fs k"
    "c \<in> set (candidate_paths root common_dir) \<Longrightarrow> is_ksu_tree fs c \<Longrightarrow> path_resolve fs c = path_resolve fs k"
  using assms collect_candidates_mem [of k fs "[]" "candidate_paths root common_dir"]
    collect_candidates_all [of c "candidate_paths root common_dir" fs "[]"]
  by (simp_all only: ksu_candidates_def candidate_paths_def [symmetric]) auto

lemma kernel_common_ok:
  assumes "kernel_common root s = (Inr c, s')"
  shows "path_is_file (fsys s) (c @ [''Makefile'']) \<and>
    (c = root @ [''common''] \<or> c = root \<and> \<not> path_is_file (fsys s) (root @ [''common'', ''Makefile'']))"
  using assms by (auto simp: kernel_common_def Let_def bind_def is_file_def gets_def ret_def raise_def split: if_splits)

lemma kernel_version_ok: "kernel_version c s = (Inr v, s') \<Longrightarrow> v \<in> set SUPPORTED_KERNELS"
  by (auto simp: kernel_version_def Let_def bind_def lift_def ret_def raise_def split: prod.splits sum.splits if_splits)

lemma classify_variant_ok: "classify_variant k corpus = Inr v \<Longrightarrow> v \<in> {''resukisu'', ''sukisu'', ''official''}"
  by (auto simp: classify_variant_def split: if_splits)

lemma detect_variant_ok: "detect_variant k s = (Inr v, s') \<Longrightarrow> v \<in> {''resukisu'', ''sukisu'', ''official''}"
  by (auto simp: detect_variant_def bind_def lift_def split: prod.splits sum.splits dest: classify_variant_ok)

lemma query_discover_parts: "query (kernel_common root)" "query (detect_variant k)" "query (kernel_version c)"
  unfolding kernel_common_def detect_variant_def kernel_version_def Let_def by (intro queries)+

lemma discover_ok:
  assumes "discover root s = (Inr l, s')"
  shows "s' = s" "kernel_root l = root" "py_lower (work_mode s) \<noteq> ''lkm''"
    "kernel_common root s = (Inr (common l), s)" "ksu_candidates (fsys s) root (common l) = [ksu l]"
    "\<exists>u. detect_variant (ksu l) s = (Inr (variant l), u)" "\<exists>u. kernel_version (common l) s = (Inr (version l), u)"
proof -
  note q = query_discover_parts
  from queryD [OF query_discover, of root s] assms show "s' = s" by simp
  obtain c k v ver u1 u2 u3 where run: "kernel_common root s = (Inr c, u1)" "py_lower (work_mode u1) \<noteq> ''lkm''"
    "ksu_candidates (fsys u1) root c = [k]" "detect_variant k u1 = (Inr v, u2)" "kernel_version c u2 = (Inr ver, u3)"
    "l = \<lparr>kernel_root = root, common = c, ksu = k, variant = v, version = ver\<rparr>"
    using assms unfolding discover_def
    by (auto simp: bind_ok gets_def raise_def ret_def Let_def split: if_splits list.splits)
  have "u1 = s" "u2 = s" using queryD [OF q(1), of root s] queryD [OF q(2), of k u1] run by auto
  with run show "kernel_root l = root" "py_lower (work_mode s) \<noteq> ''lkm''"
    "kernel_common root s = (Inr (common l), s)" "ksu_candidates (fsys s) root (common l) = [ksu l]"
    "\<exists>u. detect_variant (ksu l) s = (Inr (variant l), u)" "\<exists>u. kernel_version (common l) s = (Inr (version l), u)"
    by auto
qed

text \<open>
  C16: what a discovered layout guarantees. When \<^verbatim>\<open>discover\<close> succeeds it has changed nothing, the build is not in \<^verbatim>\<open>lkm\<close> mode,
  \<^verbatim>\<open>common\<close> holds a \<^verbatim>\<open>Makefile\<close>, the kernel line is a supported one and the variant a known one, and the
  KernelSU tree is unique: every candidate location that holds a KernelSU tree resolves to the same directory.
\<close>

theorem discover_layout:
  assumes "discover root s = (Inr l, s')"
  shows "s' = s \<and> kernel_root l = root \<and> py_lower (work_mode s) \<noteq> ''lkm'' \<and>
    path_is_file (fsys s) (common l @ [''Makefile'']) \<and> common l \<in> {root, root @ [''common'']} \<and>
    version l \<in> set SUPPORTED_KERNELS \<and> variant l \<in> {''resukisu'', ''sukisu'', ''official''} \<and>
    ksu l \<in> set (candidate_paths root (common l)) \<and> is_ksu_tree (fsys s) (ksu l) \<and>
    (\<forall>c\<in>set (candidate_paths root (common l)). is_ksu_tree (fsys s) c \<longrightarrow>
       path_resolve (fsys s) c = path_resolve (fsys s) (ksu l))"
proof -
  note d = discover_ok [OF assms]
  have v: "version l \<in> set SUPPORTED_KERNELS" "variant l \<in> {''resukisu'', ''sukisu'', ''official''}"
    using d(6,7) detect_variant_ok kernel_version_ok by blast+
  have c: "path_is_file (fsys s) (common l @ [''Makefile''])" "common l \<in> {root, root @ [''common'']}"
    using kernel_common_ok [OF d(4)] by blast+
  note k = unique_candidate [OF d(5)]
  show ?thesis by (intro conjI d(1-3) c v k(1,2) ballI impI k(3))
qed

lemma query_result: "query m \<Longrightarrow> fst (m s) = x \<Longrightarrow> m s = (x, s)"
  by (metis queryD surjective_pairing)

lemma sample_discover: "discover [''k''] sample_state = (Inr sample_layout, sample_state)"
proof -
  have 1: "kernel_common [''k''] sample_state = (Inr [''k''], sample_state)"
    by (rule query_result [OF query_discover_parts(1)]) code_simp
  have 2: "ksu_candidates (fsys sample_state) [''k''] [''k''] = [[''k'', ''kernel'']]" by code_simp
  have 3: "kernel_version [''k''] sample_state = (Inr ''6.1'', sample_state)"
    by (rule query_result [OF query_discover_parts(3)]) code_simp
  have 4: "detect_variant [''k'', ''kernel''] sample_state = (Inr ''official'', sample_state)"
    by (rule query_result [OF query_discover_parts(2)]) code_simp
  have 5: "py_lower (work_mode sample_state) \<noteq> ''lkm''" by code_simp
  show ?thesis
    unfolding discover_def bind_def gets_def 1 prod.case sum.case if_not_P [OF 5] 2 list.case 3 4 ret_def sample_layout_def ..
qed

theorem discover_layout_witness:
  "is_ksu_tree sample_fs [''k'', ''kernel''] \<and> version sample_layout \<in> set SUPPORTED_KERNELS"
  using discover_layout [OF sample_discover] by (simp add: sample_layout_def sample_state_def)

subsection \<open>Build artefacts\<close>

definition source_stems :: "string list" where
  "source_stems = [''core'', ''policy'', ''namespace'', ''lsm'']"

text \<open>All names of build products that the installer may delete.\<close>

definition artifact_names :: "string list" where
  "artifact_names =
     concat (map (\<lambda>m. [m @ ''.o'', ''.'' @ m @ ''.o.cmd'', ''.'' @ m @ ''.o.d'',
       m @ ''.ko'', m @ ''.mod'', m @ ''.mod.c'', m @ ''.mod.o'',
       ''.'' @ m @ ''.ko.cmd'', ''.'' @ m @ ''.mod.cmd'', ''.'' @ m @ ''.mod.o.cmd'']) source_stems) @
     [''built-in.a'', ''.built-in.a.cmd'', ''modules.order'', ''.modules.order.cmd'', ''Module.symvers'']"

lemma accepts_words: "accepts (ralt (map RLit names)) w g \<longleftrightarrow> g = [] \<and> w \<in> set names"
  by (induction names rule: induct_list012) auto

lemma accepts_then:
  "accepts (RSeq (RLit t) r) w g \<longleftrightarrow> (\<exists>v. w = t @ v \<and> accepts r v g)"
  "accepts (RSeq (ralt (map RLit names)) r) w g \<longleftrightarrow> (\<exists>u\<in>set names. \<exists>v. w = u @ v \<and> accepts r v g)"
  unfolding accepts_seq accepts_lit accepts_words by (metis append_Nil)+

lemma fullmatch_iff: "anchor_free r \<Longrightarrow> re_fullmatch r w \<noteq> None \<longleftrightarrow> (\<exists>g. accepts r w g)"
  using fullmatch_accepts [of r w] fullmatch_none [of r w] by (cases "re_fullmatch r w") auto

lemma artifact_patterns_anchor_free: "list_all anchor_free KBUILD_ARTIFACT_PATTERNS"
  by (simp add: KBUILD_ARTIFACT_PATTERNS_def source_stem_def)

lemma accepts_artifact:
  "(\<exists>r\<in>set KBUILD_ARTIFACT_PATTERNS. \<exists>g. accepts r w g) \<longleftrightarrow> w \<in> set artifact_names"
proof -
  note lang = rseq.simps source_stem_def accepts_then accepts_words accepts_lit
  have 1: "(\<exists>g. accepts (rseq [source_stem, RLit ''.o'']) w g) \<longleftrightarrow> (\<exists>m\<in>set source_stems. w = m @ ''.o'')"
    unfolding lang source_stems_def by blast
  have 2: "(\<exists>g. accepts (rseq [RLit ''.'', source_stem, RLit ''.o.'', ralt (map RLit [''cmd'', ''d''])]) w g) \<longleftrightarrow>
      (\<exists>m\<in>set source_stems. \<exists>e\<in>set [''cmd'', ''d'']. w = ''.'' @ m @ ''.o.'' @ e)"
    unfolding lang source_stems_def by blast
  have 3: "(\<exists>g. accepts (rseq [source_stem, RLit ''.'', ralt (map RLit [''ko'', ''mod'', ''mod.c'', ''mod.o''])]) w g) \<longleftrightarrow>
      (\<exists>m\<in>set source_stems. \<exists>e\<in>set [''ko'', ''mod'', ''mod.c'', ''mod.o'']. w = m @ ''.'' @ e)"
    unfolding lang source_stems_def by blast
  have 4: "(\<exists>g. accepts (rseq [RLit ''.'', source_stem, RLit ''.'', ralt (map RLit [''ko'', ''mod'', ''mod.o'']), RLit ''.cmd'']) w g) \<longleftrightarrow>
      (\<exists>m\<in>set source_stems. \<exists>e\<in>set [''ko'', ''mod'', ''mod.o'']. w = ''.'' @ m @ ''.'' @ e @ ''.cmd'')"
    unfolding lang source_stems_def by blast
  have 5: "(\<exists>g. accepts (RLit n) w g) \<longleftrightarrow> w = n" for n by simp
  have m: "w \<in> set (concat (map (\<lambda>m. [m @ ''.o'', ''.'' @ m @ ''.o.cmd'', ''.'' @ m @ ''.o.d'',
       m @ ''.ko'', m @ ''.mod'', m @ ''.mod.c'', m @ ''.mod.o'',
       ''.'' @ m @ ''.ko.cmd'', ''.'' @ m @ ''.mod.cmd'', ''.'' @ m @ ''.mod.o.cmd'']) source_stems)) \<longleftrightarrow>
      (\<exists>m\<in>set source_stems. w = m @ ''.o'') \<or>
      (\<exists>m\<in>set source_stems. \<exists>e\<in>set [''cmd'', ''d'']. w = ''.'' @ m @ ''.o.'' @ e) \<or>
      (\<exists>m\<in>set source_stems. \<exists>e\<in>set [''ko'', ''mod'', ''mod.c'', ''mod.o'']. w = m @ ''.'' @ e) \<or>
      (\<exists>m\<in>set source_stems. \<exists>e\<in>set [''ko'', ''mod'', ''mod.o'']. w = ''.'' @ m @ ''.'' @ e @ ''.cmd'')"
    by (simp add: bex_disj_distrib)
  show ?thesis
    unfolding KBUILD_ARTIFACT_PATTERNS_def artifact_names_def set_append Un_iff m
    unfolding list.set(2) [of "rseq _"] list.set(2) [of "RLit _"] bex_simps 1 2 3 4 5 by simp
qed

lemma trusted_artifact_names: "trusted_kbuild_artifact p \<longleftrightarrow> path_name p \<in> set artifact_names"
proof -
  have "re_fullmatch r (path_name p) \<noteq> None \<longleftrightarrow> (\<exists>g. accepts r (path_name p) g)" if "r \<in> set KBUILD_ARTIFACT_PATTERNS" for r
    using that artifact_patterns_anchor_free fullmatch_iff by (auto simp: list_all_iff)
  then show ?thesis
    unfolding trusted_kbuild_artifact_def list_ex_iff accepts_artifact [symmetric] by blast
qed

subsection \<open>An existing sandbox directory\<close>

text \<open>A file with the ownership marker, and what may be found in the directory.\<close>

definition marked :: "fs \<Rightarrow> path \<Rightarrow> bool" where
  "marked fs p \<longleftrightarrow> (case stat fs p of Some (FileN raw) \<Rightarrow> py_in MARKER (universal_newlines raw) | _ \<Rightarrow> False)"

definition acceptable :: "fs \<Rightarrow> string list \<Rightarrow> path \<Rightarrow> bool" where
  "acceptable fs owned p \<longleftrightarrow> path_is_file fs p \<and> \<not> path_is_symlink fs p \<and>
     (if path_name p \<in> set owned \<union> set LEGACY_SOURCE_NAMES then marked fs p else path_name p \<in> set artifact_names)"

lemma read_marked: "(\<exists>t. read p s = (Inr t, s) \<and> marked (fsys s) p = py_in MARKER t) \<or>
    (\<exists>e. read p s = (Inl e, s)) \<and> \<not> marked (fsys s) p"
  using read_outcome [of s p] by (auto simp: marked_def split: option.splits node.splits)

lemma file_not_dir: "path_is_file fs p \<Longrightarrow> \<not> path_is_dir fs p"
  by (auto simp: path_is_file_def path_is_dir_def is_regular_def)

lemma inspect_step:
  "fst (inspect_target owned (p # ps) s) = Inr (artifacts, legacy) \<longleftrightarrow>
     acceptable (fsys s) owned p \<and> (\<exists>a b. fst (inspect_target owned ps s) = Inr (a, b) \<and>
       artifacts = (if path_name p \<in> set owned \<union> set LEGACY_SOURCE_NAMES then a else p # a) \<and>
       legacy = (if path_name p \<in> set LEGACY_SOURCE_NAMES - set owned then p # b else b))"
  using read_marked [of p s] file_not_dir [of "fsys s" p]
  by (auto simp: bind_def gets_def raise_def ret_def acceptable_def trusted_artifact_names
      split: prod.splits sum.splits)

lemma inspect_target_iff:
  "fst (inspect_target owned ps s) = Inr (artifacts, legacy) \<longleftrightarrow>
     list_all (acceptable (fsys s) owned) ps \<and>
     artifacts = filter (\<lambda>p. path_name p \<notin> set owned \<union> set LEGACY_SOURCE_NAMES) ps \<and>
     legacy = filter (\<lambda>p. path_name p \<in> set LEGACY_SOURCE_NAMES - set owned) ps"
proof (induction ps arbitrary: artifacts legacy)
  case (Cons p ps)
  show ?case unfolding inspect_step Cons.IH by auto
qed (auto simp: ret_def)

text \<open>
  C17: \<^verbatim>\<open>copy_sources\<close> deletes nothing it does not own. The inspection of an existing sandbox directory succeeds exactly when
  every entry is a regular file, not a link, that is either one of the installer's own or legacy sources and carries the
  ownership marker, or is one of the 45 listed build products; the files handed on for deletion are exactly
  these build products and the legacy sources, in directory order.
\<close>

theorem inspect_target_exact:
  "fst (inspect_target owned ps s) = Inr (artifacts, legacy) \<longleftrightarrow>
     list_all (acceptable (fsys s) owned) ps \<and>
     artifacts = filter (\<lambda>p. path_name p \<notin> set owned \<union> set LEGACY_SOURCE_NAMES) ps \<and>
     legacy = filter (\<lambda>p. path_name p \<in> set LEGACY_SOURCE_NAMES - set owned) ps"
  by (rule inspect_target_iff)

end
