(* ===== verification/Tree_Laws.thy ===== *)
theory Tree_Laws
  imports Confined
begin

text \<open>
  The well-formedness of the file system as an invariant: whatever the installer does, also when a rollback fails half way,
  every entry lies in a directory.
\<close>

definition keeps_tree :: "state \<Rightarrow> state \<Rightarrow> bool" where
  "keeps_tree s s' \<longleftrightarrow> (tree_fs (fsys s) \<longrightarrow> tree_fs (fsys s'))"

interpretation keeps_tree: state_relation keeps_tree
  by unfold_locales (auto simp: keeps_tree_def)

subsection \<open>The primitives\<close>

lemma tree_store: "leaf (Some n) \<Longrightarrow> runs keeps_tree (store p n)"
  unfolding runs_def keeps_tree_def
proof (intro allI impI)
  fix s :: state assume n: "leaf (Some n)" and tree: "tree_fs (fsys s)"
  obtain x u where run: "store p n s = (x, u)" by fastforce
  from store_cases [OF run tree] show "tree_fs (fsys (snd (store p n s)))"
  proof (elim disjE exE conjE)
    fix r assume r: "leaf (map_of (fsys s) r)" "r \<noteq> []" "map_of (fsys s) (butlast r) = Some DirN"
      "u = s\<lparr>fsys := AList.update r n (fsys s)\<rparr>"
    from leaf_update(2) [OF tree r(1) n r(2,3) update_conv'] r(4) run show ?thesis by simp
  qed (use run tree in simp)
qed

lemma tree_os_mkdir: "runs keeps_tree (os_mkdir p)"
  unfolding runs_def keeps_tree_def
proof (intro allI impI)
  fix s :: state assume tree: "tree_fs (fsys s)"
  obtain x u where run: "os_mkdir p s = (x, u)" by fastforce
  from os_mkdir_cases [OF run] show "tree_fs (fsys (snd (os_mkdir p s)))"
  proof (elim disjE exE conjE)
    fix r assume r: "map_of (fsys s) r = None" "r \<noteq> []" "map_of (fsys s) (butlast r) = Some DirN"
      "u = s\<lparr>fsys := AList.update r DirN (fsys s)\<rparr>"
    from new_dir_update(2) [OF tree r(1-3) update_conv'] r(4) run show ?thesis by simp
  qed (use run tree in simp)
qed

text \<open>Removing an entry that has no entries below it.\<close>

lemma tree_delete:
  assumes "tree_fs fs" "r \<noteq> []" "\<And>x. map_of fs (r @ [x]) = None"
  shows "tree_fs (AList.delete r fs)"
proof -
  have "butlast p \<noteq> r" if "map_of fs p = Some n" "p \<noteq> []" for p n
    using assms(3) [of "last p"] append_butlast_last_id [OF that(2)] that(1) by auto
  with assms(1,2) show ?thesis by (auto simp: tree_fs_def delete_conv')
qed

lemma tree_unlink: "runs keeps_tree (unlink p)"
  unfolding runs_def keeps_tree_def
proof (intro allI impI)
  fix s :: state assume tree: "tree_fs (fsys s)"
  obtain x u where run: "unlink p s = (x, u)" by fastforce
  from unlink_cases [OF run] show "tree_fs (fsys (snd (unlink p s)))"
  proof (elim disjE exE conjE)
    fix r n assume r: "map_of (fsys s) r = Some n" "n \<noteq> DirN" "u = s\<lparr>fsys := AList.delete r (fsys s)\<rparr>"
    have "r \<noteq> []" using r(1,2) tree_root [OF tree] by auto
    with tree_delete [OF tree] tree_no_child [OF tree] r run show ?thesis by simp
  qed (use run tree in simp)
qed

lemma tree_rmdir: "p \<noteq> [] \<Longrightarrow> runs keeps_tree (rmdir p)"
  unfolding runs_def keeps_tree_def
proof (intro allI impI)
  fix s :: state assume p: "p \<noteq> []" and tree: "tree_fs (fsys s)"
  obtain x u where run: "rmdir p s = (x, u)" by fastforce
  from rmdir_cases [OF run] show "tree_fs (fsys (snd (rmdir p s)))"
  proof (elim disjE exE conjE)
    fix r assume r: "entry (fsys s) p = Some r" "dir_empty (fsys s) r" "u = s\<lparr>fsys := AList.delete r (fsys s)\<rparr>"
    have "map_of (fsys s) (r @ [x]) = None" for x
      using r(2) by (force simp: dir_empty_def list_all_iff map_of_eq_None_iff)
    moreover have "r \<noteq> []" using r(1) p by (auto simp: entry_def)
    ultimately show ?thesis using tree_delete [OF tree] r(3) run by simp
  qed (use run tree in simp)
qed

subsection \<open>Recording, writing and rolling back\<close>

lemma tree_set_txn: "runs keeps_tree (set_txn t)" "runs keeps_tree end_transaction"
  by (simp_all add: runs_def keeps_tree_def set_txn_def end_transaction_def modify_def)

lemma tree_record_missing: "runs keeps_tree (record_missing_directories t p)"
  unfolding record_missing_directories_def Let_def
  by (intro keeps_tree.runs_rules tree_set_txn keeps_tree.runs_query queries)

lemma tree_record: "runs keeps_tree (record_file p)" "runs keeps_tree (record_directory p)"
  unfolding record_file_def record_directory_def back_up_file_def
  by (intro keeps_tree.runs_rules tree_set_txn tree_record_missing keeps_tree.runs_query queries)+

lemma tree_mkdir_parents: "runs keeps_tree (mkdir_parents p)"
  by (rule keeps_tree.runs_mkdir_parents) (rule tree_os_mkdir)

interpretation tree_effects: install_effects keeps_tree "\<lambda>_. True"
proof
  show "runs keeps_tree (write_file p contents)" for p contents
    unfolding write_file_def write_text_def
    by (intro keeps_tree.runs_rules tree_record tree_mkdir_parents tree_store keeps_tree.runs_query queries) simp
  show "runs keeps_tree (remove_file p description)" for p description
    unfolding remove_file_def by (intro keeps_tree.runs_rules tree_record tree_unlink keeps_tree.runs_query queries)
  show "runs keeps_tree (bind (record_directory p) (\<lambda>_. mkdir_parents p))" for p
    by (intro keeps_tree.runs_bind tree_record tree_mkdir_parents)
qed

lemmas tree_pure = keeps_tree.runs_query [OF query_basic(1)] keeps_tree.runs_query [OF query_basic(2)]
  keeps_tree.runs_query [OF query_basic(3)] keeps_tree.runs_query [OF query_basic(4)] keeps_tree.runs_query [OF query_basic(5)]

lemma runs_attempt: "runs keeps_tree m \<Longrightarrow> runs keeps_tree (attempt p m)"
  unfolding attempt_def by (intro keeps_tree.runs_rules tree_pure)

lemma runs_mapM_in: "(\<And>x. x \<in> set xs \<Longrightarrow> runs keeps_tree (f x)) \<Longrightarrow> runs keeps_tree (mapM f xs)"
proof (induction xs)
  case (Cons x xs)
  then have "runs keeps_tree (f x)" "runs keeps_tree (mapM f xs)" by simp_all
  then show ?case unfolding mapM.simps by (intro keeps_tree.runs_bind tree_pure)
qed (simp add: tree_pure)

lemma tree_restore_file: "leaf b \<Longrightarrow> runs keeps_tree (restore_file p b)"
  unfolding restore_file_def
  by (cases b) (auto intro!: keeps_tree.runs_rules tree_unlink tree_store tree_mkdir_parents tree_pure)

lemma tree_remove_directory: "p \<noteq> [] \<Longrightarrow> runs keeps_tree (remove_directory p)"
  unfolding remove_directory_def by (intro keeps_tree.runs_rules tree_rmdir tree_pure)

lemma tree_rollback:
  assumes "\<forall>(p, b)\<in>set (files t). leaf b" "[] \<notin> set (missing_directories t)"
  shows "runs keeps_tree (rollback t)"
  unfolding rollback_def Let_def
  by (intro keeps_tree.runs_bind runs_mapM_in tree_pure)
    (use assms in \<open>auto intro!: runs_attempt tree_restore_file tree_remove_directory\<close>)

lemma journal_rollback:
  assumes "tree_fs fs0" "journal fs0 fs t"
  shows "runs keeps_tree (rollback t)"
proof (rule tree_rollback)
  show "\<forall>(p, b)\<in>set (files t). leaf b" using assms(2) by (auto simp: journal_def journal_files_def)
  show "[] \<notin> set (missing_directories t)" using assms tree_root by (auto simp: journal_def journal_dirs_def)
qed

subsection \<open>The commands\<close>

lemma tree_with_transaction:
  assumes "runs keeps_tree body" "runs keeps_journal body"
  shows "runs keeps_tree (with_transaction body)"
  unfolding runs_def keeps_tree_def
proof (intro allI impI)
  fix s :: state assume tree: "tree_fs (fsys s)"
  show "tree_fs (fsys (snd (with_transaction body s)))"
  proof (cases "active_transaction s")
    case (Some t)
    with tree show ?thesis by (simp add: with_transaction_def transaction_enter_def bind_def gets_def raise_def)
  next
    case None
    let ?s = "s\<lparr>active_transaction := Some empty_txn\<rparr>"
    obtain x u where u: "body ?s = (x, u)" by fastforce
    have enter: "transaction_enter s = (Inr (), ?s)"
      by (simp add: transaction_enter_def bind_def gets_def None set_txn_def modify_def)
    have "journaled (fsys s) ?s" using journal_start [OF tree] by (simp add: journaled_def)
    with assms(2) u have "journaled (fsys s) u" by (auto simp: runs_def keeps_journal_def dest: spec [of _ ?s])
    then obtain t where t: "active_transaction u = Some t" and J: "journal (fsys s) (fsys u) t" by (auto simp: journaled_def)
    have exit: "tree_fs (fsys (snd (transaction_exit (Some e) u)))" for e
      using journal_rollback [OF tree J] journal_tree [OF J]
      by (cases "rollback t u"; cases "fst (rollback t u)")
        (auto simp: runs_def keeps_tree_def transaction_exit_def bind_def gets_def t catch_def end_transaction_def modify_def
          raise_def whenM_def complain_def ret_def dest!: spec [of _ u])
    show ?thesis
    proof (cases x)
      case (Inl e)
      obtain f w where w: "transaction_exit (Some e) u = (Inl f, w)"
        using transaction_exit_raises [of e u] by (cases "transaction_exit (Some e) u"; cases "fst (transaction_exit (Some e) u)") auto
      with exit [of e] u Inl show ?thesis by (simp add: with_transaction_def bind_def enter catch_def)
    next
      case (Inr v)
      with u journal_tree [OF J] show ?thesis
        by (simp add: with_transaction_def bind_def enter catch_def transaction_exit_def end_transaction_def modify_def)
    qed
  qed
qed

lemma tree_install: "runs keeps_tree (install l root dc)"
proof -
  have "runs keeps_tree (with_transaction (install_body l root p))" for p
    by (intro tree_with_transaction tree_effects.runs_install_body transaction.runs_install_body) simp_all
  then show ?thesis
    unfolding install_def by (intro keeps_tree.runs_bind keeps_tree.runs_report) (assumption | intro keeps_tree.runs_query queries)+
qed



end
