(* ===== verification/Copy_Laws.thy ===== *)
theory Copy_Laws
  imports File_Laws Discover_Laws Tree_Laws
begin

text \<open>
  \<^verbatim>\<open>copy_sources\<close>: after a run that returns, every module source can be read back from the sandbox directory.
\<close>

subsection \<open>Links stay as they are\<close>

definition same_links :: "state \<Rightarrow> state \<Rightarrow> bool" where
  "same_links s s' \<longleftrightarrow> (tree_fs (fsys s) \<longrightarrow> tree_fs (fsys s') \<and> link_target (fsys s') = link_target (fsys s))"

interpretation links: state_relation same_links
  by unfold_locales (auto simp: same_links_def)

lemma grows_links: "runs grows m \<Longrightarrow> runs same_links m"
  by (auto simp: runs_def grows_def same_links_def keeps_dirs_def)

lemma links_fsys: "(\<And>s. fsys (snd (m s)) = fsys s) \<Longrightarrow> runs same_links m"
  by (simp add: runs_def same_links_def)

lemma record_directory_fsys: "fsys (snd (record_directory p s)) = fsys s"
proof -
  have "fsys (snd (record_missing_directories t q u)) = fsys u" for t q u
    by (auto simp: record_missing_directories_def bind_def gets_def set_txn_def modify_def lift_def ret_def
        Let_def split: prod.splits sum.splits)
  then show ?thesis
    by (auto simp: record_directory_def is_symlink_def exists_p_def is_dir_def bind_def gets_def raise_def ret_def
        split: option.splits prod.splits sum.splits) (metis snd_conv)+
qed

lemma links_store: "leaf (Some n) \<Longrightarrow> runs same_links (store p n)"
  unfolding runs_def same_links_def
proof (intro allI impI)
  fix s :: state assume n: "leaf (Some n)" and tree: "tree_fs (fsys s)"
  obtain x u where run: "store p n s = (x, u)" by fastforce
  from store_cases [OF run tree] show "tree_fs (fsys (snd (store p n s))) \<and> link_target (fsys (snd (store p n s))) = link_target (fsys s)"
  proof (elim disjE exE conjE)
    fix r assume r: "leaf (map_of (fsys s) r)" "r \<noteq> []" "map_of (fsys s) (butlast r) = Some DirN"
      "u = s\<lparr>fsys := AList.update r n (fsys s)\<rparr>"
    from leaf_update [OF tree r(1) n r(2,3) update_conv'] r(4) run show ?thesis by (simp add: keeps_dirs_def)
  qed (use run tree in simp)
qed

lemma links_remove_file: "runs same_links (remove_file p description)"
  unfolding runs_def same_links_def
proof (intro allI impI)
  fix s :: state assume tree: "tree_fs (fsys s)"
  show "tree_fs (fsys (snd (remove_file p description s))) \<and> link_target (fsys (snd (remove_file p description s))) = link_target (fsys s)"
  proof (cases "path_is_file (fsys s) p \<and> \<not> path_is_symlink (fsys s) p \<and> path_exists (fsys s) p")
    case False
    with tree show ?thesis
      by (auto simp: remove_file_def exists_p_def is_symlink_def is_file_def bind_def gets_def ret_def raise_def)
  next
    case True
    obtain x u where u: "record_file p s = (x, u)" by fastforce
    then have fu: "fsys u = fsys s" using record_file_fsys [of p s] by simp
    obtain y v where v: "unlink p u = (y, v)" by fastforce
    have "tree_fs (fsys v) \<and> link_target (fsys v) = link_target (fsys s)"
      using unlink_cases [OF v]
    proof (elim disjE exE conjE)
      fix r n assume r: "entry (fsys u) p = Some r" "map_of (fsys u) r = Some n" "n \<noteq> DirN" "v = u\<lparr>fsys := AList.delete r (fsys u)\<rparr>"
      have "link_target (fsys u) r = None" using True r(1) fu by (auto simp: path_is_symlink_iff)
      moreover have "runs keeps_tree (unlink p)" by (rule tree_unlink)
      ultimately show ?thesis using r(4) v tree fu
        by (auto simp: runs_def keeps_tree_def fun_eq_iff link_target_def delete_conv' dest!: spec [of _ u])
    qed (use fu tree in simp)
    then show ?thesis using True u v fu tree
      by (cases x; cases y) (auto simp: remove_file_def exists_p_def is_symlink_def is_file_def bind_def gets_def say_def modify_def)
  qed
qed

interpretation linked: install_effects same_links "\<lambda>_. True"
proof
  show "runs same_links (write_file p contents)" for p contents
    unfolding write_file_def write_text_def
    by (intro links.runs_rules links_fsys [OF record_file_fsys] grows_links [OF grows_mkdir_parents] links_store
        links.runs_query queries) simp
  show "runs same_links (bind (record_directory p) (\<lambda>_. mkdir_parents p))" for p
    by (intro links.runs_bind links_fsys [OF record_directory_fsys] grows_links [OF grows_mkdir_parents])
qed (rule links_remove_file)

lemma runs_linksD: "runs same_links m \<Longrightarrow> m s = (x, s') \<Longrightarrow> tree_fs (fsys s) \<Longrightarrow>
  tree_fs (fsys s') \<and> link_target (fsys s') = link_target (fsys s)"
  by (auto simp: runs_def same_links_def dest: spec [of _ s])

subsection \<open>Writing files into one directory\<close>

lemma universal_newlines_cr: "CR \<notin> set (universal_newlines t)"
  by (induction t rule: universal_newlines.induct) auto

lemma write_files_read:
  assumes "forM (\<lambda>(name, content). bind (raise_when (\<not> py_in MARKER content) (e name)) (\<lambda>_. write_file (d @ [name]) content)) fl s = (Inr (), s')"
    and "tree_fs (fsys s)" "distinct (map fst fl)" "\<And>n. realpath (fsys s) (d @ [n]) = Some (r @ [n])"
    and "\<forall>(name, content)\<in>set fl. CR \<notin> set content"
  shows "(\<forall>(name, content)\<in>set fl. py_in MARKER content \<and>
      (\<exists>raw. stat (fsys s') (d @ [name]) = Some (FileN raw) \<and> universal_newlines raw = content)) \<and>
    (\<forall>n. n \<notin> set (map fst fl) \<longrightarrow> path_exists (fsys s) (d @ [n]) \<longrightarrow> stat (fsys s') (d @ [n]) = stat (fsys s) (d @ [n]))"
  using assms
proof (induction fl arbitrary: s)
  case (Cons nt fl)
  obtain name content where nt: "nt = (name, content)" by fastforce
  from Cons.prems(1) obtain u where w: "py_in MARKER content" "write_file (d @ [name]) content s = (Inr (), u)"
    and rest: "forM (\<lambda>(name, content). bind (raise_when (\<not> py_in MARKER content) (e name)) (\<lambda>_. write_file (d @ [name]) content)) fl u = (Inr (), s')"
    unfolding nt forM.simps prod.case bind_ok by (auto simp: raise_when_def raise_def ret_def split: if_splits)
  have cr: "CR \<notin> set content" using Cons.prems(5) nt by simp
  note one = write_file_effect [OF w(2) cr Cons.prems(2)]
  note ln = runs_linksD [OF linked.R_write [OF TrueI] w(2) Cons.prems(2)]
  have real: "realpath (fsys u) (d @ [n]) = Some (r @ [n])" for n
    using Cons.prems(4) realpath_cong [of "fsys u" "fsys s"] ln by simp
  from Cons.IH [OF rest _ _ real] ln Cons.prems(3,5) nt have
    IH: "\<forall>(name, content)\<in>set fl. py_in MARKER content \<and> (\<exists>raw. stat (fsys s') (d @ [name]) = Some (FileN raw) \<and> universal_newlines raw = content)"
    "\<And>n. n \<notin> set (map fst fl) \<Longrightarrow> path_exists (fsys u) (d @ [n]) \<Longrightarrow> stat (fsys s') (d @ [n]) = stat (fsys u) (d @ [n])"
    by auto
  have "stat (fsys s') (d @ [name]) = stat (fsys u) (d @ [name])"
    using IH(2) [of name] one(1) Cons.prems(3) nt by (auto simp: path_exists_def)
  moreover have "stat (fsys s') (d @ [n]) = stat (fsys s) (d @ [n])" if "n \<notin> set (map fst (nt # fl))" "path_exists (fsys s) (d @ [n])" for n
  proof -
    have "stat (fsys u) (d @ [n]) = stat (fsys s) (d @ [n])" using one(2) [of "d @ [n]"] that Cons.prems(4) nt by auto
    with IH(2) [of n] that show ?thesis by (auto simp: path_exists_def)
  qed
  ultimately show ?case using IH(1) one(1) w(1) nt by auto
qed (simp add: ret_def)

subsection \<open>The sandbox directory\<close>

lemma mkdir_needs_entry:
  assumes "mkdir_parents p s = (Inr (), s')"
  shows "entry (fsys s) p \<noteq> None"
proof
  assume none: "entry (fsys s) p = None"
  then have "p \<noteq> []" "realpath (fsys s) (butlast p) = None" by (auto simp: entry_def split: if_splits)
  then have "realpath (fsys s) p = None"
    unfolding realpath_def using walk_prefix [of max_links "fsys s" "[]" "butlast p" "last p"] by fastforce
  with none assms show False
    by (subst (asm) mkdir_parents.simps) (simp add: catch_def os_mkdir_def bind_def gets_def raise_def is_dir_def
        path_is_dir_def stat_def)
qed

text \<open>No entry of the directory is a link, so its entries are not aliases of each other.\<close>

lemma sandbox_entries:
  assumes tree: "tree_fs fs" and "\<not> path_is_symlink fs d" "path_exists fs d \<longrightarrow> path_is_dir fs d" "entry fs d \<noteq> None"
    and "path_is_dir fs d \<longrightarrow> list_all (acceptable fs owned) (path_iterdir fs d)"
  obtains r where "\<And>n. realpath fs (d @ [n]) = Some (r @ [n])"
proof -
  obtain r where r: "entry fs d = Some r" using assms(4) by blast
  with assms(2) have "link_target fs r = None" by (auto simp: path_is_symlink_iff)
  with r have real: "realpath fs d = Some r" by (rule entry_realpath)
  have "link_target fs (r @ [n]) = None" for n
  proof (cases "map_of fs (r @ [n])")
    case (Some m)
    then have "map_of fs r = Some DirN" by (rule tree_parent [OF tree])
    then have "list_all (acceptable fs owned) (path_iterdir fs d)" using assms(5) real by (simp add: path_is_dir_realpath)
    moreover have "d @ [n] \<in> set (path_iterdir fs d)"
      using map_of_SomeD [OF Some] real by (force simp: path_iterdir_def)
    ultimately have "\<not> path_is_symlink fs (d @ [n])" by (auto simp: list_all_iff acceptable_def)
    moreover have "entry fs (d @ [n]) = Some (r @ [n])" using real by (simp add: entry_def)
    ultimately show ?thesis by (auto simp: path_is_symlink_iff)
  qed (simp add: link_target_def)
  with real have "realpath fs (d @ [n]) = Some (r @ [n])" for n
    unfolding realpath_def by (intro walk_snoc) auto
  then show ?thesis by (rule that)
qed

lemma distinct_names:
  assumes "distinct (map fst fs)"
  shows "distinct (map path_name (source_file_list fs d))"
proof (cases "realpath fs d")
  case (Some r)
  let ?es = "filter (\<lambda>e. fst e \<noteq> [] \<and> butlast (fst e) = r) fs"
  have "distinct (map fst ?es)" using assms by (rule distinct_map_filter)
  moreover have "inj_on last (fst ` set ?es)"
    by (rule inj_onI) (auto, metis append_butlast_last_id)
  ultimately have "distinct (map last (map fst ?es))" by (simp only: distinct_map set_map)
  then have "distinct (map path_name (path_iterdir fs d))"
    by (simp add: path_iterdir_def Some path_name_def o_def)
  then show ?thesis unfolding source_file_list_def by (rule distinct_map_filter)
qed (simp add: source_file_list_def path_iterdir_def)

lemma mapM_read:
  assumes "mapM (\<lambda>item. bind (read item) (\<lambda>t. ret (path_name item, t))) items s = (Inr texts, s')"
  shows "map fst texts = map path_name items \<and> (\<forall>item\<in>set items. \<exists>t. read item s = (Inr t, s) \<and> (path_name item, t) \<in> set texts) \<and>
    (\<forall>(n, t)\<in>set texts. CR \<notin> set t)"
  using assms
proof (induction items arbitrary: texts s')
  case (Cons item items)
  from query_bind_ok [OF _ Cons.prems [unfolded mapM.simps]] obtain nt where
    nt: "bind (read item) (\<lambda>t. ret (path_name item, t)) s = (Inr nt, s)"
    and rest: "bind (mapM (\<lambda>item. bind (read item) (\<lambda>t. ret (path_name item, t))) items) (\<lambda>ys. ret (nt # ys)) s = (Inr texts, s')"
    using query_bind [OF query_read query_basic(1)] by blast
  from query_bind_ok [OF query_read nt] obtain t where t: "read item s = (Inr t, s)" "nt = (path_name item, t)" by (auto simp: ret_def)
  from rest obtain ys u where ys: "mapM (\<lambda>item. bind (read item) (\<lambda>t. ret (path_name item, t))) items s = (Inr ys, u)" "texts = nt # ys"
    by (auto simp: bind_ok ret_def)
  have "CR \<notin> set t" using t(1) read_outcome [of s item] universal_newlines_cr by auto
  with Cons.IH [OF ys(1)] ys(2) t show ?case by auto
qed (simp add: ret_def)

text \<open>The stages of a run that returns.\<close>

abbreviation sandbox_dir :: "path \<Rightarrow> path" where
  "sandbox_dir k \<equiv> k @ [''abk_sandbox'']"

abbreviation module_sources :: "fs \<Rightarrow> path \<Rightarrow> path list" where
  "module_sources fs root \<equiv> source_file_list fs (path_join root ''files/abk_ksu_sandbox'')"

definition write_sources :: "path \<Rightarrow> path \<Rightarrow> (string \<times> string) list \<Rightarrow> unit io" where
  "write_sources k root = forM (\<lambda>(name, source_text).
     bind (raise_when (\<not> py_in MARKER source_text)
       (InstallError (''module source is missing ownership marker: '' @ str_path (path_join root ''files/abk_ksu_sandbox'' @ [name])))) (\<lambda>_.
     write_file (sandbox_dir k @ [name]) source_text))"

lemma copy_sources_stages:
  assumes "copy_sources k root s = (Inr (), s')"
  obtains artifacts legacy texts u v w b where
    "\<not> path_is_symlink (fsys s) (sandbox_dir k)" "path_exists (fsys s) (sandbox_dir k) \<longrightarrow> path_is_dir (fsys s) (sandbox_dir k)"
    "path_is_dir (fsys s) (sandbox_dir k) \<longrightarrow>
       fst (inspect_target (map path_name (module_sources (fsys s) root)) (path_iterdir (fsys s) (sandbox_dir k)) s) = Inr (artifacts, legacy)"
    "mapM (\<lambda>item. bind (read item) (\<lambda>t. ret (path_name item, t))) (module_sources (fsys s) root) s = (Inr texts, s)"
    "bind (whenM b (forM (\<lambda>artifact. remove_file artifact ''stale build artifact'') artifacts)) (\<lambda>_.
       bind (forM (\<lambda>legacy. remove_file legacy ''legacy source'') legacy) (\<lambda>_. record_directory (sandbox_dir k))) s = (Inr (), u)"
    "mkdir_parents (sandbox_dir k) u = (Inr (), v)" "write_sources k root texts v = (Inr (), w)" "fsys s' = fsys w"
proof -
  let ?fs = "fsys s" and ?d = "sandbox_dir k"
  let ?names = "map path_name (module_sources ?fs root)"
  let ?inspect = "if path_is_dir ?fs ?d then inspect_target ?names (path_iterdir ?fs ?d) else ret ([], [])"
  let ?read = "mapM (\<lambda>item. bind (read item) (\<lambda>t. ret (path_name item, t))) (module_sources ?fs root)"
  note run = assms [unfolded copy_sources_def Let_def bind_def [of "gets fsys"] gets_def prod.case sum.case write_sources_def [symmetric]]
  have ok: "path_is_dir ?fs (path_join root ''files/abk_ksu_sandbox'')" and
    t: "\<not> (path_is_symlink ?fs ?d \<or> path_exists ?fs ?d \<and> \<not> path_is_dir ?fs ?d)"
    using run by (auto simp: raise_def split: if_splits)
  note run = run [unfolded if_not_P [OF not_not [THEN iffD2, OF ok]] if_not_P [OF t]]
  have q1: "query ?inspect" by (intro queries)
  from query_bind_ok [OF q1 run] obtain al where al: "?inspect s = (Inr al, s)" and
    run2: "(case al of (artifacts, legacy) \<Rightarrow> bind ?read (\<lambda>texts. bind (any_source_changed ?d texts) (\<lambda>b.
       bind (whenM b (forM (\<lambda>artifact. remove_file artifact ''stale build artifact'') artifacts)) (\<lambda>_.
       bind (forM (\<lambda>legacy. remove_file legacy ''legacy source'') legacy) (\<lambda>_.
       bind (record_directory ?d) (\<lambda>_. bind (mkdir_parents ?d) (\<lambda>_. bind (write_sources k root texts) (\<lambda>_.
       say (''ABK KSU Sandbox: synchronized sources to '' @ str_path ?d))))))))) s = (Inr (), s')"
    by blast
  obtain artifacts legacy where al': "al = (artifacts, legacy)" by fastforce
  have q2: "query ?read" by (intro queries)
  from query_bind_ok [OF q2 run2 [unfolded al' prod.case]] obtain texts where texts: "?read s = (Inr texts, s)" and
    run3: "bind (any_source_changed ?d texts) (\<lambda>b.
       bind (whenM b (forM (\<lambda>artifact. remove_file artifact ''stale build artifact'') artifacts)) (\<lambda>_.
       bind (forM (\<lambda>legacy. remove_file legacy ''legacy source'') legacy) (\<lambda>_.
       bind (record_directory ?d) (\<lambda>_. bind (mkdir_parents ?d) (\<lambda>_. bind (write_sources k root texts) (\<lambda>_.
       say (''ABK KSU Sandbox: synchronized sources to '' @ str_path ?d))))))) s = (Inr (), s')"
    by blast
  from query_bind_ok [OF query_any_source_changed run3] obtain b where
    "bind (whenM b (forM (\<lambda>artifact. remove_file artifact ''stale build artifact'') artifacts)) (\<lambda>_.
       bind (forM (\<lambda>legacy. remove_file legacy ''legacy source'') legacy) (\<lambda>_.
       bind (record_directory ?d) (\<lambda>_. bind (mkdir_parents ?d) (\<lambda>_. bind (write_sources k root texts) (\<lambda>_.
       say (''ABK KSU Sandbox: synchronized sources to '' @ str_path ?d)))))) s = (Inr (), s')" by blast
  then obtain u v w where "bind (whenM b (forM (\<lambda>artifact. remove_file artifact ''stale build artifact'') artifacts)) (\<lambda>_.
       bind (forM (\<lambda>legacy. remove_file legacy ''legacy source'') legacy) (\<lambda>_. record_directory ?d)) s = (Inr (), u)"
    "mkdir_parents ?d u = (Inr (), v)" "write_sources k root texts v = (Inr (), w)" "fsys s' = fsys w"
    unfolding bind_ok say_def modify_def by auto
  moreover have "path_is_dir ?fs ?d \<longrightarrow> fst (inspect_target ?names (path_iterdir ?fs ?d) s) = Inr (artifacts, legacy)"
    using al al' by auto
  ultimately show ?thesis using t texts by (intro that) blast+
qed

subsection \<open>The sources are installed\<close>

text \<open>
  C25: \<^verbatim>\<open>copy_sources\<close> installs the module. After a run that returns, every source of the module (every regular file of
  \<^verbatim>\<open>files/abk_ksu_sandbox\<close> but the legacy header) could be read, carries the ownership marker, and \<^verbatim>\<open>abk_sandbox\<close> holds a file of the
  same name that reads as the same text, so no source has overwritten another one.
\<close>

theorem copy_sources_installs:
  assumes "copy_sources k root s = (Inr (), s')" "tree_fs (fsys s)" "distinct (map fst (fsys s))"
  shows "list_all (\<lambda>item. \<exists>t. read item s = (Inr t, s) \<and> py_in MARKER t \<and> read (sandbox_dir k @ [path_name item]) s' = (Inr t, s'))
    (module_sources (fsys s) root)"
proof -
  let ?d = "sandbox_dir k"
  from copy_sources_stages [OF assms(1)] obtain artifacts legacy texts u v w b where
    d: "\<not> path_is_symlink (fsys s) ?d" "path_exists (fsys s) ?d \<longrightarrow> path_is_dir (fsys s) ?d" and
    insp: "path_is_dir (fsys s) ?d \<longrightarrow>
       fst (inspect_target (map path_name (module_sources (fsys s) root)) (path_iterdir (fsys s) ?d) s) = Inr (artifacts, legacy)" and
    texts: "mapM (\<lambda>item. bind (read item) (\<lambda>t. ret (path_name item, t))) (module_sources (fsys s) root) s = (Inr texts, s)" and
    clean: "bind (whenM b (forM (\<lambda>artifact. remove_file artifact ''stale build artifact'') artifacts)) (\<lambda>_.
       bind (forM (\<lambda>legacy. remove_file legacy ''legacy source'') legacy) (\<lambda>_. record_directory ?d)) s = (Inr (), u)" and
    mk: "mkdir_parents ?d u = (Inr (), v)" and wr: "write_sources k root texts v = (Inr (), w)" "fsys s' = fsys w" .
  have "runs same_links (bind (whenM b (forM (\<lambda>artifact. remove_file artifact ''stale build artifact'') artifacts)) (\<lambda>_.
       bind (forM (\<lambda>legacy. remove_file legacy ''legacy source'') legacy) (\<lambda>_. record_directory ?d)))"
    by (intro links.runs_rules links_remove_file links_fsys [OF record_directory_fsys])
  note lu = runs_linksD [OF this clean assms(2)]
  have lv: "tree_fs (fsys v) \<and> link_target (fsys v) = link_target (fsys s)"
    using runs_linksD [OF grows_links [OF grows_mkdir_parents] mk] lu by simp
  have "entry (fsys s) ?d \<noteq> None" using mkdir_needs_entry [OF mk] entry_cong [of "fsys u" "fsys s"] lu by simp
  moreover have "path_is_dir (fsys s) ?d \<longrightarrow>
      list_all (acceptable (fsys s) (map path_name (module_sources (fsys s) root))) (path_iterdir (fsys s) ?d)"
    using insp unfolding inspect_target_iff by blast
  ultimately obtain r where "\<And>n. realpath (fsys s) (?d @ [n]) = Some (r @ [n])"
    using sandbox_entries [OF assms(2) d] by blast
  then have real: "realpath (fsys v) (?d @ [n]) = Some (r @ [n])" for n
    using realpath_cong [of "fsys v" "fsys s"] lv by simp
  note m = mapM_read [OF texts]
  have "distinct (map fst texts)" using m distinct_names [OF assms(3)] by simp
  from write_files_read [OF wr(1) [unfolded write_sources_def] conjunct1 [OF lv] this real] m have
    installed: "\<And>name t. (name, t) \<in> set texts \<Longrightarrow> py_in MARKER t \<and> (\<exists>raw. stat (fsys w) (?d @ [name]) = Some (FileN raw) \<and> universal_newlines raw = t)"
    by fast
  show ?thesis
    unfolding list_all_iff
  proof
    fix item assume "item \<in> set (module_sources (fsys s) root)"
    with m obtain t where t: "read item s = (Inr t, s)" "(path_name item, t) \<in> set texts" by blast
    from installed [OF t(2)] obtain raw where "py_in MARKER t" "stat (fsys s') (?d @ [path_name item]) = Some (FileN raw)"
      "universal_newlines raw = t" using wr(2) by auto
    with t(1) read_file [of s' "?d @ [path_name item]" raw]
    show "\<exists>t. read item s = (Inr t, s) \<and> py_in MARKER t \<and> read (?d @ [path_name item]) s' = (Inr t, s')" by auto
  qed
qed

theorem copy_sources_installs_witness:
  "\<exists>s'. copy_sources [''k'', ''kernel''] [''m''] sample_state = (Inr (), s') \<and>
     read [''k'', ''kernel'', ''abk_sandbox'', ''core.c''] s' = (Inr ''/* ABK_KSU_SANDBOX_V1 */'', s')"
proof -
  have "fst (copy_sources [''k'', ''kernel''] [''m''] sample_state) = Inr ()" by code_simp
  then obtain s' where run: "copy_sources [''k'', ''kernel''] [''m''] sample_state = (Inr (), s')" by (metis prod.collapse)
  have "distinct (map fst (fsys sample_state))" by code_simp
  moreover have "module_sources (fsys sample_state) [''m''] = [[''m'', ''files'', ''abk_ksu_sandbox'', ''core.c'']]" by code_simp
  moreover have "fst (read [''m'', ''files'', ''abk_ksu_sandbox'', ''core.c''] sample_state) = Inr ''/* ABK_KSU_SANDBOX_V1 */''" by code_simp
  ultimately show ?thesis
    using copy_sources_installs [OF run] sample_tree run by (auto simp: sample_state_def path_name_def)
qed

end
