(* ===== verification/Header_Laws.thy ===== *)
theory Header_Laws
  imports Copy_Laws
begin

text \<open>The public header: \<^verbatim>\<open>patch_common_header\<close> never overwrites a foreign file and otherwise installs its template.\<close>

abbreviation header_template :: "path \<Rightarrow> path" where
  "header_template root \<equiv> path_join root ''files/abk_ksu_sandbox/abk_ksu_sandbox_api.h''"

abbreviation public_header :: "path \<Rightarrow> path" where
  "public_header c \<equiv> path_join c ''include/linux/abk_ksu_sandbox.h''"

lemma patch_common_header_stages:
  assumes "patch_common_header c root s = (Inr (), s')"
  obtains t where "path_exists (fsys s) (public_header c) \<longrightarrow> marked (fsys s) (public_header c)"
    "read (header_template root) s = (Inr t, s)" "write_file (public_header c) t s = (Inr (), s')"
proof -
  let ?h = "public_header c" and ?t = "header_template root"
  let ?foreign = "if path_exists (fsys s) ?h then bind (read ?h) (\<lambda>t. ret (\<not> py_in MARKER t)) else ret False"
  have q: "query ?foreign" by (intro queries)
  have e: "exists_p ?h s = (Inr (path_exists (fsys s) ?h), s)" by (simp add: exists_p_def gets_def)
  note run = assms [unfolded patch_common_header_def Let_def bind_def [of "exists_p _"] e prod.case sum.case]
  from query_bind_ok [OF q run] obtain foreign where f: "?foreign s = (Inr foreign, s)" and
    rest: "(if foreign then raise (InstallError (''refusing to overwrite non-ABK header: '' @ str_path ?h))
       else bind (read ?t) (\<lambda>t. write_file ?h t)) s = (Inr (), s')" by blast
  have nf: "\<not> foreign" using rest by (auto simp: raise_def)
  have "marked (fsys s) ?h" if ex: "path_exists (fsys s) ?h"
  proof -
    from f ex have "bind (read ?h) (\<lambda>t. ret (\<not> py_in MARKER t)) s = (Inr foreign, s)" by simp
    from query_bind_ok [OF query_read this] nf obtain t where "read ?h s = (Inr t, s)" "py_in MARKER t" by (auto simp: ret_def)
    with read_marked [of ?h s] show ?thesis by auto
  qed
  moreover from rest nf have "bind (read ?t) (\<lambda>t. write_file ?h t) s = (Inr (), s')" by simp
  from query_bind_ok [OF query_read this] obtain t where "read ?t s = (Inr t, s)" "write_file ?h t s = (Inr (), s')" by blast
  ultimately show ?thesis using that by blast
qed


definition header_state :: state where
  "header_state = \<lparr>fsys = [([], DirN), ([''c''], DirN), ([''m''], DirN), ([''m'', ''files''], DirN),
       ([''m'', ''files'', ''abk_ksu_sandbox''], DirN),
       ([''m'', ''files'', ''abk_ksu_sandbox'', ''abk_ksu_sandbox_api.h''], FileN ''int x;\<newline>'')],
     active_transaction = None, validation_only = False, work_mode = [], stdout = [], stderr = []\<rparr>"


end
