(* ===== verification/Recovery.thy ===== *)
theory Recovery
  imports Confined Discover_Laws
begin

text \<open>
  When a rollback cannot fail. In a tree without symbolic links in which no target of the layout lies below a
  regular file, every step of the rollback succeeds, so a failed installation always restores the tree and
  reports its own error: the transaction refines an atomic update of the tree.
\<close>

subsection \<open>Trees without symbolic links\<close>

definition link_free :: "fs \<Rightarrow> bool" where
  "link_free fs \<longleftrightarrow> list_all (\<lambda>e. case snd e of LinkN _ \<Rightarrow> False | _ \<Rightarrow> True) fs"

lemma link_free_target: "link_free fs \<Longrightarrow> link_target fs = (\<lambda>_. None)"
proof
  fix r assume "link_free fs"
  then show "link_target fs r = None"
    by (cases "map_of fs r") (force simp: link_free_def link_target_def list_all_iff split: node.splits dest: map_of_SomeD)+
qed

lemma walk_link_free: "link_target fs = (\<lambda>_. None) \<Longrightarrow> walk k fs d cs = Some (d @ cs)"
  by (induction cs arbitrary: d) simp_all

lemma free_paths:
  assumes free: "link_target fs = (\<lambda>_. None)"
  shows "realpath fs p = Some p" "entry fs p = Some p" "stat fs p = map_of fs p" "\<not> path_is_symlink fs p"
    "path_is_dir fs p \<longleftrightarrow> map_of fs p = Some DirN" "path_exists fs p \<longleftrightarrow> map_of fs p \<noteq> None"
    "path_is_file fs p \<longleftrightarrow> map_of fs p \<noteq> None \<and> leaf (map_of fs p)"
proof -
  show real: "realpath fs p = Some p" for p by (simp add: realpath_def walk_link_free [OF free])
  show "entry fs p = Some p" by (cases p rule: rev_cases) (simp_all add: entry_def real)
  show stat: "stat fs p = map_of fs p" by (simp add: stat_def real)
  show "\<not> path_is_symlink fs p" by (simp add: path_is_symlink_iff free)
  show "path_is_dir fs p \<longleftrightarrow> map_of fs p = Some DirN" "path_exists fs p \<longleftrightarrow> map_of fs p \<noteq> None"
    "path_is_file fs p \<longleftrightarrow> map_of fs p \<noteq> None \<and> leaf (map_of fs p)"
    by (simp_all add: path_is_dir_def path_exists_def path_is_file_def stat leaf_def split: option.splits)
qed

subsection \<open>Recorded files stay files\<close>

text \<open>No target of an installation lies above another one, and no target above a target directory.\<close>

definition separate :: "(path \<Rightarrow> bool) \<Rightarrow> bool" where
  "separate T \<longleftrightarrow> \<not> T [] \<and> (\<forall>p q. T p \<longrightarrow> T q \<longrightarrow> \<not> strict_prefix p q)"

definition tidy :: "(path \<Rightarrow> bool) \<Rightarrow> state \<Rightarrow> bool" where
  "tidy T s \<longleftrightarrow> link_target (fsys s) = (\<lambda>_. None) \<and>
     (\<exists>t. active_transaction s = Some t \<and> (\<forall>p\<in>fst ` set (files t). T p \<and> leaf (map_of (fsys s) p)) \<and>
        (\<forall>d\<in>set (missing_directories t). \<exists>p. T p \<and> strict_prefix d p))"

definition tidies :: "(path \<Rightarrow> bool) \<Rightarrow> state \<Rightarrow> state \<Rightarrow> bool" where
  "tidies T s s' \<longleftrightarrow> (tidy T s \<longrightarrow> tidy T s')"

interpretation tidies: state_relation "tidies T" for T
  by unfold_locales (auto simp: tidies_def tidy_def)

text \<open>One entry changes: it becomes a leaf, or a directory that is no target.\<close>

lemma tidy_update:
  assumes "tidy T s" "map_of fs' = (map_of (fsys s))(r := n)" "leaf n \<or> n = Some DirN \<and> \<not> T r"
  shows "tidy T (s\<lparr>fsys := fs'\<rparr>)"
proof -
  have free: "link_target (fsys s) x = None" for x using assms(1) by (simp add: tidy_def)
  have "link_target fs' x = None" for x
  proof (cases "x = r")
    case True
    with assms(2,3) show ?thesis by (auto simp: link_target_def leaf_def is_regular_def split: option.splits node.splits)
  next
    case False
    with free [of x] show ?thesis by (simp add: link_target_def assms(2))
  qed
  with assms show ?thesis by (auto simp: tidy_def)
qed

lemma tidy_put: "tidy T s \<Longrightarrow> leaf (Some n) \<or> n = DirN \<and> \<not> T r \<Longrightarrow> tidy T (s\<lparr>fsys := AList.update r n (fsys s)\<rparr>)"
  by (rule tidy_update [OF _ update_conv']) auto

lemma tidy_drop: "tidy T s \<Longrightarrow> tidy T (s\<lparr>fsys := AList.delete r (fsys s)\<rparr>)"
  by (rule tidy_update [OF _ delete_conv']) auto

lemma tidies_os_mkdir:
  assumes "\<not> T q"
  shows "runs (tidies T) (os_mkdir q)"
  unfolding runs_def tidies_def
proof (intro allI impI)
  fix s assume tidy: "tidy T s"
  obtain x u where run: "os_mkdir q s = (x, u)" by fastforce
  have "entry (fsys s) q = Some q" using tidy free_paths(2) by (simp add: tidy_def)
  with os_mkdir_cases [OF run] have "u = s \<or> u = s\<lparr>fsys := AList.update q DirN (fsys s)\<rparr>" by auto
  with tidy assms run show "tidy T (snd (os_mkdir q s))" by (auto intro: tidy_put)
qed

lemma tidies_mkdir_parents:
  assumes "separate T" "T p" "strict_prefix q p"
  shows "runs (tidies T) (mkdir_parents q)"
proof (intro tidies.runs_mkdir_parents_in tidies_os_mkdir)
  fix d assume "prefix d q"
  with assms show "\<not> T d" unfolding separate_def by (meson prefix_order.le_less_trans)
qed

lemma tidies_store: "leaf (Some n) \<Longrightarrow> runs (tidies T) (store p n)"
  unfolding runs_def tidies_def
proof (intro allI impI)
  fix s assume n: "leaf (Some n)" and tidy: "tidy T s"
  have "snd (store p n s) = s \<or> (\<exists>r. snd (store p n s) = s\<lparr>fsys := AList.update r n (fsys s)\<rparr>)"
    by (auto simp: store_def bind_def gets_def raise_def set_fs_def modify_def split: option.splits node.splits)
  then show "tidy T (snd (store p n s))" using tidy n by (auto intro: tidy_put)
qed

lemma tidies_unlink: "runs (tidies T) (unlink p)"
  unfolding runs_def tidies_def
proof (intro allI impI)
  fix s assume tidy: "tidy T s"
  have "snd (unlink p s) = s \<or> (\<exists>r. snd (unlink p s) = s\<lparr>fsys := AList.delete r (fsys s)\<rparr>)"
    by (auto simp: unlink_def bind_def gets_def raise_def set_fs_def modify_def split: option.splits node.splits)
  then show "tidy T (snd (unlink p s))" using tidy by (auto intro: tidy_drop)
qed

text \<open>Recording adds targets that are leaves.\<close>

lemma record_missing_files:
  "record_missing_directories t p s = (x, s') \<Longrightarrow> fsys s' = fsys s \<and>
   (\<exists>t'. active_transaction s' = Some t' \<and> files t' = files t \<and>
     missing_directories t' = snd (missing_chain (fsys s) p (missing_directories t)) \<and> (\<forall>u. x = Inr u \<longrightarrow> u = t'))"
  by (auto simp: record_missing_directories_def bind_def gets_def set_txn_def modify_def lift_def ret_def Let_def
      split: prod.splits sum.splits)

lemma tidies_record_missing:
  assumes "tidy T s" "active_transaction s = Some t" "record_missing_directories t q s = (x, s')"
    and "T p" "strict_prefix q p"
  shows "tidy T s' \<and> (\<forall>u. x = Inr u \<longrightarrow> active_transaction s' = Some u)"
proof -
  have "\<exists>p. T p \<and> strict_prefix d p" if "prefix d q" for d
    using assms(4,5) that prefix_order.le_less_trans by blast
  then have "\<exists>p. T p \<and> strict_prefix d p" if "d \<in> set (snd (missing_chain (fsys s) q (missing_directories t)))" for d
    using that assms(1,2) missing_chain_prefix [of "fsys s" q "missing_directories t"] by (auto simp: tidy_def)
  with record_missing_files [OF assms(3)] assms(1,2) show ?thesis by (auto simp: tidy_def)
qed

lemma parent_prefix: "p \<noteq> [] \<Longrightarrow> strict_prefix (path_parent p) p"
  unfolding path_parent_def by (cases p rule: rev_cases) (auto simp: strict_prefix_def)

lemma tidies_back_up:
  assumes "tidy T s" "active_transaction s = Some t" "T p"
  shows "tidy T (snd (back_up_file t p s))"
proof -
  have "leaf (map_of (fsys s) p)" if "path_is_file (fsys s) p \<or> \<not> path_exists (fsys s) p"
    using that assms(1) free_paths(6,7) [of "fsys s" p] by (auto simp: tidy_def)
  with assms show ?thesis
    by (auto simp: back_up_file_def bind_def gets_def raise_def set_txn_def modify_def tidy_def)
qed

lemma tidies_record_file:
  assumes "T p" "p \<noteq> []"
  shows "runs (tidies T) (record_file p)"
  unfolding runs_def tidies_def
proof (intro allI impI)
  fix s assume tidy: "tidy T s"
  then obtain t where t: "active_transaction s = Some t" by (auto simp: tidy_def)
  obtain x u where x: "record_missing_directories t (path_parent p) s = (x, u)" by fastforce
  note u = tidies_record_missing [where T = T and p = p, OF tidy t x assms(1) parent_prefix [OF assms(2)]]
  show "tidy T (snd (record_file p s))"
  proof (cases x)
    case (Inl e)
    with t u x tidy show ?thesis by (simp add: record_file_def bind_def gets_def ret_def raise_def is_symlink_def)
  next
    case (Inr t')
    with tidies_back_up [of T u t' p] assms t u x tidy show ?thesis
      by (simp add: record_file_def bind_def gets_def ret_def raise_def is_symlink_def)
  qed
qed

lemma tidies_record_directory:
  assumes "T (p @ [n])"
  shows "runs (tidies T) (record_directory p)"
  unfolding runs_def tidies_def
proof (intro allI impI)
  fix s assume tidy: "tidy T s"
  then obtain t where t: "active_transaction s = Some t" by (auto simp: tidy_def)
  obtain x u where x: "record_missing_directories t p s = (x, u)" by fastforce
  with tidies_record_missing [where T = T and p = "p @ [n]", OF tidy t x assms] t tidy show "tidy T (snd (record_directory p s))"
    by (cases x) (auto simp: strict_prefix_def record_directory_def bind_def gets_def ret_def raise_def is_symlink_def exists_p_def is_dir_def)
qed

lemma tidies_write:
  assumes "separate T" "T p"
  shows "runs (tidies T) (write_file p contents)"
proof -
  have "p \<noteq> []" using assms by (auto simp: separate_def)
  then have rec: "runs (tidies T) (record_file p)" using assms(2) tidies_record_file [of T p] by blast
  have dir: "runs (tidies T) (mkdir_parents (path_parent p))"
    using assms parent_prefix [OF \<open>p \<noteq> []\<close>] tidies_mkdir_parents [of T p] by blast
  show ?thesis
    unfolding write_file_def write_text_def
    by (intro tidies.runs_rules dir rec tidies_store tidies.runs_query queries) simp
qed

interpretation tidying: install_effects "tidies T" "\<lambda>p. separate T \<and> T p" for T
proof
  show "runs (tidies T) (write_file p contents)" if "separate T \<and> T p" for p contents
    using that tidies_write [of T p] by blast
  show "runs (tidies T) (remove_file p description)" if "separate T \<and> T p" for p description
  proof -
    have rec: "runs (tidies T) (record_file p)" using that tidies_record_file [of T p] by (auto simp: separate_def)
    show ?thesis unfolding remove_file_def
      by (intro tidies.runs_rules rec tidies_unlink tidies.runs_query queries)
  qed
  show "runs (tidies T) (bind (record_directory p) (\<lambda>_. mkdir_parents p))" if all: "\<And>n. separate T \<and> T (p @ [n])" for p
  proof -
    have "runs (tidies T) (mkdir_parents p)"
      using all [of "[]"] tidies_mkdir_parents [of T "p @ [[]]" p] by (simp add: strict_prefix_def)
    moreover have "runs (tidies T) (record_directory p)" using all [of "[]"] tidies_record_directory [of T p "[]"] by blast
    ultimately show ?thesis by (intro tidies.runs_bind)
  qed
qed

subsection \<open>The targets of a discovered layout\<close>

definition fixed_targets :: "layout \<Rightarrow> path list" where
  "fixed_targets l = build_targets (ksu l) @ ksu_targets (ksu l) @ common_targets (common l)"

definition apart :: "path list \<Rightarrow> path \<Rightarrow> bool" where
  "apart ps d \<longleftrightarrow> list_all (\<lambda>p. p \<noteq> [] \<and> \<not> prefix d p \<and> \<not> prefix p d \<and> list_all (\<lambda>q. \<not> strict_prefix p q) ps) ps"

lemma apart_separate:
  assumes "apart (fixed_targets l) (ksu l @ [''abk_sandbox''])"
  shows "separate (install_target l)"
proof -
  let ?d = "ksu l @ [''abk_sandbox'']"
  have T: "install_target l p \<longleftrightarrow> p \<in> set (fixed_targets l) \<or> p \<noteq> [] \<and> butlast p = ?d" for p
    by (simp add: install_target_def fixed_targets_def)
  have f: "p \<noteq> []" "\<not> prefix ?d p" "\<not> prefix p ?d" "q \<in> set (fixed_targets l) \<Longrightarrow> \<not> strict_prefix p q"
    if "p \<in> set (fixed_targets l)" for p q using assms that unfolding apart_def list_all_iff by blast+
  have up: "strict_prefix p q \<Longrightarrow> prefix p (butlast q)" for p q :: path
    by (cases q rule: rev_cases) (auto simp: strict_prefix_def)
  have down: "strict_prefix p q \<Longrightarrow> prefix (butlast p) q" for p q :: path
    using prefix_order.trans [OF prefixeq_butlast, of p q] by (simp add: strict_prefix_def)
  have len: "strict_prefix p q \<Longrightarrow> p \<noteq> [] \<Longrightarrow> butlast p = butlast q \<Longrightarrow> False" for p q :: path
    using prefix_length_less [of p q] by (cases p rule: rev_cases; cases q rule: rev_cases) auto
  show ?thesis unfolding separate_def T
  proof (intro conjI allI impI notI)
    fix p q assume p: "p \<in> set (fixed_targets l) \<or> p \<noteq> [] \<and> butlast p = ?d"
      and q: "q \<in> set (fixed_targets l) \<or> q \<noteq> [] \<and> butlast q = ?d" and less: "strict_prefix p q"
    from p q show False
      using f(2) [of q] f(3) [of p] f(4) [of p q] up [OF less] down [OF less] len [OF less] less by auto
  next
    assume "[] \<in> set (fixed_targets l) \<or> [] \<noteq> [] \<and> butlast [] = ?d" then show False using f(1) by blast
  qed
qed

text \<open>The ways in which the KernelSU tree and the common tree lie in the kernel root.\<close>

definition layout_shapes :: "(path \<times> path) list" where
  "layout_shapes = concat (map (\<lambda>c. map (\<lambda>k. (k, c)) (candidate_paths [] c)) [[], [''common'']])"

lemma shapes_apart:
  "list_all (\<lambda>(k, c). apart (build_targets k @ ksu_targets k @ common_targets c) (k @ [''abk_sandbox''])) layout_shapes"
  by code_simp

lemma apart_root: "apart ps d \<Longrightarrow> apart (map ((@) root) ps) (root @ d)"
  by (auto simp: apart_def list_all_iff strict_prefix_def)

lemma path_join_root: "path_join (root @ p) x = root @ path_join p x"
  by (simp add: path_join_def)

lemma discovered_separate:
  assumes "discover root s = (Inr l, s')"
  shows "separate (install_target l)"
proof -
  note d = discover_ok [OF assms]
  have cands: "candidate_paths root (root @ c) = map ((@) root) (candidate_paths [] c)" for c
    by (simp add: candidate_paths_def path_join_root path_join_root [of root "[]", simplified])
  obtain c where c: "c \<in> set [[], [''common'']]" "common l = root @ c" using kernel_common_ok [OF d(4)] by auto
  with unique_candidate(1) [OF d(5)] obtain k where k: "k \<in> set (candidate_paths [] c)" "ksu l = root @ k"
    unfolding cands c(2) by auto
  from c k have kc: "(k, c) \<in> set layout_shapes" "ksu l = root @ k" "common l = root @ c"
    unfolding layout_shapes_def by auto
  have "fixed_targets l = map ((@) root) (build_targets k @ ksu_targets k @ common_targets c)"
    by (simp add: fixed_targets_def build_targets_def ksu_targets_def common_targets_def kc path_join_root)
  moreover from shapes_apart kc(1) have "apart (build_targets k @ ksu_targets k @ common_targets c) (k @ [''abk_sandbox''])"
    unfolding list_all_iff by blast
  ultimately have "apart (fixed_targets l) (ksu l @ [''abk_sandbox''])" unfolding kc(2) append_assoc by (simp only: apart_root)
  then show ?thesis by (rule apart_separate)
qed

subsection \<open>Every step of the rollback succeeds\<close>

lemma mkdir_parents_present:
  assumes "link_target (fsys s) = (\<lambda>_. None)" "map_of (fsys s) p = Some DirN"
  shows "mkdir_parents p s = (Inr (), s)"
proof -
  have "os_mkdir p s = (Inl (OSErr EEXIST p), s)"
    using assms(2) by (simp add: os_mkdir_def bind_def gets_def raise_def free_paths(2) [OF assms(1)])
  then show ?thesis using assms
    by (subst mkdir_parents.simps) (simp add: catch_def is_dir_def bind_def gets_def ret_def free_paths(5) [OF assms(1)])
qed

lemma restore_file_succeeds:
  assumes free: "link_target (fsys s) = (\<lambda>_. None)" and "leaf (map_of (fsys s) p)" "leaf b" "p \<noteq> []"
    and "b \<noteq> None \<longrightarrow> map_of (fsys s) (path_parent p) = Some DirN"
  shows "fst (restore_file p b s) = Inr ()"
proof (cases b)
  case None
  then show ?thesis using assms(2)
    by (cases "map_of (fsys s) p")
      (auto simp: restore_file_def unlink_def bind_def gets_def ret_def raise_def set_fs_def modify_def free_paths [OF free]
        split: node.splits)
next
  case (Some n)
  then have "map_of (fsys s) (butlast p) = Some DirN" using assms(5) by (simp add: path_parent_def)
  with Some assms(2-4) show ?thesis
    by (cases "map_of (fsys s) p")
      (auto simp: restore_file_def raise_when_def bind_def gets_def ret_def raise_def mkdir_parents_present [OF free]
        path_parent_def store_def set_fs_def modify_def free_paths [OF free] split: node.splits)
qed

lemma restore_files_succeed:
  assumes "tree_fs (fsys s)" "link_target (fsys s) = (\<lambda>_. None)"
    and "\<forall>(p, b)\<in>set fl. p \<noteq> [] \<and> leaf b \<and> leaf (map_of (fsys s) p) \<and>
      (b \<noteq> None \<longrightarrow> map_of (fsys s) (path_parent p) = Some DirN)"
  shows "fst (forM (\<lambda>(p, b). restore_file p b) fl s) = Inr ()"
  using assms
proof (induction fl arbitrary: s)
  case (Cons pb fl)
  obtain p b where pb: "pb = (p, b)" by fastforce
  note free = Cons.prems(2)
  have p: "p \<noteq> []" "leaf b" "leaf (map_of (fsys s) p)" "b \<noteq> None \<longrightarrow> map_of (fsys s) (path_parent p) = Some DirN"
    using Cons.prems(3) pb by auto
  obtain u where u: "restore_file p b s = (Inr (), u)"
    using restore_file_succeeds [OF free p(3,2,1,4)] by (metis prod.collapse)
  have one: "map_of (fsys u) = (map_of (fsys s))(p := b)" "keeps_dirs (fsys s) (fsys u)" "tree_fs (fsys u)"
    using restore_file_ok [OF u Cons.prems(1) free_paths(4) [OF free] p(2)] p(4) free_paths(1,5) [OF free] by auto
  have "link_target (fsys u) = (\<lambda>_. None)" using one(2) free by (simp add: keeps_dirs_def)
  moreover have "\<forall>(p, b)\<in>set fl. p \<noteq> [] \<and> leaf b \<and> leaf (map_of (fsys u) p) \<and>
      (b \<noteq> None \<longrightarrow> map_of (fsys u) (path_parent p) = Some DirN)"
    using Cons.prems(3) one(1,2) p(2) by (auto simp: keeps_dirs_def)
  ultimately show ?case using Cons.IH [OF one(3)] pb u by (simp add: bind_def)
qed (simp add: ret_def)

text \<open>Directories are removed from the longest path to the shortest one, so each is empty when its turn comes.\<close>

definition leftover :: "fs \<Rightarrow> path list \<Rightarrow> fs \<Rightarrow> bool" where
  "leftover fs0 ds fs \<longleftrightarrow> (\<forall>r. map_of fs r = map_of fs0 r \<or> map_of fs r = Some DirN \<and> map_of fs0 r = None \<and> r \<in> set ds)"

definition unblocked :: "fs \<Rightarrow> path \<Rightarrow> bool" where
  "unblocked fs d \<longleftrightarrow> list_all (\<lambda>k. map_of fs (take k d) \<in> {None, Some DirN}) [0..<length d]"

lemma remove_directory_succeeds:
  assumes free: "link_target (fsys s) = (\<lambda>_. None)" and tree: "tree_fs fs0" and left: "leftover fs0 (d # ds) (fsys s)"
    and d: "map_of fs0 d = None" "unblocked fs0 d" and "\<forall>d'\<in>set ds. length d' \<le> length d"
  shows "\<exists>s'. remove_directory d s = (Inr (), s') \<and> leftover fs0 ds (fsys s')"
proof (cases "map_of (fsys s) d")
  case None
  have "map_of (fsys s) (take k d) \<in> {None, Some DirN}" if "k < length d" for k
    using d(2) that left unfolding unblocked_def leftover_def list_all_iff by (metis insert_iff atLeastLessThan_iff set_upt zero_le)
  then have "missing_errno (fsys s) d = ENOENT"
    by (auto simp: missing_errno_def free_paths(1) [OF free] list_ex_iff)
  then have "remove_directory d s = (Inr (), s)"
    by (simp add: remove_directory_def rmdir_def catch_def bind_def gets_def raise_def ret_def None free_paths(2) [OF free])
  moreover have "leftover fs0 ds (fsys s)"
    unfolding leftover_def
  proof
    fix r
    show "map_of (fsys s) r = map_of fs0 r \<or> map_of (fsys s) r = Some DirN \<and> map_of fs0 r = None \<and> r \<in> set ds"
      using left None d(1) unfolding leftover_def by (cases "r = d") auto
  qed
  ultimately show ?thesis by blast
next
  case (Some n)
  with left d(1) have dir: "map_of (fsys s) d = Some DirN" unfolding leftover_def by (metis option.distinct(1))
  have "\<not> (fst e \<noteq> [] \<and> butlast (fst e) = d)" if "e \<in> set (fsys s)" for e
  proof
    assume e: "fst e \<noteq> [] \<and> butlast (fst e) = d"
    then obtain x where x: "fst e = d @ [x]" by (metis append_butlast_last_id)
    have "map_of fs0 (d @ [x]) = None" by (rule tree_no_child [OF tree]) (simp add: d(1))
    moreover have "map_of (fsys s) (d @ [x]) \<noteq> None" using that x by (metis map_of_eq_None_iff imageI)
    ultimately have "d @ [x] \<in> set (d # ds)" using left unfolding leftover_def by metis
    with assms(6) show False by auto
  qed
  then have "dir_empty (fsys s) d" by (auto simp: dir_empty_def list_all_iff)
  then have run: "remove_directory d s = (Inr (), s\<lparr>fsys := AList.delete d (fsys s)\<rparr>)"
    by (simp add: remove_directory_def rmdir_def catch_def bind_def gets_def set_fs_def modify_def dir free_paths(2) [OF free])
  have "leftover fs0 ds (AList.delete d (fsys s))"
    unfolding leftover_def
  proof
    fix r
    show "map_of (AList.delete d (fsys s)) r = map_of fs0 r \<or>
        map_of (AList.delete d (fsys s)) r = Some DirN \<and> map_of fs0 r = None \<and> r \<in> set ds"
      using left d(1) unfolding leftover_def delete_conv' by (cases "r = d") auto
  qed
  with run show ?thesis by simp
qed

lemma remove_directories_succeed:
  assumes "link_target (fsys s) = (\<lambda>_. None)" "tree_fs fs0" "leftover fs0 ds (fsys s)"
    and "\<forall>d\<in>set ds. map_of fs0 d = None \<and> unblocked fs0 d" "sorted_wrt (\<lambda>a b. length b \<le> length a) ds"
  shows "fst (forM remove_directory ds s) = Inr ()"
  using assms
proof (induction ds arbitrary: s)
  case (Cons d ds)
  obtain u where u: "remove_directory d s = (Inr (), u)" "leftover fs0 ds (fsys u)"
    using remove_directory_succeeds [OF Cons.prems(1-3)] Cons.prems(4,5) by auto
  have "link_target (fsys u) = (\<lambda>_. None)" using remove_directory_ok [OF u(1)] Cons.prems(1) by auto
  with Cons.IH [OF _ Cons.prems(2) u(2)] Cons.prems(4,5) u(1) show ?case by (simp add: bind_def)
qed (simp add: ret_def)

lemma mapM_attempt_all:
  "forM g xs s = (Inr (), s') \<Longrightarrow> mapM (\<lambda>x. attempt (f x) (g x)) xs s = (Inr (map (\<lambda>_. []) xs), s')"
proof (induction xs arbitrary: s)
  case (Cons x xs)
  then obtain u where u: "g x s = (Inr (), u)" "forM g xs u = (Inr (), s')"
    by (auto simp: bind_ok)
  then have "attempt (f x) (g x) s = (Inr [], u)" by (simp add: attempt_def catch_def bind_def ret_def)
  with Cons.IH [OF u(2)] show ?case by (simp add: bind_def ret_def)
qed (simp add: ret_def)

lemma descending_lengths: "sorted_wrt (\<lambda>a b. length b \<le> length a) (rev (sort_key length (ds :: path list)))"
proof -
  have "sorted_wrt (\<lambda>a b. length a \<le> length b) (sort_key length ds)"
    using sorted_sort_key [of length ds] by (simp add: sorted_wrt_map)
  then show ?thesis by (simp add: sorted_wrt_rev)
qed

text \<open>No target lies below an entry that is not a directory.\<close>

definition clear_above :: "(path \<Rightarrow> bool) \<Rightarrow> fs \<Rightarrow> bool" where
  "clear_above T fs \<longleftrightarrow> (\<forall>p. T p \<longrightarrow> unblocked fs p)"

lemma rollback_succeeds:
  assumes J: "journal fs0 (fsys s) t" and t: "active_transaction s = Some t" and tidy: "tidy T s"
    and sep: "separate T" and clear: "clear_above T fs0" and tree: "tree_fs fs0"
  shows "fst (rollback t s) = Inr ()"
proof -
  have free: "link_target (fsys s) = (\<lambda>_. None)" and files: "\<forall>p\<in>fst ` set (files t). T p \<and> leaf (map_of (fsys s) p)"
    and dirs: "\<forall>d\<in>set (missing_directories t). \<exists>p. T p \<and> strict_prefix d p" using tidy t by (auto simp: tidy_def)
  have links: "link_target fs0 = (\<lambda>_. None)" using J free by (simp add: journal_def keeps_dirs_def)
  have "fst (forM (\<lambda>(p, b). restore_file p b) (rev (files t)) s) = Inr ()"
  proof (rule restore_files_succeed [OF journal_tree [OF J] free])
    have "p \<noteq> []" if "T p" for p using that sep by (auto simp: separate_def)
    with files J show "\<forall>(p, b)\<in>set (rev (files t)). p \<noteq> [] \<and> leaf b \<and> leaf (map_of (fsys s) p) \<and>
      (b \<noteq> None \<longrightarrow> map_of (fsys s) (path_parent p) = Some DirN)"
      by (fastforce simp: journal_def journal_files_def free_paths(5) [OF free])
  qed
  then obtain u where u: "forM (\<lambda>(p, b). restore_file p b) (rev (files t)) s = (Inr (), u)" by (metis prod.collapse)
  have "map_of (fsys u) = undo fs0 (files t) (map_of (fsys s)) \<and> keeps_dirs fs0 (fsys u)"
    by (rule restore_files_ok [OF u]) (use J in \<open>auto simp: journal_def journal_files_def\<close>)
  then have um: "map_of (fsys u) = undo fs0 (files t) (map_of (fsys s))" and ul: "link_target (fsys u) = (\<lambda>_. None)"
    using links by (auto simp: keeps_dirs_def)
  let ?ds = "rev (sort_key length (rev (missing_directories t)))"
  have "fst (forM remove_directory ?ds u) = Inr ()"
  proof (rule remove_directories_succeed [OF ul tree _ _ descending_lengths])
    show "leftover fs0 ?ds (fsys u)"
      using J unfolding leftover_def um journal_def journal_undo_def free_paths(1) [OF links] by auto
    show "\<forall>d\<in>set ?ds. map_of fs0 d = None \<and> unblocked fs0 d"
    proof
      fix d assume "d \<in> set ?ds"
      then have d: "d \<in> set (missing_directories t)" by simp
      with dirs obtain p where p: "T p" "strict_prefix d p" by blast
      then obtain w where w: "p = d @ w" "w \<noteq> []" by (auto simp: strict_prefix_def prefix_def)
      have ub: "k < length p \<Longrightarrow> map_of fs0 (take k p) \<in> {None, Some DirN}" for k
        using clear p(1) by (auto simp: clear_above_def unblocked_def list_all_iff)
      have "map_of fs0 d \<in> {None, Some DirN}" using ub [of "length d"] w by simp
      moreover have "map_of fs0 d \<noteq> Some DirN" using J d by (simp add: journal_def journal_dirs_def free_paths(1) [OF links])
      moreover have "unblocked fs0 d" unfolding unblocked_def list_all_iff
      proof
        fix k assume "k \<in> set [0..<length d]"
        then show "map_of fs0 (take k d) \<in> {None, Some DirN}" using ub [of k] w by simp
      qed
      ultimately show "map_of fs0 d = None \<and> unblocked fs0 d" by auto
    qed
  qed
  then obtain v where v: "forM remove_directory ?ds u = (Inr (), v)" by (metis prod.collapse)
  have eta: "(\<lambda>(p, backup). attempt p (restore_file p backup)) = (\<lambda>x. attempt (fst x) (restore_file (fst x) (snd x)))"
    "(\<lambda>(p, b). restore_file p b) = (\<lambda>x. restore_file (fst x) (snd x))" by auto
  have empty: "concat (map (\<lambda>_. []) xs) = []" for xs :: "'x list" by (induction xs) auto
  show ?thesis
    unfolding rollback_def eta(1)
    using mapM_attempt_all [OF u [unfolded eta(2)], of fst] mapM_attempt_all [OF v, of "\<lambda>x. x"]
    by (simp add: bind_def raise_when_def ret_def Let_def empty del: concat_eq_Nil_conv)
qed

subsection \<open>Atomic installation\<close>

definition targets_clear :: "layout \<Rightarrow> fs \<Rightarrow> bool" where
  "targets_clear l fs \<longleftrightarrow> list_all (unblocked fs) ((ksu l @ [''abk_sandbox'', []]) # fixed_targets l)"

lemma targets_clear_above: "targets_clear l fs \<Longrightarrow> clear_above (install_target l) fs"
proof -
  assume clear: "targets_clear l fs"
  have "unblocked fs p" if "p \<noteq> []" "butlast p = ksu l @ [''abk_sandbox'']" for p
  proof -
    have p: "p = (ksu l @ [''abk_sandbox'']) @ [last p]" using append_butlast_last_id [OF that(1)] that(2) by simp
    have same: "unblocked fs ((ksu l @ [''abk_sandbox'']) @ [x]) = unblocked fs ((ksu l @ [''abk_sandbox'']) @ [y])" for x y
      unfolding unblocked_def by (rule list_all_cong) auto
    have "unblocked fs ((ksu l @ [''abk_sandbox'']) @ [last p])"
      using clear same [of "last p" "[]"] by (simp add: targets_clear_def)
    with p show ?thesis by simp
  qed
  with clear show ?thesis
    by (auto simp: clear_above_def targets_clear_def install_target_def fixed_targets_def list_all_iff)
qed

text \<open>A run of the transaction body leaves a state from which the rollback succeeds.\<close>

lemma body_recoverable:
  assumes "discover root s = (Inr l, s')" "tree_fs (fsys s)" "link_free (fsys s)" "targets_clear l (fsys s)"
    and run: "install_body l module_root policy (s\<lparr>active_transaction := Some empty_txn\<rparr>) = (r, u)"
  shows "\<exists>t v. active_transaction u = Some t \<and> rollback t u = (Inr (), v) \<and> map_of (fsys v) = map_of (fsys s)"
proof -
  let ?s = "s\<lparr>active_transaction := Some empty_txn\<rparr>" and ?T = "install_target l"
  have sep: "separate ?T" by (rule discovered_separate [OF assms(1)])
  have "journaled (fsys s) ?s" using journal_start [OF assms(2)] by (simp add: journaled_def)
  moreover have "runs keeps_journal (install_body l module_root policy)" by (rule transaction.runs_install_body) simp
  ultimately have "journaled (fsys s) u" using run by (auto simp: runs_def keeps_journal_def dest: spec [of _ ?s])
  then obtain t where t: "active_transaction u = Some t" and J: "journal (fsys s) (fsys u) t" by (auto simp: journaled_def)
  have "tidy ?T ?s" using link_free_target [OF assms(3)] by (simp add: tidy_def empty_txn_def)
  moreover have "runs (tidies ?T) (install_body l module_root policy)"
    by (rule tidying.runs_install_body) (use sep in simp)
  ultimately have "tidy ?T u" using run by (auto simp: runs_def tidies_def dest: spec [of _ ?s])
  from rollback_succeeds [OF J t this sep targets_clear_above [OF assms(4)] assms(2)]
  obtain v where "rollback t u = (Inr (), v)" by (metis prod.collapse)
  with rollback_restores [OF J this] t show ?thesis by blast
qed

text \<open>The abstract specification: an update of the tree that happens as a whole or not at all.\<close>

fun atomically :: "unit res \<Rightarrow> (path \<rightharpoonup> node) \<Rightarrow> (path \<rightharpoonup> node) \<Rightarrow> (path \<rightharpoonup> node)" where
  "atomically (Inr u) before after = after"
| "atomically (Inl e) before after = before"

lemma with_transaction_atomically:
  assumes "discover root s = (Inr l, s')" "tree_fs (fsys s)" "link_free (fsys s)" "targets_clear l (fsys s)"
    and "active_transaction s = None"
    and "install_body l module_root policy (s\<lparr>active_transaction := Some empty_txn\<rparr>) = (r, u)"
  shows "\<exists>v. with_transaction (install_body l module_root policy) s = (r, v) \<and> active_transaction v = None \<and>
    map_of (fsys v) = atomically r (map_of (fsys s)) (map_of (fsys u))"
proof -
  obtain t w where w: "active_transaction u = Some t" "rollback t u = (Inr (), w)" "map_of (fsys w) = map_of (fsys s)"
    using body_recoverable [OF assms(1-4,6)] by blast
  have enter: "transaction_enter s = (Inr (), s\<lparr>active_transaction := Some empty_txn\<rparr>)"
    by (simp add: transaction_enter_def bind_def gets_def assms(5) set_txn_def modify_def)
  show ?thesis
    using w by (cases r) (simp_all add: with_transaction_def bind_def enter catch_def assms(6) transaction_exit_def gets_def
        end_transaction_def modify_def raise_def whenM_def complain_def ret_def)
qed

text \<open>
  C3: the transaction refines an atomic update. In a tree without symbolic links in which no target lies below something that is not a directory,
  \<^verbatim>\<open>with InstallTransaction()\<close> around the body of \<^verbatim>\<open>install\<close> returns or raises exactly as the body does, ends the transaction,
  and leaves the tree of the body when the body returned and the tree from before when it raised. In
  particular the rollback itself does not fail.
\<close>

theorem transaction_refines_atomic_update:
  assumes "discover root s = (Inr l, s')" "tree_fs (fsys s)" "link_free (fsys s)" "targets_clear l (fsys s)"
    and "active_transaction s = None"
    and "install_body l module_root policy (s\<lparr>active_transaction := Some empty_txn\<rparr>) = (r, u)"
  shows "\<exists>v. with_transaction (install_body l module_root policy) s = (r, v) \<and> active_transaction v = None \<and>
    map_of (fsys v) = atomically r (map_of (fsys s)) (map_of (fsys u))"
  by (rule with_transaction_atomically [OF assms])

theorem transaction_refines_atomic_update_witness:
  "\<exists>r v. with_transaction (install_body sample_layout [''m''] RUNTIME_KSU_TAIL_NEVER) sample_state = (r, v) \<and>
     r \<noteq> Inr () \<and> map_of (fsys v) = map_of sample_fs"
proof -
  let ?b = "install_body sample_layout [''m''] RUNTIME_KSU_TAIL_NEVER"
    and ?s = "sample_state\<lparr>active_transaction := Some empty_txn\<rparr>"
  have fails: "fst (?b ?s) \<noteq> Inr ()" by code_simp
  obtain r u where run: "?b ?s = (r, u)" by fastforce
  have "link_free (fsys sample_state)" "targets_clear sample_layout (fsys sample_state)" "active_transaction sample_state = None"
    by code_simp+
  moreover have "tree_fs (fsys sample_state)" using sample_tree by (simp add: sample_state_def)
  ultimately obtain v where v: "with_transaction ?b sample_state = (r, v)" "map_of (fsys v) = atomically r (map_of (fsys sample_state)) (map_of (fsys u))"
    using transaction_refines_atomic_update [OF sample_discover _ _ _ _ run] by blast
  from fails run have "r \<noteq> Inr ()" by simp
  then obtain e where "r = Inl e" by (cases r) auto
  with v show ?thesis by (simp add: sample_state_def)
qed



end
