(* ===== verification/Regex_Lines.thy ===== *)
theory Regex_Lines
  imports Py_Regex
begin

text \<open>
  Patterns that do not look beyond a line. Matching commutes with embeddings of cursors that the
  atoms of a pattern cannot tell apart (locale \<open>cursor_embedding\<close>); two embeddings matter here: going on
  with more lines behind a text, and starting at the beginning of the text or behind a newline. So a
  search for a line pattern can be done line group by line group.
\<close>

fun atoms_ok :: "(regex \<Rightarrow> bool) \<Rightarrow> regex \<Rightarrow> bool" where
  "atoms_ok ok (RSeq a b) \<longleftrightarrow> atoms_ok ok a \<and> atoms_ok ok b"
| "atoms_ok ok (RAlt a b) \<longleftrightarrow> atoms_ok ok a \<and> atoms_ok ok b"
| "atoms_ok ok (RStar a) \<longleftrightarrow> atoms_ok ok a"
| "atoms_ok ok (RLazy a) \<longleftrightarrow> atoms_ok ok a"
| "atoms_ok ok (RGrp n a) \<longleftrightarrow> atoms_ok ok a"
| "atoms_ok ok r \<longleftrightarrow> ok r"

definition atom :: "regex \<Rightarrow> bool" where
  "atom r \<longleftrightarrow> (case r of RSeq a b \<Rightarrow> False | RAlt a b \<Rightarrow> False | RStar a \<Rightarrow> False | RLazy a \<Rightarrow> False
     | RGrp n a \<Rightarrow> False | _ \<Rightarrow> True)"

locale cursor_embedding =
  fixes emb :: "cursor \<Rightarrow> cursor" and ok :: "regex \<Rightarrow> bool"
  assumes emb_atom: "atom r \<Longrightarrow> ok r \<Longrightarrow>
      re_results r (emb c) = map (\<lambda>x. (emb (fst x), snd x)) (re_results r c)"
    and emb_shorter: "length (snd (emb a)) < length (snd (emb b)) \<longleftrightarrow> length (snd a) < length (snd b)"
    and emb_took: "suffix (snd a) (snd b) \<Longrightarrow>
      take (length (snd (emb b)) - length (snd (emb a))) (snd (emb b)) = take (length (snd b) - length (snd a)) (snd b)"
begin

lemma emb_add_groups:
  "add_groups g (map (\<lambda>x. (emb (fst x), snd x)) rs) = map (\<lambda>x. (emb (fst x), snd x)) (add_groups g rs)"
  by (simp add: add_groups_def)

lemma emb_iter:
  assumes "\<And>c. m (emb c) = map (\<lambda>x. (emb (fst x), snd x)) (m c)"
  shows "iter_greedy m (emb c) = map (\<lambda>x. (emb (fst x), snd x)) (iter_greedy m c)"
    "iter_lazy m (emb c) = map (\<lambda>x. (emb (fst x), snd x)) (iter_lazy m c)"
proof (induction c rule: measure_induct_rule [of "\<lambda>c. length (snd c)"])
  case (less c)
  {
    case 1
    have "concat (map (\<lambda>r. if length (snd (fst r)) < length (snd c)
        then add_groups (snd r) (iter_greedy m (emb (fst r))) else []) (m c)) =
      map (\<lambda>x. (emb (fst x), snd x)) (concat (map (\<lambda>r. if length (snd (fst r)) < length (snd c)
        then add_groups (snd r) (iter_greedy m (fst r)) else []) (m c)))"
      unfolding map_concat map_map
      by (intro arg_cong [of _ _ concat] map_cong refl) (simp add: less.IH(1) emb_add_groups)
    then show ?case
      by (simp add: iter_greedy.simps [of m c] iter_greedy.simps [of m "emb c"] assms emb_shorter o_def cong: if_cong)
  next
    case 2
    have "concat (map (\<lambda>r. if length (snd (fst r)) < length (snd c)
        then add_groups (snd r) (iter_lazy m (emb (fst r))) else []) (m c)) =
      map (\<lambda>x. (emb (fst x), snd x)) (concat (map (\<lambda>r. if length (snd (fst r)) < length (snd c)
        then add_groups (snd r) (iter_lazy m (fst r)) else []) (m c)))"
      unfolding map_concat map_map
      by (intro arg_cong [of _ _ concat] map_cong refl) (simp add: less.IH(2) emb_add_groups)
    then show ?case
      by (simp add: iter_lazy.simps [of m c] iter_lazy.simps [of m "emb c"] assms emb_shorter o_def cong: if_cong)
  }
qed

lemma emb_results:
  "atoms_ok ok r \<Longrightarrow> re_results r (emb c) = map (\<lambda>x. (emb (fst x), snd x)) (re_results r c)"
proof (induction r arbitrary: c)
  case (RSeq a b)
  then show ?case by (simp add: map_concat o_def emb_add_groups)
next
  case (RGrp n a)
  have "re_results (RGrp n a) (emb c) = map (\<lambda>r. (emb (fst r), snd r @
      [(n, take (length (snd (emb c)) - length (snd (emb (fst r)))) (snd (emb c)))])) (re_results a c)"
    using RGrp by simp
  also have "\<dots> = map (\<lambda>x. (emb (fst x), snd x)) (re_results (RGrp n a) c)"
    using emb_took [OF re_results_suffix] by simp
  finally show ?case .
next
  case (RAlt a b)
  then show ?case by simp
next
  case (RStar a)
  then show ?case by (simp add: emb_iter)
next
  case (RLazy a)
  then show ?case by (simp add: emb_iter)
qed (rule emb_atom; simp add: atom_def)+

lemma emb_first:
  "atoms_ok ok r \<Longrightarrow> re_first r (emb c) = map_option (\<lambda>x. (emb (fst x), snd x)) (re_first r c)"
  by (cases "re_results r c") (simp_all add: re_first_def emb_results)

lemma emb_consumed:
  assumes "re_first r c = Some x"
  shows "consumed (emb c) (emb (fst x), snd x) = consumed c x"
proof -
  have suf: "suffix (snd (fst x)) (snd c)" by (rule re_first_suffix [OF assms])
  have "length (take (length (snd (emb c)) - length (snd (emb (fst x)))) (snd (emb c))) =
      length (take (length (snd c) - length (snd (fst x))) (snd c))"
    using emb_took [OF suf] by simp
  then show ?thesis by (simp add: consumed_def)
qed

end

subsection \<open>The beginning of the text is the beginning of a line\<close>

definition bol_cursor :: "cursor \<Rightarrow> cursor" where
  "bol_cursor c = (case fst c of None \<Rightarrow> (Some LF, snd c) | Some x \<Rightarrow> c)"

lemma match_lit_some: "match_lit s (Some x, u) = map_option bol_cursor (match_lit s (Some x, u))"
  by (induction s "(Some x, u)" arbitrary: x u rule: match_lit.induct) (auto simp: bol_cursor_def)

lemma match_lit_bol: "match_lit s (bol_cursor c) = map_option bol_cursor (match_lit s c)"
proof (cases "fst c")
  case None
  then show ?thesis
    using match_lit_some
    by (cases s; cases c; cases "snd c") (auto simp: bol_cursor_def)
next
  case (Some x)
  then show ?thesis using match_lit_some [of s x "snd c"] by (cases c) (simp add: bol_cursor_def)
qed

lemma atoms_ok_all [simp]: "atoms_ok (\<lambda>_. True) r"
  by (induction r) auto

lemma snd_bol_cursor [simp]: "snd (bol_cursor c) = snd c"
  by (simp add: bol_cursor_def split: option.splits)

lemma bol_cursor_simps [simp]: "bol_cursor (Some x, u) = (Some x, u)" "is_bol (bol_cursor c) = is_bol c"
    "is_eol (bol_cursor c) = is_eol c" "is_end (bol_cursor c) = is_end c" "is_boundary (bol_cursor c) = is_boundary c"
  by (auto simp: bol_cursor_def is_bol_def is_eol_def is_end_def is_boundary_def py_word_def split: option.splits)

interpretation bol: cursor_embedding bol_cursor "\<lambda>_. True"
proof
  fix r c
  assume "atom r"
  then show "re_results r (bol_cursor c) = map (\<lambda>x. (bol_cursor (fst x), snd x)) (re_results r c)"
    by (cases r) (auto simp: atom_def match_lit_bol split: option.splits list.splits)
qed auto

lemma re_scan_bol: "re_scan r i (Some LF, s) = re_scan r i (None, s)"
proof -
  have c: "bol_cursor (None, s) = (Some LF, s)" by (simp add: bol_cursor_def)
  have "re_scan r i (bol_cursor d) = re_scan r i d" for d
  proof (induction d arbitrary: i rule: measure_induct_rule [of "\<lambda>c. length (snd c)"])
    case (less d)
    show ?case
    proof (cases "re_first r d")
      case None
      then have "re_first r (bol_cursor d) = None" by (simp add: bol.emb_first)
      with None show ?thesis by (simp add: re_scan.simps [of r i d] re_scan.simps [of r i "bol_cursor d"])
    next
      case (Some x)
      then have "re_first r (bol_cursor d) = Some (bol_cursor (fst x), snd x)" by (simp add: bol.emb_first)
      moreover have "0 < consumed d x \<Longrightarrow> re_scan r j (bol_cursor (fst x)) = re_scan r j (fst x)" for j
        by (rule less.IH) (simp add: consumed_def)
      ultimately show ?thesis
        using Some bol.emb_consumed [OF Some]
        by (simp add: re_scan.simps [of r i d] re_scan.simps [of r i "bol_cursor d"])
    qed
  qed
  from this [of "(None, s)"] show ?thesis by (simp add: c)
qed

subsection \<open>More lines behind a text\<close>

fun line_atom :: "regex \<Rightarrow> bool" where
  "line_atom (RLit s) \<longleftrightarrow> LF \<notin> set s"
| "line_atom (RCls P) \<longleftrightarrow> \<not> P LF"
| "line_atom REnd \<longleftrightarrow> False"
| "line_atom _ \<longleftrightarrow> True"

abbreviation line_regex :: "regex \<Rightarrow> bool" where
  "line_regex \<equiv> atoms_ok line_atom"

definition more_lines :: "string \<Rightarrow> cursor \<Rightarrow> cursor" where
  "more_lines v c = (fst c, snd c @ LF # v)"

lemma match_lit_more: "LF \<notin> set s \<Longrightarrow> match_lit s (more_lines v c) = map_option (more_lines v) (match_lit s c)"
  by (induction s c rule: match_lit.induct) (auto simp: more_lines_def)

lemma more_lines_simps [simp]: "is_bol (more_lines v c) = is_bol c" "is_eol (more_lines v c) = is_eol c"
    "is_boundary (more_lines v c) = is_boundary c"
  by (auto simp: more_lines_def is_bol_def is_eol_def is_boundary_def py_word_def split: list.splits option.splits)

interpretation more: cursor_embedding "more_lines v" line_atom for v
proof
  fix r c
  assume "atom r" "line_atom r"
  then show "re_results r (more_lines v c) = map (\<lambda>x. (more_lines v (fst x), snd x)) (re_results r c)"
  proof (cases r)
    case (RCls P)
    with \<open>line_atom r\<close> show ?thesis by (cases "snd c") (auto simp: more_lines_def)
  qed (auto simp: atom_def match_lit_more split: option.splits)
next
  fix a b :: cursor
  assume "suffix (snd a) (snd b)"
  then show "take (length (snd (more_lines v b)) - length (snd (more_lines v a))) (snd (more_lines v b)) =
      take (length (snd b) - length (snd a)) (snd b)"
    by (auto simp: more_lines_def suffix_def)
qed (auto simp: more_lines_def)

lemma re_scan_shift: "re_scan r (i + n) c = map (\<lambda>(a, b, g). (a + n, b + n, g)) (re_scan r i c)"
proof (induction c arbitrary: i rule: measure_induct_rule [of "\<lambda>c. length (snd c)"])
  case (less c)
  have step: "re_scan r (Suc (i + n)) (Some y, ys) = map (\<lambda>(a, b, g). (a + n, b + n, g)) (re_scan r (Suc i) (Some y, ys))"
    if "snd c = y # ys" for y ys using less.IH [of "(Some y, ys)" "Suc i"] that by simp
  show ?case
  proof (cases "re_first r c")
    case None
    with step show ?thesis
      by (simp add: re_scan.simps [of r i c] re_scan.simps [of r "i + n" c] split: list.splits)
  next
    case (Some x)
    have "re_scan r (i + n + consumed c x) (fst x) =
        map (\<lambda>(a, b, g). (a + n, b + n, g)) (re_scan r (i + consumed c x) (fst x))" if "0 < consumed c x"
      using less.IH [of "fst x" "i + consumed c x"] that by (simp add: consumed_def add.assoc add.commute add.left_commute)
    with Some step show ?thesis
      by (simp add: re_scan.simps [of r i c] re_scan.simps [of r "i + n" c] add.assoc add.commute add.left_commute
          split: list.splits)
  qed
qed

lemma re_scan_lines:
  assumes "line_regex r"
  shows "re_scan r i (p, u @ LF # v) = re_scan r i (p, u) @ re_scan r (Suc (i + length u)) (None, v)"
proof -
  have "re_scan r i (more_lines v c) = re_scan r i c @ re_scan r (Suc (i + length (snd c))) (None, v)" for c
  proof (induction c arbitrary: i rule: measure_induct_rule [of "\<lambda>c. length (snd c)"])
    case (less c)
    have step: "(case snd (more_lines v c) of [] \<Rightarrow> [] | y # ys \<Rightarrow> re_scan r (Suc i) (Some y, ys)) =
        (case snd c of [] \<Rightarrow> [] | y # ys \<Rightarrow> re_scan r (Suc i) (Some y, ys)) @
        re_scan r (Suc (i + length (snd c))) (None, v)"
      using less.IH [of "(Some y, ys)" "Suc i" for y ys]
      by (cases "snd c") (auto simp: more_lines_def re_scan_bol)
    show ?case
    proof (cases "re_first r c")
      case None
      then have "re_first r (more_lines v c) = None" by (simp add: more.emb_first assms)
      with None step show ?thesis by (simp add: re_scan.simps [of r i c] re_scan.simps [of r i "more_lines v c"])
    next
      case (Some x)
      then have first: "re_first r (more_lines v c) = Some (more_lines v (fst x), snd x)"
        by (simp add: more.emb_first assms)
      have len: "consumed c x + length (snd (fst x)) = length (snd c)"
        using re_first_suffix [OF Some] by (auto simp: consumed_def suffix_def)
      have "re_scan r (i + consumed c x) (more_lines v (fst x)) = re_scan r (i + consumed c x) (fst x) @
          re_scan r (Suc (i + length (snd c))) (None, v)" if "0 < consumed c x"
        using less.IH [of "fst x" "i + consumed c x"] that by (simp add: len [symmetric] add.assoc)
      with Some first step more.emb_consumed [OF Some] show ?thesis
        by (simp add: re_scan.simps [of r i c] re_scan.simps [of r i "more_lines v c"])
    qed
  qed
  from this [of "(p, u)"] show ?thesis by (simp add: more_lines_def)
qed

lemma re_finditer_lines:
  "line_regex r \<Longrightarrow> re_finditer r (u @ LF # v) = re_finditer r u @
     map (\<lambda>(a, b, g). (a + Suc (length u), b + Suc (length u), g)) (re_finditer r v)"
  using re_scan_shift [of r 0 "Suc (length u)" "(None, v)"]
  by (simp add: re_finditer_def start_cursor_def re_scan_lines)

end
