(* ===== verification/Regex_Class.thy ===== *)
theory Regex_Class
  imports Regex_Lines
begin

text \<open>
  Closed forms for matching: literals, greedy repetition of a character class, and searches for patterns that are
  anchored at the beginning of a line. With them a search by pattern becomes a statement on the lines
  of the text.
\<close>

definition adv :: "nat \<Rightarrow> cursor \<Rightarrow> cursor" where
  "adv n c = (if n = 0 then fst c else Some (snd c ! (n - 1)), drop n (snd c))"

lemma adv_0 [simp]: "adv 0 c = c"
  by (simp add: adv_def)

lemma snd_adv [simp]: "snd (adv n c) = drop n (snd c)"
  by (simp add: adv_def)

lemma adv_Cons: "adv (Suc n) (p, x # s) = adv n (Some x, s)"
  by (cases n) (simp_all add: adv_def)

lemma adv_adv: "n \<le> length (snd c) \<Longrightarrow> adv m (adv n c) = adv (n + m) c"
  by (cases m; cases n) (simp_all add: adv_def add.commute)

lemma match_lit_adv: "match_lit s c = (if prefix s (snd c) then Some (adv (length s) c) else None)"
  by (induction s c rule: match_lit.induct) (simp_all add: adv_Cons)

lemma results_lit: "re_results (RLit s) c = (if prefix s (snd c) then [(adv (length s) c, [])] else [])"
  by (simp add: match_lit_adv)

text \<open>Sequences: regrouping, distribution over alternatives, a literal in front.\<close>

lemma add_groups_add_groups: "add_groups g (add_groups h rs) = add_groups (g @ h) rs"
  by (simp add: add_groups_def)

lemma add_groups_concat: "add_groups g (concat rss) = concat (map (add_groups g) rss)"
  by (induction rss) (simp_all add: add_groups_def)

lemma add_groups_empty [simp]: "add_groups [] rs = rs"
  by (simp add: add_groups_def)

lemma add_groups_append: "add_groups g (rs @ ss) = add_groups g rs @ add_groups g ss"
  by (simp add: add_groups_def)

lemma concat_map_concat: "concat (map f (concat xss)) = concat (map (\<lambda>xs. concat (map f xs)) xss)"
  by (induction xss) simp_all

lemma results_seq_assoc: "re_results (RSeq (RSeq a b) d) c = re_results (RSeq a (RSeq b d)) c"
proof -
  have "concat (map (\<lambda>r. add_groups (snd r) (re_results d (fst r))) (add_groups g rs)) =
      add_groups g (concat (map (\<lambda>r. add_groups (snd r) (re_results d (fst r))) rs))" for g rs
    by (simp add: add_groups_concat add_groups_add_groups add_groups_def [of _ rs] o_def)
  then show ?thesis by (simp add: concat_map_concat o_def)
qed

lemma results_seq_alt: "re_results (RSeq (RAlt a b) d) c = re_results (RSeq a d) c @ re_results (RSeq b d) c"
  by simp

lemma results_seq_lit:
  "re_results (RSeq (RLit s) r) c = (if prefix s (snd c) then re_results r (adv (length s) c) else [])"
  unfolding re_results.simps(3) results_lit by simp

lemma results_seq_bol: "re_results (RSeq RBol r) c = (if is_bol c then re_results r c else [])"
  by simp

lemma is_bol_start [simp]: "is_bol (None, s)" "is_bol (Some LF, s)"
  by (simp_all add: is_bol_def)

text \<open>Greedy repetition of a class: from the longest run down to the empty one.\<close>

lemma results_star_class:
  "re_results (RStar (RCls P)) c = map (\<lambda>n. (adv n c, [])) (rev [0..<Suc (length (takeWhile P (snd c)))])"
proof -
  have "iter_greedy (re_results (RCls P)) (p, s) = map (\<lambda>n. (adv n (p, s), [])) (rev [0..<Suc (length (takeWhile P s))])"
    for p s
  proof (induction s arbitrary: p)
    case Nil
    then show ?case by (simp add: iter_greedy.simps adv_def)
  next
    case (Cons x s)
    show ?case
    proof (cases "P x")
      case True
      have "iter_greedy (re_results (RCls P)) (p, x # s) =
          add_groups [] (iter_greedy (re_results (RCls P)) (Some x, s)) @ [((p, x # s), [])]"
        using True by (subst iter_greedy.simps) simp
      also have "\<dots> = map (\<lambda>n. (adv n (p, x # s), [])) (rev (0 # map Suc [0..<Suc (length (takeWhile P s))]))"
        unfolding Cons.IH by (simp add: add_groups_def rev_map adv_Cons)
      also have "0 # map Suc [0..<Suc (length (takeWhile P s))] = [0..<Suc (length (takeWhile P (x # s)))]"
        using True by (simp only: map_Suc_upt takeWhile.simps if_True length_Cons) (simp add: upt_conv_Cons del: upt_Suc)
      finally show ?thesis .
    next
      case False
      then show ?thesis by (subst iter_greedy.simps) (simp add: adv_def)
    qed
  qed
  from this [of "fst c" "snd c"] show ?thesis by simp
qed

lemma results_plus_class:
  "re_results (rplus (RCls P)) c = map (\<lambda>n. (adv n c, [])) (rev [1..<Suc (length (takeWhile P (snd c)))])"
proof (cases c)
  case (Pair p s)
  show ?thesis
  proof (cases s)
    case Nil
    then show ?thesis by (simp add: rplus_def Pair)
  next
    case (Cons x t)
    show ?thesis
    proof (cases "P x")
      case True
      have "re_results (rplus (RCls P)) c = add_groups [] (re_results (RStar (RCls P)) (Some x, t))"
        using True by (simp add: rplus_def Pair Cons)
      also have "\<dots> = map (\<lambda>n. (adv n c, [])) (rev (map Suc [0..<Suc (length (takeWhile P t))]))"
        unfolding results_star_class by (simp add: add_groups_def Pair Cons rev_map adv_Cons)
      also have "map Suc [0..<Suc (length (takeWhile P t))] = [1..<Suc (length (takeWhile P (snd c)))]"
        using True by (simp add: Pair Cons map_Suc_upt del: upt_Suc)
      finally show ?thesis .
    next
      case False
      then show ?thesis by (simp add: rplus_def Pair Cons)
    qed
  qed
qed

lemma results_group_class:
  "re_results (RGrp i (rplus (RCls P))) (p, v) =
    map (\<lambda>n. (adv n (p, v), [(i, take n v)])) (rev [1..<Suc (length (takeWhile P v))])"
proof -
  have "re_results (RGrp i (rplus (RCls P))) (p, v) =
      map (\<lambda>n. (adv n (p, v), [(i, take (length v - (length v - n)) v)])) (rev [1..<Suc (length (takeWhile P v))])"
    unfolding re_results.simps(11) results_plus_class snd_conv by simp
  also have "\<dots> = map (\<lambda>n. (adv n (p, v), [(i, take n v)])) (rev [1..<Suc (length (takeWhile P v))])"
    using length_takeWhile_le [of P v] by (intro map_cong refl) auto
  finally show ?thesis .
qed

subsection \<open>Patterns anchored at the beginning of a line\<close>

lemma bol_none: "\<not> is_bol c \<Longrightarrow> re_first (RSeq RBol r) c = None"
  by (simp add: re_first_def)

lemma bol_scan_line:
  assumes "fst c \<noteq> None" "fst c \<noteq> Some LF" "LF \<notin> set (snd c)"
  shows "re_scan (RSeq RBol r) i c = []"
  using assms
proof (induction "snd c" arbitrary: c i)
  case Nil
  then show ?case by (simp add: re_scan.simps [of _ i c] bol_none is_bol_def)
next
  case (Cons x s)
  from Cons.hyps(2) have c: "snd c = x # s" by simp
  with Cons.prems(3) have "x \<noteq> LF" "LF \<notin> set s" by auto
  with Cons.hyps(1) [of "(Some x, s)" "Suc i"] Cons.prems c show ?case
    by (simp add: re_scan.simps [of _ i c] bol_none is_bol_def)
qed

text \<open>Every result is a position further on in the text.\<close>

definition ahead :: "cursor \<Rightarrow> cursor \<Rightarrow> bool" where
  "ahead c d \<longleftrightarrow> (\<exists>k\<le>length (snd c). d = adv k c)"

lemma ahead_refl [simp]: "ahead c c"
  unfolding ahead_def by (rule exI [of _ 0]) simp

lemma ahead_trans: "ahead a b \<Longrightarrow> ahead b c \<Longrightarrow> ahead a c"
proof -
  assume "ahead a b" "ahead b c"
  then obtain k n where "k \<le> length (snd a)" "b = adv k a" "n \<le> length (snd b)" "c = adv n b"
    by (auto simp: ahead_def)
  then have "k + n \<le> length (snd a)" "c = adv (k + n) a" by (auto simp: adv_adv)
  then show ?thesis unfolding ahead_def by blast
qed

lemma iter_greedy_ahead:
  assumes m: "\<And>c x. x \<in> set (m c) \<Longrightarrow> ahead c (fst x)"
  shows "x \<in> set (iter_greedy m c) \<Longrightarrow> ahead c (fst x)"
proof (induction c arbitrary: x rule: measure_induct_rule [of "\<lambda>c. length (snd c)"])
  case (less c)
  from less.prems consider "x = (c, [])"
    | r y where "r \<in> set (m c)" "length (snd (fst r)) < length (snd c)"
        "y \<in> set (iter_greedy m (fst r))" "fst x = fst y"
    by (subst (asm) set_iter_greedy) auto
  then show ?case
  proof cases
    case 2
    from ahead_trans [OF m [OF 2(1)] less.IH [OF 2(2,3)]] 2(4) show ?thesis by simp
  qed simp
qed

lemma re_results_ahead: "x \<in> set (re_results r c) \<Longrightarrow> ahead c (fst x)"
proof (induction r arbitrary: c x)
  case (RLit s)
  then show ?case by (auto simp: match_lit_adv ahead_def split: if_splits dest: prefix_length_le)
next
  case (RCls P)
  then show ?case
    by (cases c; cases "snd c") (auto simp: ahead_def adv_def split: if_splits intro!: exI [of _ 1])
next
  case (RSeq a b)
  from RSeq.prems obtain y z where y: "y \<in> set (re_results a c)"
    and z: "z \<in> set (re_results b (fst y))" and "fst x = fst z" by auto
  from ahead_trans [OF RSeq.IH(1) [OF y] RSeq.IH(2) [OF z]] \<open>fst x = fst z\<close> show ?case by simp
next
  case (RStar a)
  then show ?case using iter_greedy_ahead [of "re_results a"] by simp
next
  case (RLazy a)
  then show ?case using iter_greedy_ahead [of "re_results a"] by (simp add: set_iter_lazy)
qed (auto split: if_splits)

lemma re_first_adv: "re_first r c = Some x \<Longrightarrow> consumed c x \<le> length (snd c) \<and> fst x = adv (consumed c x) c"
  using re_results_ahead [OF re_first_mem, of r c x] by (auto simp: ahead_def consumed_def)

text \<open>In a single line the pattern matches at the start or not at all.\<close>

lemma bol_finditer_line:
  assumes "LF \<notin> set l"
  shows "re_finditer (RSeq RBol r) l =
    (case re_first (RSeq RBol r) (None, l) of None \<Rightarrow> [] | Some x \<Rightarrow> [(0, consumed (None, l) x, snd x)])"
proof -
  let ?r = "RSeq RBol r"
  have step: "(case l of [] \<Rightarrow> [] | y # ys \<Rightarrow> re_scan ?r (Suc 0) (Some y, ys)) = []"
    using assms bol_scan_line [of "(Some y, ys)" r for y ys] by (cases l) auto
  show ?thesis
  proof (cases "re_first ?r (None, l)")
    case None
    with step show ?thesis by (simp add: re_finditer_def start_cursor_def re_scan.simps [of _ 0])
  next
    case (Some x)
    let ?k = "consumed (None, l) x"
    have k: "?k \<le> length l" "fst x = adv ?k (None, l)" using re_first_adv [OF Some] by simp_all
    have rest: "re_scan ?r ?k (fst x) = []" if "0 < ?k"
    proof (rule bol_scan_line)
      have "l ! (?k - 1) \<in> set l" using k(1) that by (intro nth_mem) simp
      with assms that k(2) show "fst (fst x) \<noteq> None" "fst (fst x) \<noteq> Some LF" by (auto simp: adv_def)
      show "LF \<notin> set (snd (fst x))" using assms k(2) by (auto dest: in_set_dropD)
    qed
    show ?thesis
    proof (cases "0 < ?k")
      case True
      with rest Some show ?thesis by (simp add: re_finditer_def start_cursor_def re_scan.simps [of _ 0])
    next
      case False
      with step Some show ?thesis by (simp add: re_finditer_def start_cursor_def re_scan.simps [of _ 0])
    qed
  qed
qed

subsection \<open>Matches start where the pattern matches\<close>

lemma re_scan_start:
  "(a, b, g) \<in> set (re_scan r i c) \<Longrightarrow> \<exists>k\<le>length (snd c). a = i + k \<and> re_first r (adv k c) \<noteq> None"
proof (induction c arbitrary: i rule: measure_induct_rule [of "\<lambda>c. length (snd c)"])
  case (less c)
  have step: "\<exists>k\<le>length (snd c). a = i + k \<and> re_first r (adv k c) \<noteq> None"
    if c: "snd c = y # ys" and m: "(a, b, g) \<in> set (re_scan r (Suc i) (Some y, ys))" for y ys
  proof -
    from less.IH [OF _ m] c obtain k where "k \<le> length ys" "a = Suc i + k" "re_first r (adv k (Some y, ys)) \<noteq> None" by auto
    moreover have "adv (Suc k) c = adv k (Some y, ys)" using c by (cases c) (simp add: adv_Cons)
    ultimately show ?thesis using c by (intro exI [of _ "Suc k"]) simp
  qed
  show ?case
  proof (cases "re_first r c")
    case None
    with less.prems step show ?thesis by (cases "snd c") (simp_all add: re_scan.simps [of r i c])
  next
    case (Some x)
    let ?n = "consumed c x"
    note x = re_first_adv [OF Some]
    show ?thesis
    proof (cases "a = i")
      case True
      with Some show ?thesis by (intro exI [of _ 0]) simp
    next
      case False
      show ?thesis
      proof (cases "0 < ?n")
        case True
        with less.prems Some False have m: "(a, b, g) \<in> set (re_scan r (i + ?n) (fst x))"
          by (subst (asm) re_scan.simps) auto
        from less.IH [OF _ m] True obtain k where k: "k \<le> length (snd (fst x))" "a = i + ?n + k" "re_first r (adv k (fst x)) \<noteq> None"
          by (auto simp: consumed_def)
        moreover have "adv k (fst x) = adv (?n + k) c" using x by (metis adv_adv)
        moreover have "length (snd (fst x)) = length (snd c) - ?n" using x by (metis length_drop snd_adv)
        ultimately show ?thesis using x by (intro exI [of _ "?n + k"]) auto
      next
        case False
        with less.prems Some \<open>a \<noteq> i\<close> step show ?thesis
          by (cases "snd c") (auto simp: re_scan.simps [of r i c])
      qed
    qed
  qed
qed

lemma bol_match_start:
  assumes "(a, b, g) \<in> set (re_finditer (RSeq RBol r) t)"
  shows "a \<le> length t \<and> (a = 0 \<or> t ! (a - 1) = LF)"
proof -
  obtain k where k: "k \<le> length t" "a = k" "re_first (RSeq RBol r) (adv k (None, t)) \<noteq> None"
    using re_scan_start [of a b g "RSeq RBol r" 0 "(None, t)"] assms by (auto simp: re_finditer_def start_cursor_def)
  have "is_bol (adv k (None, t))"
  proof (rule ccontr)
    assume "\<not> is_bol (adv k (None, t))"
    from bol_none [OF this] k(3) show False by simp
  qed
  with k show ?thesis by (auto simp: is_bol_def adv_def split: if_splits)
qed

lemma match_nonempty: "re_match r s \<noteq> None \<longleftrightarrow> re_results r (None, s) \<noteq> []"
  by (auto simp: re_match_def re_first_def start_cursor_def split: list.splits)

subsection \<open>Searching line by line\<close>

definition cuts :: "regex \<Rightarrow> string \<Rightarrow> (string \<times> groups) list" where
  "cuts r t = map (\<lambda>(i, j, g). (take (j - i) (drop i t), g)) (re_finditer r t)"

lemma py_split_one: "d \<notin> set l \<Longrightarrow> py_split d l = [l]"
  by (induction l) auto

lemma py_split_line: "d \<notin> set l \<Longrightarrow> py_split d (l @ d # v) = l # py_split d v"
  by (induction l) auto

lemma split_at_first: "d \<in> set t \<Longrightarrow> \<exists>l v. t = l @ d # v \<and> d \<notin> set l"
  by (rule split_list_first)

lemma cuts_lines: "line_regex r \<Longrightarrow> cuts r t = concat (map (cuts r) (py_split LF t))"
proof (induction t rule: measure_induct_rule [of length])
  case (less t)
  show ?case
  proof (cases "LF \<in> set t")
    case False
    then show ?thesis by (simp add: py_split_one)
  next
    case True
    then obtain l v where t: "t = l @ LF # v" "LF \<notin> set l" using split_at_first by metis
    have "map (\<lambda>(i, j, g). (take (j - i) (drop i t), g)) (re_finditer r l) = cuts r l"
      unfolding cuts_def
    proof (rule map_cong [OF refl])
      fix x assume x: "x \<in> set (re_finditer r l)"
      obtain i j g where ijg: "x = (i, j, g)" by (cases x)
      with x re_finditer_bounds [of i j g r l] have "j \<le> length l" "i \<le> j" by auto
      with ijg show "(case x of (i, j, g) \<Rightarrow> (take (j - i) (drop i t), g)) =
          (case x of (i, j, g) \<Rightarrow> (take (j - i) (drop i l), g))" by (simp add: t)
    qed
    moreover have "map (\<lambda>(i, j, g). (take (j - i) (drop i t), g))
        (map (\<lambda>(a, b, g). (a + Suc (length l), b + Suc (length l), g)) (re_finditer r v)) = cuts r v"
      by (auto simp: cuts_def t)
    ultimately have "cuts r t = cuts r l @ cuts r v"
      unfolding cuts_def [of r t] by (simp only: t(1) re_finditer_lines [OF less.prems] map_append)
    with less.IH [of v] less.prems t show ?thesis by (simp add: py_split_line)
  qed
qed

lemma cuts_bol_line:
  assumes "LF \<notin> set l"
  shows "cuts (RSeq RBol r) l = (case re_first (RSeq RBol r) (None, l) of
      None \<Rightarrow> [] | Some x \<Rightarrow> [(take (consumed (None, l) x) l, snd x)])"
  by (simp add: cuts_def bol_finditer_line [OF assms] split: option.splits)

lemma py_split_no_sep: "l \<in> set (py_split d t) \<Longrightarrow> d \<notin> set l"
  by (induction t arbitrary: l) (auto split: list.splits if_splits)

end
