(* ===== verification/Config_Laws.thy ===== *)
theory Config_Laws
  imports Effects Regex_Class
begin

text \<open>
  The defconfig checks against a description on the lines of the file: what \<^verbatim>\<open>config_state\<close> returns for a
  symbol, and which files \<^verbatim>\<open>validate_defconfig\<close> accepts.
\<close>

subsection \<open>Entries of a symbol\<close>

text \<open>The value that one line gives to a symbol, and all values in the file.\<close>

definition line_entry :: "string \<Rightarrow> string \<Rightarrow> string option" where
  "line_entry symbol l =
     (let key = ''CONFIG_'' @ symbol @ ''='' in
      if prefix key l \<and> l \<noteq> key then Some (drop (length key) l)
      else if l = ''# CONFIG_'' @ symbol @ '' is not set'' then Some ''n'' else None)"

definition config_entries :: "string \<Rightarrow> string \<Rightarrow> string list" where
  "config_entries symbol t = List.map_filter (line_entry symbol) (py_split LF t)"

definition entry_value :: "groups \<Rightarrow> string" where
  "entry_value g = (if group 1 g = [] then ''n'' else group 1 g)"

lemma config_pattern_line: "LF \<notin> set symbol \<Longrightarrow> line_regex (config_pattern symbol)"
  by (simp add: config_pattern_def rplus_def rdot_def)

lemma group_single [simp]: "group n [(n, v)] = v" "group n [] = []"
  by (simp_all add: group_def)

lemma dot_run: "LF \<notin> set v \<Longrightarrow> takeWhile (\<lambda>c. c \<noteq> LF) v = v"
  by (simp add: takeWhile_eq_all_conv) blast

text \<open>One line against \<^verbatim>\<open>^(?:k(.+)|b)$\<close> and against \<^verbatim>\<open>^k.*$\<close>.\<close>

lemma eol_results:
  "LF \<notin> set (snd d) \<Longrightarrow> re_results REol d = (if snd d = [] then [(d, [])] else [])"
  by (cases "snd d") (auto simp: is_eol_def)

lemma group_dots:
  assumes "LF \<notin> set v"
  shows "re_results (RGrp 1 (rplus rdot)) (p, v) =
    map (\<lambda>n. (adv n (p, v), [(1, take n v)])) (rev [1..<Suc (length v)])"
  unfolding rdot_def results_group_class dot_run [OF assms] ..

lemma group_dots_eol:
  assumes "LF \<notin> set v"
  shows "re_results (RSeq (RGrp 1 (rplus rdot)) REol) (p, v) =
    (if v = [] then [] else [(adv (length v) (p, v), [(1, v)])])"
proof (cases "v = []")
  case True
  then show ?thesis using group_dots [OF assms] by simp
next
  case False
  let ?f = "\<lambda>n. if drop n v = [] then [(adv n (p, v), [(1::nat, take n v)])] else []"
  have eol: "add_groups [(1, take n v)] (re_results REol (adv n (p, v))) = ?f n" for n
  proof -
    have "LF \<notin> set (snd (adv n (p, v)))" using assms by (auto dest: in_set_dropD)
    from eol_results [OF this] show ?thesis by (simp add: add_groups_def)
  qed
  have "re_results (RSeq (RGrp 1 (rplus rdot)) REol) (p, v) = concat (map ?f (rev [1..<Suc (length v)]))"
    by (simp only: re_results.simps(3) group_dots [OF assms] map_map o_def fst_conv snd_conv eol)
  also have "rev [1..<Suc (length v)] = length v # rev [1..<length v]" using False by (cases v) simp_all
  also have "concat (map ?f (length v # rev [1..<length v])) = [(adv (length v) (p, v), [(1, v)])]"
    by (auto simp: concat_eq_Nil_conv)
  finally show ?thesis using False by simp
qed

lemma alt_lit_results:
  assumes "LF \<notin> set l" "hd k \<noteq> hd b" "k \<noteq> []" "b \<noteq> []"
  shows "re_results (RSeq (RAlt (RSeq (RLit k) (RGrp 1 (rplus rdot))) (RLit b)) REol) (p, l) =
    (if prefix k l \<and> l \<noteq> k then [(adv (length l) (p, l), [(1, drop (length k) l)])]
     else if l = b then [(adv (length b) (p, l), [])] else [])"
proof -
  let ?c = "(p, l)"
  have nl: "LF \<notin> set (drop n l)" for n using assms(1) by (auto dest: in_set_dropD)
  have A: "re_results (RSeq (RLit k) (RSeq (RGrp 1 (rplus rdot)) REol)) ?c =
      (if prefix k l \<and> l \<noteq> k then [(adv (length l) (p, l), [(1, drop (length k) l)])] else [])"
  proof (cases "prefix k l")
    case True
    then have len: "length k \<le> length l" by (rule prefix_length_le)
    from True have nk: "drop (length k) l = [] \<longleftrightarrow> l = k" by (auto simp: prefix_def)
    obtain q where q: "adv (length k) ?c = (q, drop (length k) l)" by (simp add: adv_def)
    have "adv (length (drop (length k) l)) (q, drop (length k) l) = adv (length l) ?c"
      using adv_adv [of "length k" ?c "length l - length k"] len by (simp add: q)
    with True nk group_dots_eol [OF nl, of q "length k"] show ?thesis
      by (simp add: results_seq_lit q del: re_results.simps(3))
  qed (simp add: results_seq_lit del: re_results.simps(3))
  have B: "re_results (RSeq (RLit b) REol) ?c = (if l = b then [(adv (length b) ?c, [])] else [])"
    using eol_results [of "adv (length b) ?c"] nl
    by (auto simp: results_seq_lit prefix_def simp del: re_results.simps(3))
  have "\<not> (prefix k l \<and> l = b)" using assms(2-4) by (cases k; cases b) auto
  then show ?thesis unfolding results_seq_alt results_seq_assoc A B by auto
qed

lemma config_pattern_first:
  assumes "LF \<notin> set l"
  shows "map_option (\<lambda>x. entry_value (snd x)) (re_first (config_pattern symbol) (None, l)) = line_entry symbol l"
proof -
  define k where "k = ''CONFIG_'' @ symbol @ ''=''"
  define b where "b = ''# CONFIG_'' @ symbol @ '' is not set''"
  have kb: "hd k \<noteq> hd b" "k \<noteq> []" "b \<noteq> []" by (simp_all add: k_def b_def)
  have "config_pattern symbol = RSeq RBol (RSeq (RAlt (RSeq (RLit k) (RGrp 1 (rplus rdot))) (RLit b)) REol)"
    by (simp add: config_pattern_def k_def b_def)
  then have res: "re_results (config_pattern symbol) (None, l) =
    (if prefix k l \<and> l \<noteq> k then [(adv (length l) (None, l), [(1, drop (length k) l)])]
     else if l = b then [(adv (length b) (None, l), [])] else [])"
    using results_seq_bol [of _ "(None, l)"] alt_lit_results [OF assms kb] by (simp only: is_bol_start if_True)
  have v: "prefix k l \<Longrightarrow> l \<noteq> k \<Longrightarrow> drop (length k) l \<noteq> []" by (auto simp: prefix_def)
  have e: "line_entry symbol l = (if prefix k l \<and> l \<noteq> k then Some (drop (length k) l)
      else if l = b then Some ''n'' else None)"
    by (simp only: line_entry_def Let_def k_def b_def)
  show ?thesis
    unfolding re_first_def res e using v by (simp add: entry_value_def)
qed

text \<open>The matches of the pattern in the file are the entries of its lines.\<close>

lemma cuts_groups: "map snd (cuts r t) = map (\<lambda>m. snd (snd m)) (re_finditer r t)"
  by (auto simp: cuts_def)

lemma line_entry_cuts:
  assumes "LF \<notin> set l"
  shows "map (\<lambda>x. entry_value (snd x)) (cuts (config_pattern symbol) l) =
    (case line_entry symbol l of None \<Rightarrow> [] | Some v \<Rightarrow> [v])"
proof -
  obtain r where r: "config_pattern symbol = RSeq RBol r" by (simp add: config_pattern_def)
  show ?thesis
    unfolding config_pattern_first [OF assms, symmetric] r cuts_bol_line [OF assms] by (simp split: option.split)
qed

lemma entries_concat: "concat (map (\<lambda>l. case f l of None \<Rightarrow> [] | Some v \<Rightarrow> [v]) ls) = List.map_filter f ls"
  by (induction ls) (auto simp: List.map_filter_simps split: option.splits)

lemma config_matches:
  assumes "LF \<notin> set symbol"
  shows "map (\<lambda>m. entry_value (snd (snd m))) (re_finditer (config_pattern symbol) t) = config_entries symbol t"
proof -
  let ?r = "config_pattern symbol"
  have "map (\<lambda>m. entry_value (snd (snd m))) (re_finditer ?r t) = map entry_value (map snd (cuts ?r t))"
    unfolding cuts_groups by simp
  also have "\<dots> = concat (map (\<lambda>l. map (\<lambda>x. entry_value (snd x)) (cuts ?r l)) (py_split LF t))"
    unfolding cuts_lines [OF config_pattern_line [OF assms], of t] by (simp add: map_concat o_def)
  also have "\<dots> = concat (map (\<lambda>l. case line_entry symbol l of None \<Rightarrow> [] | Some v \<Rightarrow> [v]) (py_split LF t))"
    by (intro arg_cong [of _ _ concat] map_cong refl line_entry_cuts py_split_no_sep)
  finally show ?thesis unfolding entries_concat config_entries_def .
qed

text \<open>
  C23: \<^verbatim>\<open>config_state\<close> agrees with reading the defconfig line by line: without an entry for the symbol the
  result is \<open>None\<close>, a single entry gives its value (\<open>n\<close> for the \<^verbatim>\<open>is not set\<close> comment),
  and several entries are refused.
\<close>

theorem config_value_entries:
  assumes "LF \<notin> set symbol"
  shows "config_value t symbol = (case config_entries symbol t of
      [] \<Rightarrow> Inr None
    | [v] \<Rightarrow> Inr (Some v)
    | _ \<Rightarrow> Inl (InstallError (''defconfig contains duplicate CONFIG_'' @ symbol @ '' entries'')))"
  unfolding config_value_def config_matches [OF assms, of t, symmetric]
  by (auto simp: entry_value_def split: list.splits)

definition sample_defconfig :: string where
  "sample_defconfig = ''CONFIG_KSU=y\<newline># CONFIG_SWAP is not set\<newline>CONFIG_KSU_X=m\<newline>''"

theorem config_value_entries_witness:
  "config_value sample_defconfig ''KSU'' = Inr (Some ''y'') \<and>
   config_value sample_defconfig ''SWAP'' = Inr (Some ''n'') \<and>
   config_value sample_defconfig ''NET'' = Inr None"
proof -
  have "config_entries ''KSU'' sample_defconfig = [''y'']" "config_entries ''SWAP'' sample_defconfig = [''n'']"
    "config_entries ''NET'' sample_defconfig = []"
    by code_simp+
  then show ?thesis
    using config_value_entries [of "''KSU''" sample_defconfig] config_value_entries [of "''SWAP''" sample_defconfig]
      config_value_entries [of "''NET''" sample_defconfig] by simp
qed

subsection \<open>The list of security modules\<close>

text \<open>
  The lines that assign \<^verbatim>\<open>CONFIG_LSM\<close>, and the list that an accepted file has to give. The value in the quotes is
  \<^verbatim>\<open>[A-Za-z0-9_,.-]+\<close>.
\<close>

definition lsm_key :: string where "lsm_key = ''CONFIG_LSM=''"

definition lsm_lines :: "string \<Rightarrow> string list" where
  "lsm_lines t = filter (prefix lsm_key) (py_split LF t)"

definition lsm_list :: "string \<Rightarrow> string list option" where
  "lsm_list t = (case lsm_lines t of
       [l] \<Rightarrow> let v = drop (length lsm_key) l; inner = butlast (tl v) in
          if v = DQ # inner @ [DQ] \<and> inner \<noteq> [] \<and> list_all is_lsm_char inner then Some (py_split (CHR '','') inner)
          else None
     | _ \<Rightarrow> None)"

definition lsm_accepted :: "string list \<Rightarrow> bool" where
  "lsm_accepted ls \<longleftrightarrow> [] \<notin> set ls \<and> distinct ls \<and> ''selinux'' \<in> set ls \<and> last ls = ''abk_ksu_sandbox''"

lemma lsm_line_pattern_line: "line_regex lsm_line_pattern"
  by (simp add: lsm_line_pattern_def rdot_def)

text \<open>Greedy dots up to the end of the line.\<close>

lemma dots_eol:
  assumes "LF \<notin> set v"
  shows "\<exists>rest. re_results (RSeq (RStar rdot) REol) (p, v) = (adv (length v) (p, v), []) # rest"
proof -
  have "re_results (RStar rdot) (p, v) = (adv (length v) (p, v), []) # map (\<lambda>n. (adv n (p, v), [])) (rev [0..<length v])"
    unfolding rdot_def results_star_class snd_conv dot_run [OF assms] by simp
  moreover have "is_eol (adv (length v) (p, v))" by (simp add: is_eol_def)
  ultimately show ?thesis unfolding re_results.simps(3) by simp
qed

lemma lsm_line_cuts:
  assumes "LF \<notin> set l"
  shows "map fst (cuts lsm_line_pattern l) = (if prefix lsm_key l then [l] else [])"
proof -
  let ?c = "(None, l) :: cursor"
  have r: "lsm_line_pattern = RSeq RBol (RSeq (RLit lsm_key) (RSeq (RStar rdot) REol))"
    by (simp add: lsm_line_pattern_def lsm_key_def)
  note res = results_seq_bol [of "RSeq (RLit lsm_key) (RSeq (RStar rdot) REol)" ?c, unfolded results_seq_lit]
  show ?thesis
  proof (cases "prefix lsm_key l")
    case True
    then have len: "length lsm_key \<le> length l" by (rule prefix_length_le)
    obtain q where q: "adv (length lsm_key) ?c = (q, drop (length lsm_key) l)" by (simp add: adv_def)
    have "LF \<notin> set (drop (length lsm_key) l)" using assms by (auto dest: in_set_dropD)
    from dots_eol [OF this, of q] obtain rest where
      "re_results (RSeq (RStar rdot) REol) (adv (length lsm_key) ?c) =
        (adv (length l - length lsm_key) (adv (length lsm_key) ?c), []) # rest" unfolding q by auto
    moreover have "adv (length l - length lsm_key) (adv (length lsm_key) ?c) = adv (length l) ?c"
      using len by (simp add: adv_adv)
    ultimately have "re_first lsm_line_pattern ?c = Some (adv (length l) ?c, [])"
      using True res by (simp only: re_first_def r) simp
    with True show ?thesis unfolding r cuts_bol_line [OF assms] by (simp add: consumed_def)
  next
    case False
    with res have "re_first lsm_line_pattern ?c = None" by (simp only: re_first_def r) simp
    with False show ?thesis unfolding r cuts_bol_line [OF assms] by simp
  qed
qed

lemma concat_filter: "concat (map (\<lambda>l. if P l then [l] else []) ls) = filter P ls"
  by (induction ls) simp_all

lemma lsm_cuts: "map fst (cuts lsm_line_pattern t) = lsm_lines t"
proof -
  have "map fst (cuts lsm_line_pattern t) = concat (map (\<lambda>l. map fst (cuts lsm_line_pattern l)) (py_split LF t))"
    unfolding cuts_lines [OF lsm_line_pattern_line, of t] by (simp add: map_concat o_def)
  also have "\<dots> = concat (map (\<lambda>l. if prefix lsm_key l then [l] else []) (py_split LF t))"
    by (intro arg_cong [of _ _ concat] map_cong refl lsm_line_cuts py_split_no_sep)
  finally show ?thesis unfolding concat_filter lsm_lines_def .
qed

text \<open>\<^verbatim>\<open>re.fullmatch\<close> of a class between two literals.\<close>

lemma enclosed_results:
  "(\<exists>x\<in>set (re_results (RSeq (RLit k) (RSeq (RGrp 1 (rplus (RCls P))) (RLit e))) (None, l)). snd (fst x) = [] \<and> snd x = g)
     \<longleftrightarrow> (\<exists>w. g = [(1, w)] \<and> l = k @ w @ e \<and> w \<noteq> [] \<and> list_all P w)"
proof (cases "prefix k l")
  case False
  then have "\<nexists>w. l = k @ w @ e" by auto
  with False show ?thesis unfolding results_seq_lit by auto
next
  case True
  then obtain v where l: "l = k @ v" by (auto simp: prefix_def)
  obtain q where q: "adv (length k) (None, l) = (q, v)" by (simp add: adv_def l)
  have ends: "prefix e (drop n v) \<and> drop (n + length e) v = [] \<longleftrightarrow> drop n v = e" for n
  proof -
    have "drop (n + length e) v = drop (length e) (drop n v)" by (simp add: add.commute)
    then show ?thesis by (auto simp only: prefix_def append_eq_conv_conj) auto
  qed
  have run: "(\<exists>n\<in>{1..length (takeWhile P v)}. drop n v = e \<and> take n v = w) \<longleftrightarrow> v = w @ e \<and> w \<noteq> [] \<and> list_all P w" for w
  proof
    assume "\<exists>n\<in>{1..length (takeWhile P v)}. drop n v = e \<and> take n v = w"
    then obtain n where n: "1 \<le> n" "n \<le> length (takeWhile P v)" "drop n v = e" "take n v = w" by auto
    from n(2,4) have "w = take n (takeWhile P v)" by (metis take_append takeWhile_dropWhile_id diff_is_0_eq take_0 append_Nil2)
    then have "list_all P w" by (auto simp: list_all_iff dest: in_set_takeD set_takeWhileD)
    moreover have "w \<noteq> []" using n by auto
    ultimately show "v = w @ e \<and> w \<noteq> [] \<and> list_all P w" using n(3,4) append_take_drop_id [of n v] by simp
  next
    assume "v = w @ e \<and> w \<noteq> [] \<and> list_all P w"
    then show "\<exists>n\<in>{1..length (takeWhile P v)}. drop n v = e \<and> take n v = w"
      by (intro bexI [of _ "length w"]) (auto simp: list_all_iff Suc_le_eq)
  qed
  have "re_results (RSeq (RGrp 1 (rplus (RCls P))) (RLit e)) (q, v) =
      concat (map (\<lambda>n. if prefix e (drop n v) then [(adv (length e) (adv n (q, v)), [(1, take n v)])] else [])
        (rev [1..<Suc (length (takeWhile P v))]))"
    unfolding re_results.simps(3) results_group_class results_lit map_map
    by (intro arg_cong [of _ _ concat] map_cong refl) (simp add: add_groups_def)
  then have "(\<exists>x\<in>set (re_results (RSeq (RGrp 1 (rplus (RCls P))) (RLit e)) (q, v)). snd (fst x) = [] \<and> snd x = g) \<longleftrightarrow>
      (\<exists>n\<in>{1..length (takeWhile P v)}. prefix e (drop n v) \<and> drop (n + length e) v = [] \<and> g = [(1, take n v)])"
    by (auto simp: add.commute simp del: upt_Suc)
  also have "\<dots> \<longleftrightarrow> (\<exists>w. g = [(1, w)] \<and> (\<exists>n\<in>{1..length (takeWhile P v)}. drop n v = e \<and> take n v = w))"
    using ends by blast
  finally show ?thesis using True unfolding run results_seq_lit q by (simp add: l)
qed

lemma fullmatch_enclosed:
  "re_fullmatch (RSeq (RLit k) (RSeq (RGrp 1 (rplus (RCls P))) (RLit e))) l =
     (if \<exists>w. l = k @ w @ e \<and> w \<noteq> [] \<and> list_all P w
      then Some [(1, take (length l - length k - length e) (drop (length k) l))] else None)"
proof -
  let ?rs = "filter (\<lambda>x. snd (fst x) = []) (re_results (RSeq (RLit k) (RSeq (RGrp 1 (rplus (RCls P))) (RLit e))) (None, l))"
  note mem = enclosed_results [of k P e l]
  show ?thesis
  proof (cases ?rs)
    case Nil
    then have "\<not> (\<exists>w. g = [(1, w)] \<and> l = k @ w @ e \<and> w \<noteq> [] \<and> list_all P w)" for g :: groups
      unfolding mem [symmetric] filter_empty_conv by blast
    then have "\<nexists>w. l = k @ w @ e \<and> w \<noteq> [] \<and> list_all P w" by blast
    then show ?thesis using Nil by (auto simp: re_fullmatch_def start_cursor_def simp del: re_results.simps)
  next
    case (Cons x xs)
    then have "x \<in> set ?rs" by (simp del: re_results.simps)
    then have "\<exists>w. snd x = [(1, w)] \<and> l = k @ w @ e \<and> w \<noteq> [] \<and> list_all P w"
      unfolding mem [symmetric] set_filter by blast
    then show ?thesis using Cons by (auto simp: re_fullmatch_def start_cursor_def simp del: re_results.simps)
  qed
qed

lemma lsm_value_fullmatch:
  "re_fullmatch lsm_value_pattern l =
     (if \<exists>w. l = lsm_key @ DQ # w @ [DQ] \<and> w \<noteq> [] \<and> list_all is_lsm_char w
      then Some [(1, butlast (tl (drop (length lsm_key) l)))] else None)"
proof -
  have r: "lsm_value_pattern = RSeq (RLit (lsm_key @ [DQ])) (RSeq (RGrp 1 (rplus (RCls is_lsm_char))) (RLit [DQ]))"
    by (simp add: lsm_value_pattern_def lsm_key_def)
  have "take (length (lsm_key @ DQ # w @ [DQ]) - length (lsm_key @ [DQ]) - length [DQ])
      (drop (length (lsm_key @ [DQ])) (lsm_key @ DQ # w @ [DQ])) = w" for w
    by simp
  then show ?thesis unfolding r fullmatch_enclosed by auto
qed

lemma lsm_inner:
  "(\<exists>w. l = lsm_key @ DQ # w @ [DQ] \<and> w \<noteq> [] \<and> list_all is_lsm_char w) \<longleftrightarrow>
   prefix lsm_key l \<and> (let v = drop (length lsm_key) l; inner = butlast (tl v)
      in v = DQ # inner @ [DQ] \<and> inner \<noteq> [] \<and> list_all is_lsm_char inner)"
  by (auto simp: Let_def prefix_def)

lemma validate_lsm_list_accepted: "validate_lsm_list ls = Inr () \<longleftrightarrow> lsm_accepted ls"
proof -
  have "distinct ls \<Longrightarrow> x \<in> set ls \<Longrightarrow> count_list ls x = 1" for x
    by (induction ls) auto
  then have "distinct ls \<and> ''selinux'' \<in> set ls \<and> last ls = x \<longrightarrow> count_list ls x = 1" for x
    using last_in_set [of ls] by fastforce
  then show ?thesis
    by (auto simp: validate_lsm_list_def lsm_accepted_def list_ex_iff)
qed

lemma validate_lsm_accepts:
  "validate_lsm t = Inr () \<longleftrightarrow> (\<exists>ls. lsm_list t = Some ls \<and> lsm_accepted ls)"
proof -
  have key: "prefix lsm_key l" if "l \<in> set (lsm_lines t)" for l using that by (simp add: lsm_lines_def)
  have ms: "map (\<lambda>(i, j, g). take (j - i) (drop i t)) (re_finditer lsm_line_pattern t) = lsm_lines t"
    unfolding lsm_cuts [symmetric] cuts_def by (simp add: o_def split_def)
  show ?thesis
  proof (cases "\<exists>l. lsm_lines t = [l]")
    case False
    then have "lsm_list t = None" by (auto simp: lsm_list_def split: list.splits)
    moreover have "\<nexists>m. re_finditer lsm_line_pattern t = [m]" using False unfolding ms [symmetric] by auto
    ultimately show ?thesis by (auto simp: validate_lsm_def split: list.splits)
  next
    case True
    then obtain l where l: "lsm_lines t = [l]" ..
    with ms obtain i j g where m: "re_finditer lsm_line_pattern t = [(i, j, g)]" "take (j - i) (drop i t) = l"
      by (auto simp: map_eq_Cons_conv)
    have "prefix lsm_key l" using key l by simp
    then show ?thesis
      by (simp add: validate_lsm_def m lsm_value_fullmatch lsm_inner lsm_list_def l Let_def validate_lsm_list_accepted)
  qed
qed

subsection \<open>Accepted files\<close>

definition defconfig_ok :: "bool \<Rightarrow> string \<Rightarrow> bool" where
  "defconfig_ok require_sandbox t \<longleftrightarrow>
     config_entries ''KSU'' t = [''y''] \<and> config_entries ''SECURITY_SELINUX'' t = [''y''] \<and>
     config_entries ''NAMESPACES'' t = [''y''] \<and>
     (require_sandbox \<longrightarrow> config_entries ''KSU_ABK_SANDBOX'' t = [''y''] \<and>
        (case lsm_list t of None \<Rightarrow> False | Some ls \<Rightarrow> lsm_accepted ls))"

lemma config_state_after_read:
  "read p s = (Inr t, s) \<Longrightarrow> config_state p symbol s = (config_value t symbol, s)"
  by (simp add: config_state_def bind_def lift_def)

lemma config_value_y:
  "LF \<notin> set symbol \<Longrightarrow> config_value t symbol = Inr (Some v) \<longleftrightarrow> config_entries symbol t = [v]"
  unfolding config_value_def config_matches [of symbol t, symmetric]
  by (auto simp: entry_value_def split: list.splits)

lemma require_config_after_read:
  assumes "read p s = (Inr t, s)" "LF \<notin> set symbol"
  shows "fst (require_config p (symbol, m) s) = Inr u \<longleftrightarrow> config_entries symbol t = [''y'']"
    "snd (require_config p (symbol, m) s) = s"
  using config_state_after_read [OF assms(1), of symbol] config_value_y [OF assms(2), of t "''y''"]
  by (auto simp: require_config_def bind_def raise_when_def raise_def ret_def split: sum.splits)

lemma validate_defconfig_after_read:
  assumes r: "read p s = (Inr t, s)"
  shows "fst (validate_defconfig p b s) = Inr () \<longleftrightarrow> defconfig_ok b t"
proof -
  note req = require_config_after_read [OF r]
  have nl: "LF \<notin> set ''KSU''" "LF \<notin> set ''SECURITY_SELINUX''" "LF \<notin> set ''NAMESPACES''" "LF \<notin> set ''KSU_ABK_SANDBOX''"
    by simp_all
  define last_part where "last_part \<longleftrightarrow> b \<longrightarrow> config_entries ''KSU_ABK_SANDBOX'' t = [''y''] \<and> validate_lsm t = Inr ()"
  have lsm: "defconfig_ok b t \<longleftrightarrow> config_entries ''KSU'' t = [''y''] \<and> config_entries ''SECURITY_SELINUX'' t = [''y''] \<and>
      config_entries ''NAMESPACES'' t = [''y''] \<and> last_part"
    unfolding defconfig_ok_def last_part_def validate_lsm_accepts by (simp split: option.splits)
  have tests: "fst (forM (require_config p) [(''KSU'', a), (''SECURITY_SELINUX'', c), (''NAMESPACES'', d)] s) = Inr u \<longleftrightarrow>
      config_entries ''KSU'' t = [''y''] \<and> config_entries ''SECURITY_SELINUX'' t = [''y''] \<and> config_entries ''NAMESPACES'' t = [''y'']"
    for a c d u
    by (simp only: forM.simps fst_bind req [OF nl(1)] req [OF nl(2)] req [OF nl(3)] ret_def fst_conv) simp
  have tests_s: "snd (forM (require_config p) xs s) = s" for xs
    by (intro queryD query_forM query_require_config)
  have sb: "fst ((if \<not> b then ret () else bind (require_config p (''KSU_ABK_SANDBOX'', a)) (\<lambda>_. lift (validate_lsm t))) s) = Inr ()
      \<longleftrightarrow> last_part" for a
    by (cases b) (simp_all only: if_True if_False not_True_eq_False not_False_eq_True fst_bind req [OF nl(4)] ret_def
        fst_conv lift_def last_part_def, simp_all)
  have m: "config_value t ''KSU'' = Inr (Some ''m'') \<Longrightarrow> config_entries ''KSU'' t \<noteq> [''y'']"
    "config_entries ''KSU'' t = [''y''] \<Longrightarrow> config_value t ''KSU'' = Inr (Some ''y'')"
    using config_value_y [OF nl(1), of t] by simp_all
  have body: "fst (bind (forM (require_config p) [(''KSU'', a), (''SECURITY_SELINUX'', c), (''NAMESPACES'', d)])
      (\<lambda>_. if \<not> b then ret () else bind (require_config p (''KSU_ABK_SANDBOX'', e)) (\<lambda>_. lift (validate_lsm t))) s) = Inr () \<longleftrightarrow>
    defconfig_ok b t" for a c d e
    unfolding fst_bind tests tests_s sb lsm by simp
  have "fst (validate_defconfig p b s) = Inr () \<longleftrightarrow>
      (\<exists>st. config_value t ''KSU'' = Inr st \<and> st \<noteq> Some ''m'' \<and> defconfig_ok b t)"
    unfolding validate_defconfig_def bind_def [of "read p"] bind_def [of "config_state p _"] r
      config_state_after_read [OF r] prod.case sum.case
    by (cases "config_value t ''KSU''") (simp_all only: prod.case sum.case body fst_conv raise_def split: if_split, auto)
  with m lsm show ?thesis by auto
qed

text \<open>
  C12: \<^verbatim>\<open>validate_defconfig\<close> accepts exactly the files that read as text and in which, line by line,
  \<^verbatim>\<open>KSU\<close>, \<^verbatim>\<open>SECURITY_SELINUX\<close> and \<^verbatim>\<open>NAMESPACES\<close> have the single entry \<^verbatim>\<open>y\<close>, and, when the sandbox is required, also
  \<^verbatim>\<open>KSU_ABK_SANDBOX\<close>, with exactly one \<^verbatim>\<open>CONFIG_LSM\<close> line, whose quoted list has no empty or repeated
  names, contains \<^verbatim>\<open>selinux\<close> and ends with \<^verbatim>\<open>abk_ksu_sandbox\<close>.
\<close>

theorem validate_defconfig_accepts:
  "fst (validate_defconfig p b s) = Inr () \<longleftrightarrow>
     (\<exists>raw. stat (fsys s) p = Some (FileN raw) \<and> defconfig_ok b (universal_newlines raw))"
  using read_outcome [of s p]
proof
  assume "\<exists>raw. stat (fsys s) p = Some (FileN raw) \<and> read p s = (Inr (universal_newlines raw), s)"
  then show ?thesis using validate_defconfig_after_read [of p s _ b] by auto
next
  assume "(\<nexists>raw. stat (fsys s) p = Some (FileN raw)) \<and> (\<exists>e. read p s = (Inl e, s))"
  then show ?thesis by (auto simp: validate_defconfig_def bind_def)
qed

end
