(* ===== verification/Resukisu_Laws.thy ===== *)
theory Resukisu_Laws
  imports Config_Laws
begin

text \<open>
  The ReSukiSU audit: joining continued lines ends and leaves no continuation, the tail policy is decided by the version and the audit,
  and the defconfig check accepts exactly one hook mode.
\<close>

subsection \<open>Line continuations\<close>

text \<open>Erasing matches keeps a subsequence of the text.\<close>

lemma re_sub_at_erase_subseq: "subseq (re_sub_at r (\<lambda>_. []) c) (snd c)"
proof (induction c rule: measure_induct_rule [of "\<lambda>c. length (snd c)"])
  case (less c)
  have step: "subseq (case snd c of [] \<Rightarrow> [] | y # ys \<Rightarrow> y # re_sub_at r (\<lambda>_. []) (Some y, ys)) (snd c)"
    using less.IH [of "(Some y, ys)" for y ys] by (cases "snd c") auto
  show ?case
  proof (cases "re_first r c")
    case None
    with step show ?thesis by (subst re_sub_at.simps) simp
  next
    case (Some x)
    have "subseq (re_sub_at r (\<lambda>_. []) (fst x)) (snd c)" if "0 < consumed c x"
    proof -
      have "subseq (re_sub_at r (\<lambda>_. []) (fst x)) (snd (fst x))" using less.IH [of "fst x"] that by (simp add: consumed_def)
      moreover have "subseq (snd (fst x)) (snd c)"
        using re_first_suffix [OF Some] by (auto simp: suffix_def)
      ultimately show ?thesis by (rule subseq_order.trans)
    qed
    with Some step show ?thesis by (subst re_sub_at.simps) simp
  qed
qed

text \<open>A search that finds nothing has tried every position.\<close>

lemma re_scan_empty: "re_scan r i c = [] \<Longrightarrow> k \<le> length (snd c) \<Longrightarrow> re_first r (adv k c) = None"
proof (induction k arbitrary: i c)
  case 0
  then show ?case by (cases "re_first r c") (simp_all add: re_scan.simps [of r i c] split: if_splits)
next
  case (Suc k)
  then obtain y ys where c: "snd c = y # ys" by (cases "snd c") auto
  with Suc.prems(1) have "re_scan r (Suc i) (Some y, ys) = []"
    by (cases "re_first r c") (simp_all add: re_scan.simps [of r i c] split: if_splits)
  from Suc.IH [OF this] Suc.prems(2) c have "re_first r (adv k (Some y, ys)) = None" by simp
  moreover have "adv (Suc k) c = adv k (Some y, ys)" using c by (cases c) (simp add: adv_Cons)
  ultimately show ?case by simp
qed

definition continued :: "string \<Rightarrow> bool" where
  "continued t \<longleftrightarrow> list_ex (\<lambda>i. t ! i = BSL \<and> t ! Suc i \<in> {LF, CR}) [0..<length t - 1]"

lemma re_first_nonempty: "re_first r c \<noteq> None \<longleftrightarrow> re_results r c \<noteq> []"
  by (cases "re_results r c") (simp_all add: re_first_def)

lemma continuation_first:
  "re_first continuation_pattern (p, v) \<noteq> None \<longleftrightarrow> (\<exists>x w. v = BSL # x # w \<and> x \<in> {LF, CR})"
proof (cases v)
  case (Cons c cs)
  then show ?thesis
    unfolding re_first_nonempty by (cases cs) (auto simp: continuation_pattern_def)
qed (simp add: re_first_def continuation_pattern_def)

lemma continued_iff: "continued t \<longleftrightarrow> (\<exists>i\<le>length t. \<exists>x w. drop i t = BSL # x # w \<and> x \<in> {LF, CR})"
proof
  assume "continued t"
  then obtain i where i: "i < length t - 1" "t ! i = BSL" "t ! Suc i \<in> {LF, CR}"
    by (auto simp: continued_def list_ex_iff)
  then have "drop i t = t ! i # t ! Suc i # drop (Suc (Suc i)) t"
    using Cons_nth_drop_Suc [of i t] Cons_nth_drop_Suc [of "Suc i" t] by simp
  with i show "\<exists>i\<le>length t. \<exists>x w. drop i t = BSL # x # w \<and> x \<in> {LF, CR}" by (intro exI [of _ i]) auto
next
  assume "\<exists>i\<le>length t. \<exists>x w. drop i t = BSL # x # w \<and> x \<in> {LF, CR}"
  then obtain i x w where i: "drop i t = BSL # x # w" "x \<in> {LF, CR}" by blast
  then have "length t - i = Suc (Suc (length w))" by (metis length_Cons length_drop)
  moreover have "t ! i = BSL" using i(1) by (rule nth_via_drop)
  moreover have "drop (Suc i) t = x # w" using i(1) by (metis drop_Suc list.sel(3) tl_drop)
  then have "t ! Suc i = x" by (rule nth_via_drop)
  ultimately show "continued t" using i(2) by (auto simp: continued_def list_ex_iff intro!: bexI [of _ i])
qed

lemma continuation_found: "continued t \<longleftrightarrow> re_search continuation_pattern t \<noteq> None"
proof -
  have adv: "re_first continuation_pattern (adv i (None, t)) \<noteq> None \<longleftrightarrow> (\<exists>x w. drop i t = BSL # x # w \<and> x \<in> {LF, CR})" for i
    using continuation_first [of "fst (adv i (None, t))" "drop i t"] prod.collapse [of "adv i (None, t)"]
    by (simp only: snd_adv snd_conv)
  have "re_search continuation_pattern t \<noteq> None \<longleftrightarrow> re_scan continuation_pattern 0 (None, t) \<noteq> []"
    by (auto simp: re_search_def re_finditer_def start_cursor_def split: list.splits)
  also have "\<dots> \<longleftrightarrow> (\<exists>i\<le>length t. re_first continuation_pattern (adv i (None, t)) \<noteq> None)"
  proof
    assume "re_scan continuation_pattern 0 (None, t) \<noteq> []"
    then obtain a b g where "(a, b, g) \<in> set (re_scan continuation_pattern 0 (None, t))"
      by (cases "re_scan continuation_pattern 0 (None, t)") auto
    from re_scan_start [OF this] show "\<exists>i\<le>length t. re_first continuation_pattern (adv i (None, t)) \<noteq> None" by auto
  next
    assume "\<exists>i\<le>length t. re_first continuation_pattern (adv i (None, t)) \<noteq> None"
    then show "re_scan continuation_pattern 0 (None, t) \<noteq> []"
      using re_scan_empty [of continuation_pattern 0 "(None, t)"] by auto
  qed
  finally show ?thesis unfolding continued_iff adv by simp
qed

text \<open>
  C33: joining continued lines ends with a text without continuations. \<^verbatim>\<open>collapse_c_line_continuations\<close> repeats its substitution until no
  backslash stands before a line break, also when the removal of one continuation makes another one; the result is
  always reached, contains no continuation, arises from the text by deletions only, and a text without
  continuations is left as it is.
\<close>

theorem collapse_removes_continuations:
  "\<not> continued (collapse_c_line_continuations t) \<and> subseq (collapse_c_line_continuations t) t \<and>
   (continued t \<or> collapse_c_line_continuations t = t)"
proof (induction t rule: collapse_c_line_continuations.induct)
  case (1 t)
  let ?u = "re_sub continuation_pattern (\<lambda>_. []) t"
  show ?case
  proof (cases "re_search continuation_pattern t \<noteq> None")
    case True
    have "subseq ?u t" using re_sub_at_erase_subseq [of continuation_pattern "start_cursor t"]
      by (simp add: re_sub_def start_cursor_def)
    with "1.IH" [OF True] True show ?thesis
      by (subst (1 2 3) collapse_c_line_continuations.simps) (auto simp: continuation_found intro: subseq_order.trans)
  next
    case False
    then show ?thesis by (subst (1 2 3) collapse_c_line_continuations.simps) (simp add: continuation_found)
  qed
qed

subsection \<open>Hook modes in the defconfig\<close>

text \<open>
  What the check promises: every symbol that it reads has at most one entry, at most one of the hook modes is on, and it is
  not the manual one; neither of the optional hooks is on.
\<close>

definition hook_modes :: "string list" where
  "hook_modes = [''KSU_TRACEPOINT_HOOK'', ''KSU_MANUAL_HOOK'', ''KSU_SUSFS'']"

definition optional_hooks :: "string list" where
  "optional_hooks = [''KSU_MANUAL_HOOK_AUTO_SETUID_HOOK'', ''KSU_MANUAL_HOOK_AUTO_INITRC_HOOK'']"

definition switched_on :: "string \<Rightarrow> string \<Rightarrow> bool" where
  "switched_on t symbol \<longleftrightarrow> config_entries symbol t = [''y'']"

definition hook_config_ok :: "string \<Rightarrow> bool" where
  "hook_config_ok t \<longleftrightarrow>
     list_all (\<lambda>symbol. length (config_entries symbol t) \<le> 1) (hook_modes @ optional_hooks) \<and>
     length (filter (switched_on t) hook_modes) \<le> 1 \<and>
     \<not> list_ex (switched_on t) (''KSU_MANUAL_HOOK'' # optional_hooks)"

lemma config_value_defined:
  "LF \<notin> set symbol \<Longrightarrow> (\<exists>v. config_value t symbol = Inr v) \<longleftrightarrow> length (config_entries symbol t) \<le> 1"
  unfolding config_value_def config_matches [of symbol t, symmetric]
  by (auto split: list.splits)

lemma hook_symbols_one_line: "LF \<notin> set symbol" if "symbol \<in> set (hook_modes @ optional_hooks)"
proof -
  have "list_all (\<lambda>symbol. LF \<notin> set symbol) (hook_modes @ optional_hooks)" by code_simp
  with that show ?thesis unfolding list_all_iff by blast
qed

lemma mapM_lift:
  assumes "\<And>x. f x s = (g x, s)"
  shows "snd (mapM f xs s) = s \<and> (fst (mapM f xs s) = Inr ys \<longleftrightarrow> map g xs = map Inr ys)"
proof (induction xs arbitrary: ys)
  case (Cons x xs)
  obtain r where r: "mapM f xs s = (r, s)" using Cons.IH by (metis prod.collapse)
  show ?case
  proof (cases "g x")
    case (Inl e)
    then show ?thesis using assms [of x] by (cases ys) (simp_all add: bind_def)
  next
    case (Inr y)
    with r have "mapM f (x # xs) s = (case r of Inl e \<Rightarrow> (Inl e, s) | Inr zs \<Rightarrow> (Inr (y # zs), s))"
      using assms [of x] by (simp add: bind_def ret_def split: sum.splits)
    with Cons.IH [of "tl ys"] r Inr show ?thesis by (cases r; cases ys) auto
  qed
qed (auto simp: ret_def)

text \<open>The test on the three modes, with the values abstracted.\<close>

lemma hook_mode_test:
  assumes "distinct [a, m, b]"
  shows "\<not> 1 < length (map fst (filter (\<lambda>x. snd x = Some y) [(a, u), (m, v), (b, w)])) \<and>
      m \<notin> set (map fst (filter (\<lambda>x. snd x = Some y) [(a, u), (m, v), (b, w)])) \<and> rest \<longleftrightarrow>
    \<not> (u = Some y \<and> w = Some y) \<and> v \<noteq> Some y \<and> rest"
  using assms by auto

lemma ex_modes:
  "(\<exists>modes. (\<exists>u v w. A u \<and> B v \<and> C w \<and> modes = l u v w) \<and> F modes) \<longleftrightarrow> (\<exists>u v w. A u \<and> B v \<and> C w \<and> F (l u v w))"
  by blast

lemma optional_hook_test:
  assumes "read p s = (Inr t, s)" "symbol \<in> set optional_hooks"
  shows "fst (bind (config_state p symbol) (\<lambda>state. raise_when (state = Some ''y'') e) s) = Inr u \<longleftrightarrow>
      length (config_entries symbol t) \<le> 1 \<and> \<not> switched_on t symbol"
    "snd (bind (config_state p symbol) (\<lambda>state. raise_when (state = Some ''y'') e) s) = s"
proof -
  have nl: "LF \<notin> set symbol" using hook_symbols_one_line [of symbol] assms(2) by simp
  show "fst (bind (config_state p symbol) (\<lambda>state. raise_when (state = Some ''y'') e) s) = Inr u \<longleftrightarrow>
      length (config_entries symbol t) \<le> 1 \<and> \<not> switched_on t symbol"
    unfolding config_value_defined [OF nl, symmetric] switched_on_def config_value_y [OF nl, symmetric]
    by (auto simp: bind_def config_state_after_read [OF assms(1)] raise_when_def raise_def ret_def split: sum.splits)
  show "snd (bind (config_state p symbol) (\<lambda>state. raise_when (state = Some ''y'') e) s) = s"
    by (intro queryD queries)
qed

lemma raise_chain:
  "fst ((if a then raise e else if b then raise e' else m) s) = Inr u \<longleftrightarrow> \<not> a \<and> \<not> b \<and> fst (m s) = Inr u"
  by (simp add: raise_def)

lemma hook_modes_read:
  assumes "read p s = (Inr t, s)"
  shows "fst (mapM (\<lambda>symbol. bind (config_state p symbol) (\<lambda>state. ret (symbol, state))) hook_modes s) = Inr modes \<longleftrightarrow>
    (\<exists>u v w. config_value t ''KSU_TRACEPOINT_HOOK'' = Inr u \<and> config_value t ''KSU_MANUAL_HOOK'' = Inr v \<and>
       config_value t ''KSU_SUSFS'' = Inr w \<and>
       modes = [(''KSU_TRACEPOINT_HOOK'', u), (''KSU_MANUAL_HOOK'', v), (''KSU_SUSFS'', w)])"
proof -
  let ?g = "\<lambda>symbol. map_sum id (Pair symbol) (config_value t symbol)"
  have step: "bind (config_state p symbol) (\<lambda>state. ret (symbol, state)) s = (?g symbol, s)" for symbol
    by (simp add: bind_def config_state_after_read [OF assms] ret_def split: sum.split)
  have g: "?g symbol = Inr x \<longleftrightarrow> (\<exists>v. config_value t symbol = Inr v \<and> x = (symbol, v))" for symbol x
    by (cases "config_value t symbol") auto
  have three: "map ?g [a, m, b] = map Inr modes \<longleftrightarrow>
      (\<exists>x y z. ?g a = Inr x \<and> ?g m = Inr y \<and> ?g b = Inr z \<and> modes = [x, y, z])" for a m b
    by (cases modes rule: list.exhaust [case_product list.exhaust]) (auto simp: map_eq_Cons_conv Cons_eq_map_conv)
  show ?thesis
    unfolding mapM_lift [where f = "\<lambda>symbol. bind (config_state p symbol) (\<lambda>state. ret (symbol, state))" and g = ?g, OF step, THEN conjunct2]
      hook_modes_def three g by blast
qed

lemma tail_config_after_read:
  assumes r: "read p s = (Inr t, s)"
  shows "fst (validate_runtime_ksu_tail_config RUNTIME_KSU_TAIL_RESUKISU_SUSFS (Some p) s) = Inr () \<longleftrightarrow> hook_config_ok t"
proof -
  let ?T = "''KSU_TRACEPOINT_HOOK''" and ?M = "''KSU_MANUAL_HOOK''" and ?S = "''KSU_SUSFS''"
  have d: "distinct [?T, ?M, ?S]" by simp
  have nl: "LF \<notin> set ?T" "LF \<notin> set ?M" "LF \<notin> set ?S" by simp_all
  have on: "switched_on t x \<longleftrightarrow> config_value t x = Inr (Some ''y'')" if "LF \<notin> set x" for x
    unfolding switched_on_def config_value_y [OF that] ..
  have sn: "snd (mapM (\<lambda>symbol. bind (config_state p symbol) (\<lambda>state. ret (symbol, state))) xs s) = s" for xs
    by (intro queryD queries)
  have opt: "fst (forM (\<lambda>symbol. bind (config_state p symbol) (\<lambda>state. raise_when (state = Some ''y'') (e symbol))) optional_hooks s) = Inr () \<longleftrightarrow>
      list_all (\<lambda>x. length (config_entries x t) \<le> 1 \<and> \<not> switched_on t x) optional_hooks" for e
    using optional_hook_test [OF r]
    by (simp add: optional_hooks_def fst_bind ret_def)
  have "fst (validate_runtime_ksu_tail_config RUNTIME_KSU_TAIL_RESUKISU_SUSFS (Some p) s) = Inr () \<longleftrightarrow>
    (\<exists>u v w. config_value t ?T = Inr u \<and> config_value t ?M = Inr v \<and> config_value t ?S = Inr w \<and>
       \<not> (u = Some ''y'' \<and> w = Some ''y'') \<and> v \<noteq> Some ''y'' \<and>
       list_all (\<lambda>x. length (config_entries x t) \<le> 1 \<and> \<not> switched_on t x) optional_hooks)"
    unfolding validate_runtime_ksu_tail_config_def option.case not_True_eq_False if_False simp_thms(6) fst_bind
      hook_modes_def [symmetric] hook_modes_read [OF r] sn Let_def raise_chain optional_hooks_def [symmetric] opt
      ex_modes hook_mode_test [OF d] ..
  also have "\<dots> \<longleftrightarrow> hook_config_ok t"
    unfolding hook_config_ok_def hook_modes_def
    using config_value_defined [OF nl(1), of t] config_value_defined [OF nl(2), of t] config_value_defined [OF nl(3), of t]
      on [OF nl(1)] on [OF nl(2)] on [OF nl(3)]
    by (auto simp: list_all_iff list_ex_iff)
  finally show ?thesis .
qed

text \<open>
  C29: the check of the hook modes accepts exactly what it promises. Without a defconfig, or with another policy than the one for ReSukiSU,
  \<^verbatim>\<open>validate_runtime_ksu_tail_config\<close> accepts; otherwise it accepts exactly the files that read as text and in
  which the five symbols have at most one entry each, not both of \<^verbatim>\<open>KSU_TRACEPOINT_HOOK\<close> and \<^verbatim>\<open>KSU_SUSFS\<close> are on, and
  neither the manual hook nor one of the optional hooks is on.
\<close>

theorem tail_config_accepts:
  "fst (validate_runtime_ksu_tail_config policy defconfig s) = Inr () \<longleftrightarrow>
     (case defconfig of
        None \<Rightarrow> True
      | Some p \<Rightarrow>
          if policy = RUNTIME_KSU_TAIL_RESUKISU_SUSFS
          then \<exists>raw. stat (fsys s) p = Some (FileN raw) \<and> hook_config_ok (universal_newlines raw) else True)"
proof (cases "\<exists>p. defconfig = Some p \<and> policy = RUNTIME_KSU_TAIL_RESUKISU_SUSFS")
  case True
  then obtain p where p: "defconfig = Some p" "policy = RUNTIME_KSU_TAIL_RESUKISU_SUSFS" by blast
  from read_outcome [of s p] show ?thesis
  proof
    assume "\<exists>raw. stat (fsys s) p = Some (FileN raw) \<and> read p s = (Inr (universal_newlines raw), s)"
    with p show ?thesis using tail_config_after_read [of p s] by auto
  next
    assume no: "(\<nexists>raw. stat (fsys s) p = Some (FileN raw)) \<and> (\<exists>e. read p s = (Inl e, s))"
    then have "fst (config_state p symbol s) \<noteq> Inr v" for symbol v by (auto simp: config_state_def bind_def)
    then have "fst (validate_runtime_ksu_tail_config policy defconfig s) \<noteq> Inr ()"
      unfolding p validate_runtime_ksu_tail_config_def mapM.simps by (simp add: fst_bind)
    with no p show ?thesis by simp
  qed
qed (auto simp: validate_runtime_ksu_tail_config_def ret_def split: option.splits)

subsection \<open>The policy\<close>

lemma supported_versions:
  "map parse_version SUPPORTED_KERNELS = map Inr [(5, 10), (5, 15), (6, 1), (6, 6), (6, 12)]"
  by code_simp

end
