(* ===== verification/Branch_Laws.thy ===== *)
theory Branch_Laws
  imports Effects
begin

text \<open>
  The branch that \<^verbatim>\<open>extract_resukisu_modern_lsm_branch\<close> returns, described by the nesting of the conditionals, and the sources
  that \<^verbatim>\<open>resukisu_registration_sources\<close> reports.
\<close>

subsection \<open>Nesting of conditionals\<close>

definition line_change :: "string \<Rightarrow> int" where
  "line_change l = (case directive_word l of
       None \<Rightarrow> 0 | Some kind \<Rightarrow> if opens_conditional kind then 1 else if kind = ''endif'' then -1 else 0)"

definition conditional_nesting :: "string list \<Rightarrow> int" where
  "conditional_nesting ls = sum_list (map line_change ls)"

lemma conditional_nesting_simps [simp]: "conditional_nesting [] = 0" "conditional_nesting (l # ls) = line_change l + conditional_nesting ls"
  by (simp_all add: conditional_nesting_def)

text \<open>A line with the modern condition outside every conditional.\<close>

definition modern_condition :: "string list \<Rightarrow> nat \<Rightarrow> bool" where
  "modern_condition ls j \<longleftrightarrow> j < length ls \<and> line_change (ls ! j) = 1 \<and>
     re_fullmatch modern_target_pattern (ls ! j) \<noteq> None \<and> conditional_nesting (take j ls) = 0"

lemma modern_candidates_sound:
  assumes "modern_candidates p i ls d = Inr (d', cs)"
  shows "d' = d + conditional_nesting ls \<and>
    set cs = {i + j | j. j < length ls \<and> line_change (ls ! j) = 1 \<and> re_fullmatch modern_target_pattern (ls ! j) \<noteq> None \<and>
      d + conditional_nesting (take j ls) = 0}"
  using assms
proof (induction ls arbitrary: i d d' cs)
  case (Cons l ls)
  let ?P = "\<lambda>d ls j. line_change (ls ! j) = 1 \<and> re_fullmatch modern_target_pattern (ls ! j) \<noteq> None \<and> d + conditional_nesting (take j ls) = 0"
  have split: "{i + j | j. j < length (l # ls) \<and> ?P d (l # ls) j} =
    (if ?P d (l # ls) 0 then {i} else {}) \<union> {Suc i + j | j. j < length ls \<and> ?P (d + line_change l) ls j}"
    (is "?L = ?R")
  proof
    show "?L \<subseteq> ?R"
    proof
      fix x assume "x \<in> ?L"
      then obtain j where j: "x = i + j" "j < length (l # ls)" "?P d (l # ls) j" by blast
      then show "x \<in> ?R" by (cases j) auto
    qed
    show "?R \<subseteq> ?L"
    proof
      fix x assume "x \<in> ?R"
      then consider "?P d (l # ls) 0" "x = i" | j where "x = Suc i + j" "j < length ls" "?P (d + line_change l) ls j"
        by (auto split: if_splits)
      then show "x \<in> ?L"
      proof cases
        case 1
        then show ?thesis by (intro CollectI exI [of _ 0]) auto
      next
        case 2
        then show ?thesis by (intro CollectI exI [of _ "Suc j"]) auto
      qed
    qed
  qed
  obtain e fs where rest: "modern_candidates p (Suc i) ls (d + line_change l) = Inr (e, fs)" "d' = e"
    "cs = (if ?P d (l # ls) 0 then i # fs else fs)"
    using Cons.prems
    by (auto simp: line_change_def rbind_def split: option.splits if_splits sum.splits prod.splits)
  from Cons.IH [OF rest(1)] rest(2,3) show ?case unfolding split by auto
qed auto

subsection \<open>The branch\<close>

text \<open>
  From line \<open>i\<close> on, entered at level \<open>k\<close>, line \<open>e\<close> is the first directive of the innermost open conditional that ends or splits it, and it is
  the word \<open>w\<close>.
\<close>

definition level :: "string list \<Rightarrow> int \<Rightarrow> nat \<Rightarrow> nat \<Rightarrow> int" where
  "level ls k i j = k + conditional_nesting (take (j - i) (drop i ls))"

definition next_directive :: "string list \<Rightarrow> int \<Rightarrow> nat \<Rightarrow> nat \<Rightarrow> string \<Rightarrow> bool" where
  "next_directive ls k i e w \<longleftrightarrow> i \<le> e \<and> e < length ls \<and> directive_word (ls ! e) = Some w \<and> level ls k i e = 1 \<and>
     list_all (\<lambda>j. 1 \<le> level ls k i j \<and>
       (level ls k i j = 1 \<longrightarrow> directive_word (ls ! j) \<notin> set [Some ''else'', Some ''elif''])) [i..<e]"

lemma level_same [simp]: "level ls k i i = k"
  by (simp add: level_def)

lemma level_step: "i < j \<Longrightarrow> i < length ls \<Longrightarrow> level ls k i j = level ls (k + line_change (ls ! i)) (Suc i) j"
  by (simp add: level_def Cons_nth_drop_Suc [symmetric] Suc_diff_Suc [symmetric])

lemma next_directive_here:
  "i < length ls \<Longrightarrow> directive_word (ls ! i) = Some w \<Longrightarrow> next_directive ls 1 i i w"
  by (simp add: next_directive_def)

lemma next_directive_step:
  assumes "next_directive ls (k + line_change (ls ! i)) (Suc i) e w" "i < length ls" "1 \<le> k"
    "k = 1 \<longrightarrow> directive_word (ls ! i) \<notin> set [Some ''else'', Some ''elif'']"
  shows "next_directive ls k i e w"
proof -
  from assms(1) have "Suc i \<le> e" by (simp add: next_directive_def)
  then have "[i..<e] = i # [Suc i..<e]" by (simp add: upt_conv_Cons)
  with assms \<open>Suc i \<le> e\<close> show ?thesis by (simp add: next_directive_def list_all_iff level_step)
qed

lemma branch_closed:
  assumes "modern_branch_end ls [i..<n] k (Some e) = Inr (b, Some c)" "1 \<le> k"
  shows "b = Some e \<and> c < n \<and> next_directive ls k i c ''endif''"
  using assms
proof (induction "n - i" arbitrary: i k)
  case (Suc m)
  from Suc.hyps(2) have i: "i < n" by simp
  with Suc.prems(1) have l: "i < length ls" by (simp add: upt_conv_Cons split: if_splits)
  let ?w = "directive_word (ls ! i)"
  show ?case
  proof (cases "?w = Some ''endif'' \<and> k = 1")
    case True
    with Suc.prems(1) i l show ?thesis
      by (simp add: upt_conv_Cons opens_conditional_def next_directive_here)
  next
    case False
    with Suc.prems i l have step: "modern_branch_end ls [Suc i..<n] (k + line_change (ls ! i)) (Some e) = Inr (b, Some c)"
      "1 \<le> k + line_change (ls ! i)" "k = 1 \<longrightarrow> ?w \<notin> set [Some ''else'', Some ''elif'']"
      by (auto simp: upt_conv_Cons line_change_def opens_conditional_def split: option.splits if_splits)
    from Suc.hyps(1) [OF _ step(1,2)] Suc.hyps(2) next_directive_step [OF _ l Suc.prems(2) step(3)] show ?thesis by simp
  qed
qed simp

lemma branch_found:
  assumes "modern_branch_end ls [i..<n] k None = Inr (Some e, Some c)" "1 \<le> k"
  shows "next_directive ls k i e ''else'' \<and> c < n \<and> next_directive ls 1 (Suc e) c ''endif''"
  using assms
proof (induction "n - i" arbitrary: i k)
  case (Suc m)
  from Suc.hyps(2) have i: "i < n" by simp
  with Suc.prems(1) have l: "i < length ls" by (simp add: upt_conv_Cons split: if_splits)
  let ?w = "directive_word (ls ! i)"
  show ?case
  proof (cases "?w = Some ''else'' \<and> k = 1")
    case True
    with Suc.prems(1) i l have "modern_branch_end ls [Suc i..<n] 1 (Some i) = Inr (Some e, Some c)"
      by (simp add: upt_conv_Cons opens_conditional_def)
    from branch_closed [OF this] True l show ?thesis by (simp add: next_directive_here)
  next
    case False
    with Suc.prems i l have step: "modern_branch_end ls [Suc i..<n] (k + line_change (ls ! i)) None = Inr (Some e, Some c)"
      "1 \<le> k + line_change (ls ! i)" "k = 1 \<longrightarrow> ?w \<notin> set [Some ''else'', Some ''elif'']"
      by (auto simp: upt_conv_Cons line_change_def opens_conditional_def split: option.splits if_splits)
    from Suc.hyps(1) [OF _ step(1,2)] Suc.hyps(2) next_directive_step [OF _ l Suc.prems(2) step(3)] show ?thesis by simp
  qed
qed simp

text \<open>The lines strictly between the only outermost modern condition and the \<^verbatim>\<open>#else\<close> of that condition.\<close>

definition modern_branch :: "string list \<Rightarrow> string list \<Rightarrow> nat \<Rightarrow> nat \<Rightarrow> nat \<Rightarrow> string \<Rightarrow> bool" where
  "modern_branch lines lexical i e c branch \<longleftrightarrow>
     filter (modern_condition lexical) [0..<length lexical] = [i] \<and> conditional_nesting lexical = 0 \<and>
     next_directive lexical 1 (Suc i) e ''else'' \<and> next_directive lexical 1 (Suc e) c ''endif'' \<and> c < length lines \<and>
     branch = concat (take (e - Suc i) (drop (Suc i) lines))"

lemma filter_singleton: "{j. j < n \<and> P j} = {i} \<Longrightarrow> filter P [0..<n] = [i]"
proof -
  assume "{j. j < n \<and> P j} = {i}"
  then have "set (filter P [0..<n]) = set [i]" by auto
  moreover have "sorted (filter P [0..<n])" "distinct (filter P [0..<n])" by (simp_all add: sorted_wrt_filter)
  ultimately show ?thesis by (intro sorted_distinct_set_unique) simp_all
qed

lemma extract_parts:
  assumes "extract_resukisu_modern_lsm_branch p t = Inr branch"
  obtains i e c where
    "modern_candidates p 0 (splitlines_keep (mask_c_comments_and_literals t)) 0 = Inr (0, [i])"
    "modern_branch_end (splitlines_keep (mask_c_comments_and_literals t)) [Suc i ..< length (splitlines_keep t)] 1 None = Inr (Some e, Some c)"
    "branch = concat (take (e - Suc i) (drop (Suc i) (splitlines_keep t)))"
proof -
  let ?ls = "splitlines_keep (mask_c_comments_and_literals t)"
  obtain d cs where 1: "modern_candidates p 0 ?ls 0 = Inr (d, cs)"
    using assms unfolding extract_resukisu_modern_lsm_branch_def Let_def rbind_eq_Inr by auto
  note run = assms [unfolded extract_resukisu_modern_lsm_branch_def Let_def 1 rbind_Inr prod.case]
  from run obtain i where 2: "cs = [i]" by (cases cs rule: remdups_adj.cases) auto
  from run 2 have 3: "d = 0" by (auto split: if_splits)
  obtain be bc where 4: "modern_branch_end ?ls [Suc i ..< length (splitlines_keep t)] 1 None = Inr (be, bc)"
    using run unfolding 2 3 by (auto simp: rbind_eq_Inr)
  from run obtain e c where "be = Some e" "bc = Some c"
    "branch = concat (take (e - Suc i) (drop (Suc i) (splitlines_keep t)))"
    unfolding 2 3 by (cases be; cases bc) (auto simp: 4)
  with 1 2 3 4 show ?thesis by (intro that [of i e c]) simp_all
qed


definition sample_branch_source :: string where
  "sample_branch_source = ''#if LINUX_VERSION_CODE >= KERNEL_VERSION(4, 2, 0) || '' @
     ''defined(KSU_COMPAT_HAS_LIST_OF_LSM_HOOKS)\<newline>#ifdef A\<newline>int x;\<newline>#else\<newline>int y;\<newline>#endif\<newline>#else\<newline>int z;\<newline>#endif\<newline>''"

lemma sample_branch:
  "extract_resukisu_modern_lsm_branch [''h''] sample_branch_source = Inr ''#ifdef A\<newline>int x;\<newline>#else\<newline>int y;\<newline>#endif\<newline>''"
  by code_simp


subsection \<open>Registrations\<close>

definition audited_source :: "fs \<Rightarrow> path \<Rightarrow> path \<Rightarrow> bool" where
  "audited_source fs k p \<longleftrightarrow> ''abk_sandbox'' \<notin> set (drop (length k) p) \<and> path_is_file fs p \<and>
     path_suffix p \<in> set [''.c'', ''.h'', ''.inc'', ''.inl'', ''.s'', ''.S''] \<and> py_in ''security_add_'' (raw_contents fs p)"

definition joined_code :: "fs \<Rightarrow> path \<Rightarrow> string" where
  "joined_code fs p = collapse_c_line_continuations (mask_c_comments_and_literals (raw_contents fs p))"

lemma registration_loop_sound:
  assumes "registration_loop fs k ps = Inr found"
  shows "found = map (\<lambda>p. (p, re_count registration_pattern (joined_code fs p)))
      (filter (\<lambda>p. audited_source fs k p \<and> re_count registration_pattern (joined_code fs p) \<noteq> 0) ps) \<and>
    list_all (\<lambda>p. audited_source fs k p \<longrightarrow> re_search token_paste_pattern (joined_code fs p) = None) ps"
  using assms
proof (induction ps arbitrary: found)
  case (Cons p ps)
  have skip: "audited_source fs k p \<longleftrightarrow> \<not> (''abk_sandbox'' \<in> set (drop (length k) p) \<or> \<not> path_is_file fs p
           \<or> path_suffix p \<notin> set [''.c'', ''.h'', ''.inc'', ''.inl'', ''.s'', ''.S'']
           \<or> \<not> py_in ''security_add_'' (raw_contents fs p))"
    unfolding audited_source_def by blast
  have step: "registration_loop fs k (p # ps) =
     (if \<not> audited_source fs k p then registration_loop fs k ps
      else if re_search token_paste_pattern (joined_code fs p) \<noteq> None then
           Inl (InstallError ''unsupported ReSukiSU runtime LSM hook shape: token-pasted registration'')
      else rbind (registration_loop fs k ps) (\<lambda>found. Inr (if re_count registration_pattern (joined_code fs p) \<noteq> 0
        then (p, re_count registration_pattern (joined_code fs p)) # found else found)))"
    unfolding registration_loop.simps Let_def skip joined_code_def not_not ..
  show ?case
  proof (cases "audited_source fs k p")
    case False
    with Cons.prems Cons.IH show ?thesis unfolding step by simp
  next
    case True
    with Cons.prems have "re_search token_paste_pattern (joined_code fs p) = None" unfolding step by (simp split: if_splits)
    with True Cons.prems Cons.IH show ?thesis unfolding step by (auto simp: rbind_eq_Inr)
  qed
qed simp

end
