(* ===== verification/Audit_Laws.thy ===== *)
theory Audit_Laws
  imports Resukisu_Laws Discover_Laws Branch_Laws
begin

text \<open>
  What the audit of the ReSukiSU hook source guarantees: the audited branch is the one between the modern condition and its
  \<^verbatim>\<open>#else\<close>, its code is the reviewed code up to white space, and no other source registers hooks.
\<close>

subsection \<open>Matches up to white space\<close>

definition squash :: "string \<Rightarrow> string" where
  "squash t = filter (\<lambda>c. \<not> py_space c) t"

lemma squash_append [simp]: "squash (v @ w) = squash v @ squash w"
  by (simp add: squash_def)

text \<open>The parts of the audited patterns: literals, white space and word boundaries.\<close>

definition plain :: "regex \<Rightarrow> bool" where
  "plain r \<longleftrightarrow> (\<exists>t. r = RLit t) \<or> r = ws \<or> r = ws1 \<or> r = RBnd"

fun literal :: "regex \<Rightarrow> string" where
  "literal (RLit t) = squash t"
| "literal r = []"

definition literals :: "regex list \<Rightarrow> string" where
  "literals rs = concat (map literal rs)"

lemma plain_simps [simp]: "plain (RLit t)" "plain ws" "plain ws1" "plain RBnd"
  by (simp_all add: plain_def)

lemma literals_simps [simp]:
  "literals [] = []" "literals (r # rs) = literal r @ literals rs" "literals (rs @ qs) = literals rs @ literals qs"
  "literal ws1 = []"
  by (simp_all add: literals_def rplus_def)

lemma plain_spaced [simp]: "list_all plain (spaced ts)"
  by (induction ts rule: spaced.induct) simp_all

lemma literals_spaced [simp]: "literals (spaced ts) = squash (concat ts)"
  by (induction ts rule: spaced.induct) (simp_all add: squash_def)

lemma squash_run: "n \<le> length (takeWhile py_space v) \<Longrightarrow> squash (take n v) = []"
proof -
  assume "n \<le> length (takeWhile py_space v)"
  then have "take n v = take n (takeWhile py_space v)"
    by (metis append_Nil2 diff_is_0_eq take_0 take_append takeWhile_dropWhile_id)
  then show ?thesis by (auto simp: squash_def filter_empty_conv dest: in_set_takeD set_takeWhileD)
qed

lemma plain_result:
  assumes "plain r" "x \<in> set (re_results r c)"
  shows "\<exists>w. snd c = w @ snd (fst x) \<and> squash w = literal r \<and> snd x = []"
proof -
  have run: ?thesis if "x = (adv n c, [])" "n \<le> length (takeWhile py_space (snd c))" "literal r = []" for n
    using that squash_run [of n "snd c"] by (intro exI [of _ "take n (snd c)"]) simp
  from assms(1) consider t where "r = RLit t" | "r = ws" | "r = ws1" | "r = RBnd" unfolding plain_def by blast
  then show ?thesis
  proof cases
    case 1
    with assms(2) show ?thesis by (auto simp: results_lit prefix_def split: if_splits simp del: re_results.simps)
  next
    case 2
    then show ?thesis using assms(2) run unfolding 2 rspace_def results_star_class by auto
  next
    case 3
    have "literal r = []" unfolding 3 by simp
    then show ?thesis using assms(2) run unfolding 3 rspace_def results_plus_class by auto
  next
    case 4
    with assms(2) show ?thesis by (auto simp: squash_def split: if_splits)
  qed
qed

lemma rseq_Cons:
  assumes "x \<in> set (re_results (rseq (r # rs)) c)"
  shows "\<exists>y\<in>set (re_results r c). \<exists>z\<in>set (re_results (rseq rs) (fst y)). x = (fst z, snd y @ snd z)"
  using assms by (cases rs) auto

lemma rseq_plain:
  assumes "list_all plain rs" "x \<in> set (re_results (rseq (rs @ qs)) c)"
  shows "\<exists>w d. snd c = w @ snd d \<and> squash w = literals rs \<and> x \<in> set (re_results (rseq qs) d)"
  using assms
proof (induction rs arbitrary: c)
  case Nil
  then show ?case by (intro exI [of _ "[]"] exI [of _ c]) (simp add: squash_def)
next
  case (Cons r rs)
  from rseq_Cons [of x r "rs @ qs" c] Cons.prems(2) obtain y z where y: "y \<in> set (re_results r c)"
    and z: "z \<in> set (re_results (rseq (rs @ qs)) (fst y))" and x: "x = (fst z, snd y @ snd z)" by auto
  from plain_result [OF _ y] Cons.prems(1) obtain v where v: "snd c = v @ snd (fst y)" "squash v = literal r" "snd y = []"
    by auto
  with x z have "x \<in> set (re_results (rseq (rs @ qs)) (fst y))" by simp
  from Cons.IH [OF _ this] Cons.prems(1) obtain w d where
    "snd (fst y) = w @ snd d" "squash w = literals rs" "x \<in> set (re_results (rseq qs) d)" by auto
  with v show ?case by (intro exI [of _ "v @ w"] exI [of _ d]) simp
qed

lemma fullmatch_result:
  "re_fullmatch r t = Some g \<Longrightarrow> \<exists>x\<in>set (re_results r (None, t)). snd (fst x) = [] \<and> snd x = g"
  by (force simp: re_fullmatch_def start_cursor_def filter_eq_Cons_iff split: list.splits simp del: re_results.simps)

lemma fullmatch_plain:
  assumes "re_fullmatch (rseq rs) t = Some g" "list_all plain rs"
  shows "squash t = literals rs"
proof -
  from fullmatch_result [OF assms(1)] obtain x where x: "x \<in> set (re_results (rseq (rs @ [])) (None, t))" "snd (fst x) = []"
    by (auto simp del: re_results.simps)
  from rseq_plain [OF assms(2) x(1)] x(2) show ?thesis by auto
qed

fun groupless :: "regex \<Rightarrow> bool" where
  "groupless (RSeq a b) \<longleftrightarrow> groupless a \<and> groupless b"
| "groupless (RAlt a b) \<longleftrightarrow> groupless a \<and> groupless b"
| "groupless (RStar a) \<longleftrightarrow> groupless a"
| "groupless (RLazy a) \<longleftrightarrow> groupless a"
| "groupless (RGrp n a) \<longleftrightarrow> False"
| "groupless r \<longleftrightarrow> True"

lemma accepts_groupless: "accepts r w g \<Longrightarrow> groupless r \<Longrightarrow> g = []"
  by (induction rule: accepts.induct) simp_all

lemma groupless_result: "anchor_free r \<Longrightarrow> groupless r \<Longrightarrow> y \<in> set (re_results r c) \<Longrightarrow> snd y = []"
  using re_results_sound [of r y c] accepts_groupless by blast

text \<open>A group around a pattern without groups captures what the pattern consumes.\<close>

lemma rseq_group:
  assumes "x \<in> set (re_results (rseq (RGrp n a # rs)) c)" "anchor_free a" "groupless a"
  shows "\<exists>w d z. snd c = w @ snd d \<and> z \<in> set (re_results (rseq rs) d) \<and> x = (fst z, (n, w) # snd z)"
proof -
  from rseq_Cons [OF assms(1)] obtain y z where y: "y \<in> set (re_results (RGrp n a) c)"
    and z: "z \<in> set (re_results (rseq rs) (fst y))" and x: "x = (fst z, snd y @ snd z)" by blast
  from y obtain y' where y': "y' \<in> set (re_results a c)" "fst y = fst y'"
    "snd y = [(n, take (length (snd c) - length (snd (fst y'))) (snd c))]" using groupless_result [OF assms(2,3)] by auto
  have "suffix (snd (fst y')) (snd c)" using re_results_ahead [OF y'(1)] by (auto simp: ahead_def suffix_drop)
  then have "snd c = take (length (snd c) - length (snd (fst y'))) (snd c) @ snd (fst y')" by (auto simp: suffix_def)
  with y' x z show ?thesis by (intro exI [of _ "fst y"] exI [of _ z] exI) auto
qed

subsection \<open>The reviewed code\<close>

text \<open>The modern branch, without white space.\<close>

definition audited_array :: string where
  "audited_array =
     ''LSM_HOOK_INIT(inode_rename,ksu_inode_rename),'' @
     ''#ifdefCONFIG_KSU_MANUAL_HOOK_AUTO_SETUID_HOOK'' @
     ''LSM_HOOK_INIT(task_fix_setuid,ksu_task_fix_setuid),'' @ ''#endif'' @
     ''#ifdefCONFIG_KSU_MANUAL_HOOK_AUTO_INITRC_HOOK'' @
     ''LSM_HOOK_INIT(file_permission,ksu_file_permission),'' @ ''#endif''"

definition audited_registration :: string where
  "audited_registration =
     ''{if(ARRAY_SIZE(ksu_hooks)==0)return;'' @
     ''#ifLINUX_VERSION_CODE>=KERNEL_VERSION(4,11,0)||defined(KSU_COMPAT_REQUIRE_PROVIDE_LSM_NAME)'' @
     ''security_add_hooks(ksu_hooks,ARRAY_SIZE(ksu_hooks),'' @ [DQ] @ ''ksu'' @ [DQ] @ '');'' @
     ''#else'' @ ''security_add_hooks(ksu_hooks,ARRAY_SIZE(ksu_hooks));'' @ ''#endif}''"

definition audited_code :: string where
  "audited_code =
     ''#include<linux/lsm_hooks.h>'' @ ''staticstructsecurity_hook_listksu_hooks[]={'' @ audited_array @ ''};'' @
     ''void__initksu_lsm_hook_built_in_init(void)'' @ audited_registration"

lemma audited_shape_squash: "re_fullmatch audited_shape_pattern t = Some g \<Longrightarrow> squash t = audited_array"
  unfolding audited_shape_pattern_def
  by (drule fullmatch_plain) (simp, simp, code_simp)

lemma audited_registration_squash: "re_fullmatch audited_registration_pattern t = Some g \<Longrightarrow> squash t = audited_registration"
  unfolding audited_registration_pattern_def
  by (drule fullmatch_plain) (simp, simp, code_simp)

text \<open>The whole branch: the two groups have these texts, and nothing else stands around them.\<close>

definition shape_head :: "regex list" where
  "shape_head = [ws] @ spaced [''#'', ''include'', ''<linux/lsm_hooks.h>''] @
     [ws, RLit ''static'', ws1, RLit ''struct'', ws1, RLit ''security_hook_list'', ws1,
      RLit ''ksu_hooks[]'', ws, RLit ''='', ws, RLit ''{'']"

definition shape_middle :: "regex list" where
  "shape_middle = [RLit ''};'', ws, RLit ''void'', ws1, RLit ''__init'', ws1] @
     spaced [''ksu_lsm_hook_built_in_init'', ''('', ''void'', '')''] @ [ws]"

lemma modern_shape_parts:
  "modern_shape_pattern = rseq (shape_head @ RGrp 1 (RLazy rany) # shape_middle @
     RGrp 2 (rseq [RLit ''{'', RStar rany, RLit ''}'']) # [ws] @ [])"
  by (simp add: modern_shape_pattern_def shape_head_def shape_middle_def)

lemma shape_plain: "list_all plain shape_head" "list_all plain shape_middle" "list_all plain [ws]"
  by (simp_all add: shape_head_def shape_middle_def)

lemma modern_shape_squash:
  assumes "re_fullmatch modern_shape_pattern t = Some g"
  shows "squash t = literals shape_head @ squash (group 1 g) @ literals shape_middle @ squash (group 2 g)"
proof -
  have any: "anchor_free (RLazy rany)" "groupless (RLazy rany)"
    and body: "anchor_free (rseq [RLit ''{'', RStar rany, RLit ''}''])" "groupless (rseq [RLit ''{'', RStar rany, RLit ''}''])"
    by (simp_all add: rany_def)
  from fullmatch_result [OF assms] obtain x where "x \<in> set (re_results modern_shape_pattern (None, t))"
    and x: "snd (fst x) = []" "snd x = g" by blast
  from rseq_plain [OF shape_plain(1) this(1) [unfolded modern_shape_parts]] obtain w1 c1 where
    1: "t = w1 @ snd c1" "squash w1 = literals shape_head" and r1: "x \<in> set (re_results (rseq (RGrp 1 (RLazy rany) # shape_middle @
     RGrp 2 (rseq [RLit ''{'', RStar rany, RLit ''}'']) # [ws] @ [])) c1)"
    unfolding snd_conv by blast
  from rseq_group [OF r1 any] obtain a c2 z where
    2: "snd c1 = a @ snd c2" "x = (fst z, (1, a) # snd z)"
    and r2: "z \<in> set (re_results (rseq (shape_middle @ RGrp 2 (rseq [RLit ''{'', RStar rany, RLit ''}'']) # [ws] @ [])) c2)" by blast
  from rseq_plain [OF shape_plain(2) r2] obtain w3 c3 where
    3: "snd c2 = w3 @ snd c3" "squash w3 = literals shape_middle"
    and r3: "z \<in> set (re_results (rseq (RGrp 2 (rseq [RLit ''{'', RStar rany, RLit ''}'']) # [ws] @ [])) c3)" by blast
  from rseq_group [OF r3 body] obtain b c4 y where
    4: "snd c3 = b @ snd c4" "z = (fst y, (2, b) # snd y)" and r4: "y \<in> set (re_results (rseq ([ws] @ [])) c4)" by blast
  from rseq_plain [OF shape_plain(3) r4] obtain w5 c5 where
    5: "snd c4 = w5 @ snd c5" "squash w5 = []" and r5: "y \<in> set (re_results (rseq []) c5)" by auto
  from r5 have y: "y = (c5, [])" by simp
  with 2 4 x have g: "g = [(1, a), (2, b)]" and e: "snd c5 = []" by simp_all
  from g have "group 1 g = a" "group 2 g = b" by (simp_all add: group_def)
  with 1 2(1) 3 4(1) 5 e show ?thesis by simp
qed

lemma two_checks:
  "(case a of None \<Rightarrow> Inl e | Some m \<Rightarrow> if f m = None then Inl e1 else if h m = None then Inl e2 else Inr ()) = Inr () \<longleftrightarrow>
     (\<exists>m x y. a = Some m \<and> f m = Some x \<and> h m = Some y)"
  by (cases a) (auto split: if_splits)

lemma audited_hook_text:
  assumes "validate_hook_text t = Inr ()"
  shows "squash t = audited_code"
proof -
  from assms obtain g g1 g2 where m: "re_fullmatch modern_shape_pattern t = Some g"
    "re_fullmatch audited_shape_pattern (group 1 g) = Some g1" "re_fullmatch audited_registration_pattern (group 2 g) = Some g2"
    unfolding validate_hook_text_def two_checks by blast
  have "literals shape_head = ''#include<linux/lsm_hooks.h>'' @ ''staticstructsecurity_hook_listksu_hooks[]={''"
    "literals shape_middle = ''};'' @ ''void__initksu_lsm_hook_built_in_init(void)''" by code_simp+
  with modern_shape_squash [OF m(1)] audited_shape_squash [OF m(2)] audited_registration_squash [OF m(3)]
  show ?thesis by (simp only: audited_code_def append_assoc)
qed

subsection \<open>The audit\<close>

abbreviation hook_file :: "path \<Rightarrow> path" where
  "hook_file k \<equiv> path_join k ''hook/lsm_hooks.c''"

definition audit_passed :: "fs \<Rightarrow> path \<Rightarrow> string \<Rightarrow> string \<Rightarrow> bool" where
  "audit_passed fs k source branch \<longleftrightarrow>
     extract_resukisu_modern_lsm_branch (hook_file k) source = Inr branch \<and>
     squash (collapse_c_line_continuations (mask_c_comments branch)) = audited_code \<and>
     filter (\<lambda>p. audited_source fs k p \<and> re_count registration_pattern (joined_code fs p) \<noteq> 0) (rglob_sorted fs k) = [hook_file k] \<and>
     re_count registration_pattern (joined_code fs (hook_file k)) = 2 \<and>
     list_all (\<lambda>p. audited_source fs k p \<longrightarrow> re_search token_paste_pattern (joined_code fs p) = None) (rglob_sorted fs k)"

lemma query_audit: "query (validate_resukisu_runtime_lsm_hooks k)"
  unfolding validate_resukisu_runtime_lsm_hooks_def Let_def by (intro queries)

lemma audit_sound:
  assumes "validate_resukisu_runtime_lsm_hooks k s = (Inr u, s')"
  shows "\<exists>raw branch. stat (fsys s) (hook_file k) = Some (FileN raw) \<and>
    audit_passed (fsys s) k (universal_newlines raw) branch"
proof -
  from assms obtain raw branch found where 1: "read (hook_file k) s = (Inr raw, s)"
    and 2: "extract_resukisu_modern_lsm_branch (hook_file k) raw = Inr branch"
    and 3: "validate_hook_text (collapse_c_line_continuations (mask_c_comments branch)) = Inr ()"
    and 4: "resukisu_registration_sources (fsys s) k = Inr found" and 5: "found = [(hook_file k, 2)]"
    unfolding validate_resukisu_runtime_lsm_hooks_def Let_def
    using queryD [OF query_read [of "hook_file k"], of s]
    by (auto simp: bind_ok lift_def gets_def raise_when_def raise_def split: if_splits)
  from 1 read_outcome [of s "hook_file k"] obtain t where t: "stat (fsys s) (hook_file k) = Some (FileN t)"
    "raw = universal_newlines t" by auto
  from registration_loop_sound [OF 4 [unfolded resukisu_registration_sources_def]] 5 have
    "filter (\<lambda>p. audited_source (fsys s) k p \<and> re_count registration_pattern (joined_code (fsys s) p) \<noteq> 0)
       (rglob_sorted (fsys s) k) = [hook_file k]"
    "re_count registration_pattern (joined_code (fsys s) (hook_file k)) = 2"
    "list_all (\<lambda>p. audited_source (fsys s) k p \<longrightarrow> re_search token_paste_pattern (joined_code (fsys s) p) = None)
       (rglob_sorted (fsys s) k)"
    by (auto simp: Cons_eq_map_conv)
  with 2 t audited_hook_text [OF 3] show ?thesis unfolding audit_passed_def by blast
qed

subsection \<open>The policy\<close>

lemma supported_version_parsed:
  assumes "v \<in> set SUPPORTED_KERNELS"
  obtains major minor where "parse_version v = Inr (major, minor)" "major > 6 \<or> major = 6 \<and> minor \<ge> 8 \<longleftrightarrow> v = ''6.12''"
proof -
  have "list_all (\<lambda>v. case parse_version v of Inl e \<Rightarrow> False
      | Inr (major, minor) \<Rightarrow> (major > 6 \<or> major = 6 \<and> minor \<ge> 8) = (v = ''6.12'')) SUPPORTED_KERNELS" by code_simp
  with assms have "case parse_version v of Inl e \<Rightarrow> False
      | Inr (major, minor) \<Rightarrow> (major > 6 \<or> major = 6 \<and> minor \<ge> 8) = (v = ''6.12'')"
    unfolding list_all_iff by blast
  then show ?thesis by (cases "parse_version v") (auto intro: that)
qed

definition audited_line :: "layout \<Rightarrow> bool" where
  "audited_line l \<longleftrightarrow> variant l = ''resukisu'' \<and> version l \<noteq> ''6.12''"

lemma tail_policy_cases:
  assumes "version l \<in> set SUPPORTED_KERNELS"
  shows "runtime_ksu_tail_policy l =
    (if audited_line l then bind (validate_resukisu_runtime_lsm_hooks (ksu l)) (\<lambda>_. ret RUNTIME_KSU_TAIL_RESUKISU_SUSFS)
     else ret RUNTIME_KSU_TAIL_NEVER)"
proof -
  from supported_version_parsed [OF assms] obtain a b where
    p: "parse_version (version l) = Inr (a, b)" "a > 6 \<or> a = 6 \<and> b \<ge> 8 \<longleftrightarrow> version l = ''6.12''" .
  have lift: "bind (lift (Inr x)) f = f x" for x :: 'x and f :: "'x \<Rightarrow> 'y io"
    by (rule ext) (simp add: bind_def lift_def)
  show ?thesis unfolding runtime_ksu_tail_policy_def audited_line_def p(1) lift prod.case p(2) by auto
qed



end
