(* ===== verification/Lexer_Laws.thy ===== *)
theory Lexer_Laws
  imports C_Mask Regex_Class
begin

text \<open>
  The masks are built on one regular expression for C comments and literals. Here it is compared with a
  scanner written by hand: a comment or literal is recognised at the position where it opens, is skipped as a whole
  when it is terminated, and otherwise its opening character is ordinary text.
\<close>

subsection \<open>A scanner for comments and literals\<close>

text \<open>The number of characters up to the end of a literal or block comment, behind its opening.\<close>

fun literal_end :: "char \<Rightarrow> string \<Rightarrow> nat option" where
  "literal_end q [] = None"
| "literal_end q (c # cs) =
     (if c = q then Some 1
      else if c = BSL then (case cs of [] \<Rightarrow> None | d # ds \<Rightarrow> map_option (\<lambda>n. n + 2) (literal_end q ds))
      else map_option Suc (literal_end q cs))"

fun comment_end :: "string \<Rightarrow> nat option" where
  "comment_end [] = None"
| "comment_end (c # cs) = (if prefix ''*/'' (c # cs) then Some 2 else map_option Suc (comment_end cs))"

definition lexeme_length :: "string \<Rightarrow> nat option" where
  "lexeme_length s =
     (case s of
        [] \<Rightarrow> None
      | c # cs \<Rightarrow>
          if c = DQ \<or> c = SQ then map_option Suc (literal_end c cs)
          else if prefix ''//'' s then Some (2 + length (takeWhile (\<lambda>c. c \<noteq> LF) (drop 2 s)))
          else if prefix ''/*'' s then map_option (\<lambda>n. n + 2) (comment_end (drop 2 s))
          else None)"

lemma lexeme_length_pos: "lexeme_length s = Some n \<Longrightarrow> 0 < n \<and> s \<noteq> []"
  by (auto simp: lexeme_length_def split: list.splits if_splits)

function scan_lexemes :: "(string \<Rightarrow> string) \<Rightarrow> string \<Rightarrow> string" where
  "scan_lexemes f s =
     (case lexeme_length s of
        Some n \<Rightarrow> f (take n s) @ scan_lexemes f (drop n s)
      | None \<Rightarrow> (case s of [] \<Rightarrow> [] | c # cs \<Rightarrow> c # scan_lexemes f cs))"
  by pat_completeness auto
termination
  by (relation "measure (\<lambda>(f, s). length s)") (auto dest: lexeme_length_pos)

declare scan_lexemes.simps [simp del]

subsection \<open>The pattern finds what the scanner finds\<close>

lemma star_seq_step:
  assumes "re_results a c = [(d, [])]" "length (snd d) < length (snd c)"
  shows "re_results (RSeq (RStar a) b) c = re_results (RSeq (RStar a) b) d @ re_results b c"
  using assms by (simp add: iter_greedy.simps [of _ c])

lemma star_seq_stop: "re_results a c = [] \<Longrightarrow> re_results (RSeq (RStar a) b) c = re_results b c"
  by (simp add: iter_greedy.simps [of _ c])

lemma lazy_seq_step:
  assumes "re_results a c = [(d, [])]" "length (snd d) < length (snd c)"
  shows "re_results (RSeq (RLazy a) b) c = re_results b c @ re_results (RSeq (RLazy a) b) d"
  using assms by (simp add: iter_lazy.simps [of _ c])

lemma lazy_seq_stop: "re_results a c = [] \<Longrightarrow> re_results (RSeq (RLazy a) b) c = re_results b c"
  by (simp add: iter_lazy.simps [of _ c])

lemma quoted_tail_results:
  assumes "q \<noteq> BSL"
  shows "re_results (RSeq (RStar (RAlt (RSeq (RLit [BSL]) rany) (RCls (\<lambda>c. c \<noteq> q \<and> c \<noteq> BSL)))) (RLit [q])) (p, s) =
    (case literal_end q s of None \<Rightarrow> [] | Some n \<Rightarrow> [(adv n (p, s), [])])"
  using assms
proof (induction q s arbitrary: p rule: literal_end.induct)
  case (1 q)
  have *: "re_results (RAlt (RSeq (RLit [BSL]) rany) (RCls (\<lambda>c. c \<noteq> q \<and> c \<noteq> BSL))) (p, []) = []"
    by (simp add: rany_def)
  show ?case unfolding star_seq_stop [OF *] by simp
next
  case (2 q c cs)
  let ?a = "RAlt (RSeq (RLit [BSL]) rany) (RCls (\<lambda>c. c \<noteq> q \<and> c \<noteq> BSL))"
  consider "c = q" | "c = BSL" "cs = []" | d ds where "c \<noteq> q" "c = BSL" "cs = d # ds" | "c \<noteq> q" "c \<noteq> BSL"
    by (cases cs) auto
  then show ?case
  proof cases
    case 1
    then have *: "re_results ?a (p, c # cs) = []" using "2.prems" by simp
    show ?thesis unfolding star_seq_stop [OF *] using 1 by (simp add: adv_def)
  next
    case 2
    then have *: "re_results ?a (p, c # cs) = []" by (simp add: rany_def)
    show ?thesis unfolding star_seq_stop [OF *] using 2 \<open>q \<noteq> BSL\<close> by simp
  next
    case (3 d ds)
    then have *: "re_results ?a (p, c # cs) = [((Some d, ds), [])]" by (simp add: rany_def add_groups_def)
    have "re_results (RSeq (RStar ?a) (RLit [q])) (Some d, ds) =
        (case literal_end q ds of None \<Rightarrow> [] | Some n \<Rightarrow> [(adv n (Some d, ds), [])])"
      by (rule "2.IH"(1)) (use 3 "2.prems" in simp_all)
    then show ?thesis
      using star_seq_step [OF *, of "RLit [q]"] 3 by (simp add: adv_Cons split: option.split del: re_results.simps(3))
  next
    case 4
    then have *: "re_results ?a (p, c # cs) = [((Some c, cs), [])]" by (simp add: rany_def)
    have "re_results (RSeq (RStar ?a) (RLit [q])) (Some c, cs) =
        (case literal_end q cs of None \<Rightarrow> [] | Some n \<Rightarrow> [(adv n (Some c, cs), [])])"
      by (rule "2.IH"(2)) (use 4 "2.prems" in simp_all)
    then show ?thesis
      using star_seq_step [OF *, of "RLit [q]"] 4 by (simp add: adv_Cons split: option.split del: re_results.simps(3))
  qed
qed

lemma comment_tail_results:
  "\<exists>rest. re_results (RSeq (RLazy rany) (RLit ''*/'')) (p, s) =
    (case comment_end s of None \<Rightarrow> [] | Some n \<Rightarrow> (adv n (p, s), []) # rest)"
proof (induction s arbitrary: p)
  case Nil
  have *: "re_results rany (p, []) = []" by (simp add: rany_def)
  show ?case unfolding lazy_seq_stop [OF *] by simp
next
  case (Cons c cs)
  have "re_results rany (p, c # cs) = [((Some c, cs), [])]" by (simp add: rany_def)
  moreover have "adv 2 (p, c # cs) = adv (Suc 0) (Some c, cs)" by (simp add: numeral_2_eq_2 adv_Cons)
  ultimately show ?case using lazy_seq_step [of rany "(p, c # cs)" "(Some c, cs)" "RLit ''*/''"] Cons.IH [of "Some c"]
    by (auto simp: results_lit adv_Cons split: option.splits simp del: re_results.simps(1,3) prefix_code)
qed

lemma re_first_lexeme:
  "re_first C_LEXEME_PATTERN (p, s) = map_option (\<lambda>n. (adv n (p, s), [])) (lexeme_length s)"
proof -
  have quoted: "re_results (quoted_pattern q) (p, s) = (case s of [] \<Rightarrow> [] | c # cs \<Rightarrow>
      if c = q then (case literal_end q cs of None \<Rightarrow> [] | Some n \<Rightarrow> [(adv (Suc n) (p, s), [])]) else [])"
    if "q \<noteq> BSL" for q
    unfolding quoted_pattern_def rseq.simps results_seq_lit
    using quoted_tail_results [OF that, of "Some q" "tl s"]
    by (cases s) (auto simp: adv_Cons split: option.split simp del: re_results.simps(3))
  have line: "\<exists>rest. re_results line_comment_pattern (p, s) = (if prefix ''//'' s
      then (adv (2 + length (takeWhile (\<lambda>c. c \<noteq> LF) (drop 2 s))) (p, s), []) # rest else [])"
  proof (cases "prefix ''//'' s")
    case True
    then have "2 \<le> length s" by (auto dest: prefix_length_le)
    moreover have "length ''//'' = 2" by simp
    ultimately show ?thesis using True unfolding line_comment_pattern_def results_seq_lit results_star_class
      by (simp add: adv_adv numeral_2_eq_2)
  next
    case False
    then show ?thesis unfolding line_comment_pattern_def results_seq_lit by simp
  qed
  have block: "\<exists>rest. re_results block_comment_pattern (p, s) = (if prefix ''/*'' s
      then (case comment_end (drop 2 s) of None \<Rightarrow> [] | Some n \<Rightarrow> (adv (n + 2) (p, s), []) # rest) else [])"
  proof (cases "prefix ''/*'' s")
    case True
    then have "2 \<le> length s" by (auto dest: prefix_length_le)
    moreover obtain q where q: "adv 2 (p, s) = (q, drop 2 s)" by (simp add: adv_def)
    ultimately have "adv n (q, drop 2 s) = adv (n + 2) (p, s)" for n
      using adv_adv [of 2 "(p, s)" n] by (simp add: add.commute)
    then have adv2: "adv n (q, drop 2 s) = adv (n + 2) (p, s)" for n .
    have two: "length ''/*'' = 2" by simp
    show ?thesis using True comment_tail_results [of q "drop 2 s"]
      unfolding block_comment_pattern_def rseq.simps results_seq_lit snd_conv two q adv2 by (simp only: if_True)
  next
    case False
    then show ?thesis unfolding block_comment_pattern_def rseq.simps results_seq_lit by simp
  qed
  obtain r1 r2 where
    "re_results line_comment_pattern (p, s) = (if prefix ''//'' s
      then (adv (2 + length (takeWhile (\<lambda>c. c \<noteq> LF) (drop 2 s))) (p, s), []) # r1 else [])"
    "re_results block_comment_pattern (p, s) = (if prefix ''/*'' s
      then (case comment_end (drop 2 s) of None \<Rightarrow> [] | Some n \<Rightarrow> (adv (n + 2) (p, s), []) # r2) else [])"
    using line block by blast
  with quoted [of DQ] quoted [of SQ] show ?thesis
    unfolding re_first_def C_LEXEME_PATTERN_def ralt.simps re_results.simps(4) lexeme_length_def
    by (cases s) (auto split: option.split)
qed

text \<open>Substitution is the same scan.\<close>

lemma literal_end_le: "literal_end q s = Some n \<Longrightarrow> n \<le> length s"
  by (induction q s arbitrary: n rule: literal_end.induct) (fastforce split: if_splits list.splits)+

lemma comment_end_le: "comment_end s = Some n \<Longrightarrow> n \<le> length s"
  by (induction s arbitrary: n rule: comment_end.induct) (auto split: if_splits dest: prefix_length_le)

lemma lexeme_length_le:
  assumes "lexeme_length s = Some n"
  shows "n \<le> length s"
proof -
  have two: "prefix ''//'' s \<Longrightarrow> 2 \<le> length s" "prefix ''/*'' s \<Longrightarrow> 2 \<le> length s" by (auto dest: prefix_length_le)
  obtain c cs where s: "s = c # cs" using lexeme_length_pos [OF assms] by (cases s) auto
  from assms consider m where "literal_end c cs = Some m" "n = Suc m"
    | "prefix ''//'' s" "n = 2 + length (takeWhile (\<lambda>c. c \<noteq> LF) (drop 2 s))"
    | m where "prefix ''/*'' s" "comment_end (drop 2 s) = Some m" "n = m + 2"
    unfolding lexeme_length_def by (auto simp: s split: if_splits)
  then show ?thesis
  proof cases
    case 1
    then show ?thesis using literal_end_le by (simp add: s)
  next
    case 2
    then show ?thesis using two(1) length_takeWhile_le [of "\<lambda>c. c \<noteq> LF" "drop 2 s"] by simp
  next
    case 3
    then show ?thesis using two(2) comment_end_le [of "drop 2 s" m] by simp
  qed
qed

lemma re_sub_at_lexemes: "re_sub_at C_LEXEME_PATTERN f (p, s) = scan_lexemes f s"
proof (induction s arbitrary: p rule: measure_induct_rule [of length])
  case (less s)
  show ?case
  proof (cases "lexeme_length s")
    case None
    then show ?thesis using less.IH
      by (subst re_sub_at.simps, subst scan_lexemes.simps) (cases s; simp add: re_first_lexeme)
  next
    case (Some n)
    then have n: "0 < n" "n \<le> length s" "s \<noteq> []" using lexeme_length_pos [OF Some] lexeme_length_le by auto
    obtain q where q: "adv n (p, s) = (q, drop n s)" by (simp add: adv_def)
    have "re_sub_at C_LEXEME_PATTERN f (q, drop n s) = scan_lexemes f (drop n s)"
      by (rule less.IH) (use n in simp)
    moreover have "consumed (p, s) ((q, drop n s), []) = n" using n by (simp add: consumed_def)
    ultimately show ?thesis using n Some
      by (subst re_sub_at.simps, subst scan_lexemes.simps) (simp add: re_first_lexeme q)
  qed
qed

subsection \<open>Properties\<close>

text \<open>
  C6: the comment and literal mask is the hand-written scan. \<^verbatim>\<open>mask_c_comments_and_literals\<close> blanks exactly the
  terminated strings, character constants and comments that a left-to-right scan finds,
  honouring backslash escapes and never opening a comment in a string or a string in a comment;
  \<^verbatim>\<open>mask_c_comments\<close> does the same scan and blanks only the comments.
\<close>

theorem masks_are_scans:
  "mask_c_comments_and_literals t = scan_lexemes masked_lexeme t \<and>
   mask_c_comments t = scan_lexemes (\<lambda>token. if is_comment_token token then masked_lexeme token else token) t"
  by (simp add: mask_c_comments_and_literals_def mask_c_comments_def re_sub_def start_cursor_def re_sub_at_lexemes)

end
