(* ===== verification/Cond_Laws.thy ===== *)
theory Cond_Laws
  imports C_Mask Regex_Lang
begin

text \<open>
  The evaluator of constant \<^verbatim>\<open>#if\<close> conditions against a grammar: \<open>cond_value s b\<close> derives the truth value \<open>b\<close> of the
  expression \<open>s\<close>, built from integer constants, parentheses, negation and white space.
\<close>

subsection \<open>Integer constants\<close>

text \<open>The digits of a constant: without its sign and its suffix.\<close>

definition integer_body :: "string \<Rightarrow> string" where
  "integer_body s = (let t = (if s \<noteq> [] \<and> hd s \<in> set ''+-'' then tl s else s)
     in rev (dropWhile (\<lambda>c. c \<in> set ''uUlL'') (rev t)))"

definition integer_form :: "string \<Rightarrow> bool" where
  "integer_form b \<longleftrightarrow> (case b of
       [] \<Rightarrow> False
     | c # cs \<Rightarrow>
         if c = CHR ''0'' then
           (case cs of
              [] \<Rightarrow> True
            | x # ds \<Rightarrow>
                if x \<in> set ''xX'' then ds \<noteq> [] \<and> list_all (\<lambda>c. c \<in> set ''0123456789ABCDEFabcdef'') ds
                else if x \<in> set ''bB'' then ds \<noteq> [] \<and> list_all (\<lambda>c. c \<in> set ''01'') ds
                else list_all (\<lambda>c. c \<in> set ''01234567'') cs)
         else c \<in> set ''123456789'' \<and> list_all (\<lambda>c. c \<in> set ''0123456789'') cs)"

definition integer_nonzero :: "string \<Rightarrow> bool" where
  "integer_nonzero b \<longleftrightarrow>
     list_ex (\<lambda>c. c \<noteq> CHR ''0'') (if 2 \<le> length b \<and> b ! 1 \<in> set ''xXbB'' then drop 2 b else b)"

definition constant_truth :: "string \<Rightarrow> bool option" where
  "constant_truth s = (let b = integer_body s in if integer_form b then Some (integer_nonzero b) else None)"

text \<open>The words that the pattern for constants accepts.\<close>

lemma accepts_rchars [simp]: "accepts (rchars cs) w g \<longleftrightarrow> g = [] \<and> (\<exists>c\<in>set cs. w = [c])"
  by (auto simp: rchars_def)

lemma accepts_rchars_star [simp]: "accepts (RStar (rchars cs)) w g \<longleftrightarrow> g = [] \<and> list_all (\<lambda>c. c \<in> set cs) w"
  by (simp add: rchars_def)

lemma accepts_rchars_plus [simp]:
  "accepts (rplus (rchars cs)) w g \<longleftrightarrow> g = [] \<and> w \<noteq> [] \<and> list_all (\<lambda>c. c \<in> set cs) w"
  by (simp add: rchars_def)

lemma accepts_lit_seq: "accepts (RSeq (RLit s) r) w g \<longleftrightarrow> (\<exists>v. w = s @ v \<and> accepts r v g)"
  unfolding accepts_seq accepts_lit by (metis append_Nil)

lemma accepts_rchars_seq: "accepts (RSeq (rchars cs) r) w g \<longleftrightarrow> (\<exists>c v. w = c # v \<and> c \<in> set cs \<and> accepts r v g)"
  unfolding accepts_seq accepts_rchars by (metis append_Cons append_Nil)

definition prefixed :: "string \<Rightarrow> string \<Rightarrow> string \<Rightarrow> bool" where
  "prefixed xs ds w \<longleftrightarrow> (\<exists>x v. w = CHR ''0'' # x # v \<and> x \<in> set xs \<and> v \<noteq> [] \<and> list_all (\<lambda>c. c \<in> set ds) v)"

lemma accepts_prefixed:
  "accepts (rseq [RLit ''0'', rchars xs, rplus (rchars ds)]) w g \<longleftrightarrow> g = [] \<and> prefixed xs ds w"
  by (auto simp: accepts_lit_seq accepts_rchars_seq prefixed_def)

lemma accepts_digits:
  "accepts (RSeq (RLit ''0'') (RStar (rchars ds))) w g \<longleftrightarrow> g = [] \<and> (\<exists>v. w = CHR ''0'' # v \<and> list_all (\<lambda>c. c \<in> set ds) v)"
  "accepts (RSeq (rchars cs) (RStar (rchars ds))) w g \<longleftrightarrow> g = [] \<and> (\<exists>c v. w = c # v \<and> c \<in> set cs \<and> list_all (\<lambda>c. c \<in> set ds) v)"
  by (auto simp: accepts_lit_seq accepts_rchars_seq)

lemma integer_form_iff:
  "integer_form w \<longleftrightarrow> prefixed ''xX'' ''0123456789ABCDEFabcdef'' w \<or> prefixed ''bB'' ''01'' w \<or>
     (\<exists>v. w = CHR ''0'' # v \<and> list_all (\<lambda>c. c \<in> set ''01234567'') v) \<or>
     (\<exists>c v. w = c # v \<and> c \<in> set ''123456789'' \<and> list_all (\<lambda>c. c \<in> set ''0123456789'') v)"
proof (cases w)
  case (Cons c cs)
  show ?thesis
  proof (cases "c = CHR ''0''")
    case False
    then show ?thesis by (simp add: Cons integer_form_def prefixed_def)
  next
    case True
    then show ?thesis by (cases cs) (auto simp: Cons integer_form_def prefixed_def)
  qed
qed (simp add: integer_form_def prefixed_def)

definition sign :: "string \<Rightarrow> bool" where
  "sign s \<longleftrightarrow> s = [] \<or> s = ''+'' \<or> s = ''-''"

lemma accepts_sign: "accepts (RGrp 1 (ropt (rchars ''+-''))) w g \<longleftrightarrow> g = [(1, w)] \<and> sign w"
  by (auto simp: accepts_grp ropt_def sign_def)

lemma accepts_integer:
  "accepts integer_pattern s g \<longleftrightarrow> (\<exists>sg b suf. s = sg @ b @ suf \<and> sign sg \<and> integer_form b \<and>
     list_all (\<lambda>c. c \<in> set ''uUlL'') suf \<and> g = [(1, sg), (2, b)])"
proof -
  define B where "B = RGrp 2 (ralt [rseq [RLit ''0'', rchars ''xX'', rplus (rchars ''0123456789ABCDEFabcdef'')],
      rseq [RLit ''0'', rchars ''bB'', rplus (rchars ''01'')], RSeq (RLit ''0'') (RStar (rchars ''01234567'')),
      RSeq (rchars ''123456789'') (RStar (rchars ''0123456789''))])"
  have lit: "accepts B w g \<longleftrightarrow> g = [(2, w)] \<and> integer_form w" for w g
    unfolding B_def accepts_grp ralt.simps accepts_alt accepts_prefixed accepts_digits integer_form_iff by auto
  have "integer_pattern = RSeq (RGrp 1 (ropt (rchars ''+-''))) (RSeq B (RStar (rchars ''uUlL'')))"
    by (simp add: integer_pattern_def B_def)
  then have pat: "accepts integer_pattern s g \<longleftrightarrow>
      accepts (RSeq (RGrp 1 (ropt (rchars ''+-''))) (RSeq B (RStar (rchars ''uUlL'')))) s g" by simp
  have "accepts integer_pattern s g \<longleftrightarrow> (\<exists>sg t h. s = sg @ t \<and> g = (1, sg) # h \<and> sign sg \<and>
      accepts (RSeq B (RStar (rchars ''uUlL''))) t h)"
    unfolding pat accepts_seq [of "RGrp 1 _"] accepts_sign by (metis append_Cons append_Nil)
  also have "\<dots> \<longleftrightarrow> (\<exists>sg t h. s = sg @ t \<and> g = (1, sg) # h \<and> sign sg \<and>
      (\<exists>b suf. t = b @ suf \<and> h = [(2, b)] \<and> integer_form b \<and> list_all (\<lambda>c. c \<in> set ''uUlL'') suf))"
    unfolding accepts_seq [of B] lit accepts_rchars_star by (metis append_Nil2)
  finally show ?thesis by auto
qed

text \<open>The parts of a constant are determined by the text.\<close>

lemma integer_chars:
  assumes "integer_form b"
  shows "b \<noteq> []" "list_all (\<lambda>c. c \<in> set ''0123456789ABCDEFabcdefxX'') b"
proof -
  show "b \<noteq> []" using assms by (auto simp: integer_form_def)
  have sub: "list_all (\<lambda>c. c \<in> set ds) v \<Longrightarrow> set ds \<subseteq> set ''0123456789ABCDEFabcdefxX'' \<Longrightarrow>
      list_all (\<lambda>c. c \<in> set ''0123456789ABCDEFabcdefxX'') v" for ds v
    by (auto simp: list_all_iff simp del: set_simps)
  have sets: "set ''0123456789ABCDEFabcdef'' \<subseteq> set ''0123456789ABCDEFabcdefxX''"
    "set ''01'' \<subseteq> set ''0123456789ABCDEFabcdefxX''" "set ''01234567'' \<subseteq> set ''0123456789ABCDEFabcdefxX''"
    "set ''0123456789'' \<subseteq> set ''0123456789ABCDEFabcdefxX''" by simp_all
  have hds: "CHR ''0'' \<in> set ''0123456789ABCDEFabcdefxX''" "set ''xX'' \<subseteq> set ''0123456789ABCDEFabcdefxX''"
    "set ''bB'' \<subseteq> set ''0123456789ABCDEFabcdefxX''" "set ''123456789'' \<subseteq> set ''0123456789ABCDEFabcdefxX''" by simp_all
  show "list_all (\<lambda>c. c \<in> set ''0123456789ABCDEFabcdefxX'') b"
    using assms unfolding integer_form_iff prefixed_def
    by (elim disjE exE conjE; simp only: list.pred_inject(2)) (use hds sub sets in blast)+
qed

lemma integer_body_parts:
  assumes "sign sg" "integer_form b" "list_all (\<lambda>c. c \<in> set ''uUlL'') suf"
  shows "integer_body (sg @ b @ suf) = b"
proof -
  note chars = integer_chars [OF assms(2)]
  from chars obtain c cs where b: "b = c # cs" by (cases b) auto
  have "c \<noteq> CHR ''+''" "c \<noteq> CHR ''-''" using chars(2) by (auto simp: b)
  then have t: "(if sg @ b @ suf \<noteq> [] \<and> hd (sg @ b @ suf) \<in> set ''+-'' then tl (sg @ b @ suf) else sg @ b @ suf) = b @ suf"
    using assms(1) by (auto simp: sign_def b)
  have "last b \<in> set b" using chars(1) by simp
  then have "last b \<in> set ''0123456789ABCDEFabcdefxX''" using chars(2) by (simp only: list_all_iff)
  then have l: "last b \<notin> set ''uUlL''" by auto
  have "rev b = last b # rev (butlast b)" using chars(1) by (metis append_butlast_last_id rev_eq_Cons_iff rev_rev_ident)
  then have "dropWhile (\<lambda>c. c \<in> set ''uUlL'') (rev suf @ rev b) = rev b"
    using assms(3) l by (subst dropWhile_append2) (simp_all only: list_all_iff set_rev dropWhile.simps if_False)
  then show ?thesis unfolding integer_body_def Let_def t by simp
qed

text \<open>Which values are zero.\<close>

lemma int_base_zero:
  assumes "0 < base"
  shows "int_base base s = 0 \<longleftrightarrow> list_all (\<lambda>c. digit_value c = 0) s"
proof -
  have "0 \<le> a \<Longrightarrow> 0 \<le> foldl (\<lambda>a c. a * base + int (digit_value c)) a s \<and>
      (foldl (\<lambda>a c. a * base + int (digit_value c)) a s = 0 \<longleftrightarrow> a = 0 \<and> list_all (\<lambda>c. digit_value c = 0) s)" for a
  proof (induction s arbitrary: a)
    case (Cons c s)
    have "0 \<le> a * base + int (digit_value c)" using Cons.prems assms by simp
    from Cons.IH [OF this] show ?case using Cons.prems assms by (auto simp: add_nonneg_eq_0_iff)
  qed simp
  then show ?thesis by (simp add: int_base_def)
qed

lemma digit_zero: "list_all (\<lambda>c. c \<in> set ''0123456789ABCDEFabcdef'') s \<Longrightarrow>
    list_all (\<lambda>c. digit_value c = 0) s \<longleftrightarrow> \<not> list_ex (\<lambda>c. c \<noteq> CHR ''0'') s"
proof (induction s)
  case (Cons c s)
  have "\<forall>c\<in>set ''0123456789ABCDEFabcdef''. digit_value c = 0 \<longleftrightarrow> c = CHR ''0''" by code_simp
  then have "digit_value c = 0 \<longleftrightarrow> c = CHR ''0''" using Cons.prems by (simp only: list.pred_inject(2) simp_thms)
  moreover have "list_all (\<lambda>c. digit_value c = 0) s \<longleftrightarrow> \<not> list_ex (\<lambda>c. c \<noteq> CHR ''0'') s"
    using Cons.IH Cons.prems by (simp only: list.pred_inject(2) simp_thms)
  ultimately show ?case by simp
qed simp

lemma value_zero:
  assumes "0 < base" "list_all (\<lambda>c. c \<in> set ds) s" "set ds \<subseteq> set ''0123456789ABCDEFabcdef''"
  shows "int_base base s \<noteq> 0 \<longleftrightarrow> list_ex (\<lambda>c. c \<noteq> CHR ''0'') s"
proof -
  have "list_all (\<lambda>c. c \<in> set ''0123456789ABCDEFabcdef'') s"
    using assms(2) by (rule list.pred_mono_strong) (use assms(3) in blast)
  then show ?thesis unfolding int_base_zero [OF assms(1)] by (simp only: digit_zero not_not)
qed

lemma literal_value_nonzero:
  assumes "integer_form b"
  shows "literal_value b \<noteq> 0 \<longleftrightarrow> integer_nonzero b"
proof -
  have sets: "set ''01'' \<subseteq> set ''0123456789ABCDEFabcdef''" "set ''01234567'' \<subseteq> set ''0123456789ABCDEFabcdef''"
    "set ''0123456789'' \<subseteq> set ''0123456789ABCDEFabcdef''" by simp_all
  have low: "py_lower_char (CHR ''0'') = CHR ''0''" "\<forall>c\<in>set ''xX''. py_lower_char c = CHR ''x''"
    "\<forall>c\<in>set ''bB''. py_lower_char c = CHR ''b''" "\<forall>c\<in>set ''01234567''. py_lower_char c \<notin> set ''xb'' \<and> c \<notin> set ''xXbB''"
    "\<forall>c\<in>set ''123456789''. py_lower_char c \<noteq> CHR ''0'' \<and> c \<noteq> CHR ''0''" 
    "\<forall>c\<in>set ''0123456789''. c \<notin> set ''xXbB''" by code_simp+
  from assms consider
      (hex) x v where "b = CHR ''0'' # x # v" "x \<in> set ''xX''" "list_all (\<lambda>c. c \<in> set ''0123456789ABCDEFabcdef'') v"
    | (bin) x v where "b = CHR ''0'' # x # v" "x \<in> set ''bB''" "list_all (\<lambda>c. c \<in> set ''01'') v"
    | (oct) v where "b = CHR ''0'' # v" "list_all (\<lambda>c. c \<in> set ''01234567'') v"
    | (dec) c v where "b = c # v" "c \<in> set ''123456789''" "list_all (\<lambda>c. c \<in> set ''0123456789'') v"
    unfolding integer_form_iff prefixed_def by blast
  then show ?thesis
  proof cases
    case hex
    have "py_lower_char x = CHR ''x''" "x \<in> set ''xXbB''" using hex(2) low(2) by auto
    then have "literal_value b = int_base 16 v" "integer_nonzero b = list_ex (\<lambda>c. c \<noteq> CHR ''0'') v"
      by (simp_all add: literal_value_def integer_nonzero_def hex(1) py_lower_def low(1))
    with value_zero [OF _ hex(3), of 16] show ?thesis by simp
  next
    case bin
    have "py_lower_char x = CHR ''b''" "x \<in> set ''xXbB''" using bin(2) low(3) by auto
    then have "literal_value b = int_base 2 v" "integer_nonzero b = list_ex (\<lambda>c. c \<noteq> CHR ''0'') v"
      by (simp_all add: literal_value_def integer_nonzero_def bin(1) py_lower_def low(1))
    with value_zero [OF _ bin(3) sets(1), of 2] show ?thesis by simp
  next
    case oct
    show ?thesis
    proof (cases v)
      case Nil
      then show ?thesis by (simp add: oct literal_value_def integer_nonzero_def int_base_def digit_value_def py_lower_def low(1))
    next
      case (Cons d w)
      have "d \<in> set ''01234567''" using oct(2) by (simp only: Cons list.pred_inject(2))
      then have "py_lower_char d \<noteq> CHR ''x''" "py_lower_char d \<noteq> CHR ''b''" "d \<notin> set ''xXbB''" using low(4) by auto
      then have "literal_value b = int_base 8 (CHR ''0'' # v)" "integer_nonzero b = list_ex (\<lambda>c. c \<noteq> CHR ''0'') v"
        by (simp_all add: literal_value_def integer_nonzero_def oct(1) Cons py_lower_def low(1))
      moreover have "int_base 8 (CHR ''0'' # v) = int_base 8 v" by (simp add: int_base_def digit_value_def)
      ultimately show ?thesis using value_zero [OF _ oct(2) sets(2), of 8] by simp
    qed
  next
    case dec
    have c: "py_lower_char c \<noteq> CHR ''0''" "c \<noteq> CHR ''0''" using dec(2) low(5) by auto
    have "list_all (\<lambda>c. c \<in> set ''0123456789'') b" using dec by auto
    note z = value_zero [OF _ this sets(3), of 10]
    have "literal_value b = int_base 10 b" using c by (simp add: literal_value_def dec(1) py_lower_def)
    moreover have "integer_nonzero b = list_ex (\<lambda>c. c \<noteq> CHR ''0'') b"
    proof (cases v)
      case (Cons d w)
      have "d \<in> set ''0123456789''" using dec(3) by (simp only: Cons list.pred_inject(2))
      then have "d \<notin> set ''xXbB''" using low(6) by blast
      then show ?thesis by (simp add: integer_nonzero_def dec(1) Cons)
    qed (simp add: integer_nonzero_def dec(1))
    ultimately show ?thesis using z by simp
  qed
qed

lemma integer_split: "\<exists>sg suf. s = sg @ integer_body s @ suf \<and> sign sg \<and> list_all (\<lambda>c. c \<in> set ''uUlL'') suf"
proof -
  let ?P = "\<lambda>c. c \<in> set ''uUlL''"
  obtain sg t where t: "s = sg @ t" "sign sg" "(if s \<noteq> [] \<and> hd s \<in> set ''+-'' then tl s else s) = t"
  proof (cases "s \<noteq> [] \<and> hd s \<in> set ''+-''")
    case True
    then have "s = [hd s] @ tl s" "sign [hd s]" by (auto simp: sign_def)
    with True that [of "[hd s]" "tl s"] show thesis by simp
  next
    case False
    with that [of "[]" s] show thesis by (auto simp: sign_def)
  qed
  have "t = rev (dropWhile ?P (rev t)) @ rev (takeWhile ?P (rev t))"
    by (metis rev_append rev_rev_ident takeWhile_dropWhile_id)
  moreover have "list_all ?P (rev (takeWhile ?P (rev t)))" by (auto simp: list_all_iff dest: set_takeWhileD simp del: list.set)
  ultimately show ?thesis using t unfolding integer_body_def Let_def t(3) by metis
qed

lemma literal_truth_constant: "literal_truth s = constant_truth s"
proof (cases "re_fullmatch integer_pattern s")
  case None
  from fullmatch_none [OF None] have "\<not> integer_form (integer_body s)"
    unfolding accepts_integer using integer_split [of s] by blast
  with None show ?thesis by (simp add: literal_truth_def constant_truth_def)
next
  case (Some g)
  have "anchor_free integer_pattern" by (simp add: integer_pattern_def rchars_def ropt_def rplus_def)
  from fullmatch_accepts [OF this Some] obtain sg b suf where
    s: "s = sg @ b @ suf" "sign sg" "integer_form b" "list_all (\<lambda>c. c \<in> set ''uUlL'') suf" and g: "g = [(1, sg), (2, b)]"
    unfolding accepts_integer by blast
  have "integer_body s = b" unfolding s(1) by (rule integer_body_parts [OF s(2-4)])
  then show ?thesis
    using literal_value_nonzero [OF s(3)] s(3) Some
    by (simp add: literal_truth_def constant_truth_def g group_def Let_def)
qed

subsection \<open>Conditions\<close>

inductive cond_value :: "string \<Rightarrow> bool \<Rightarrow> bool" where
  literal: "constant_truth s = Some b \<Longrightarrow> cond_value s b"
| paren: "cond_value s b \<Longrightarrow> cond_value (''('' @ s @ '')'') b"
| neg: "cond_value s b \<Longrightarrow> cond_value (''!'' @ s) (\<not> b)"
| space: "cond_value s b \<Longrightarrow> list_all py_space u \<Longrightarrow> list_all py_space v \<Longrightarrow> cond_value (u @ s @ v) b"

text \<open>Stripping.\<close>

lemma strip_frame: "\<exists>u v. s = u @ py_strip s @ v \<and> list_all py_space u \<and> list_all py_space v"
proof -
  let ?t = "dropWhile py_space s"
  have "?t = py_strip s @ rev (takeWhile py_space (rev ?t))"
    by (metis py_lstrip_def py_rstrip_def py_strip_def rev_append rev_rev_ident takeWhile_dropWhile_id)
  moreover have "s = takeWhile py_space s @ ?t" by simp
  ultimately have "s = takeWhile py_space s @ py_strip s @ rev (takeWhile py_space (rev ?t))" by metis
  moreover have "list_all py_space (takeWhile py_space s)" "list_all py_space (rev (takeWhile py_space (rev ?t)))"
    by (auto simp: list_all_iff dest: set_takeWhileD)
  ultimately show ?thesis by blast
qed

lemma strip_blanks:
  assumes "list_all py_space u" "list_all py_space v"
  shows "py_strip (u @ s @ v) = py_strip s"
proof -
  have u: "dropWhile py_space (u @ t) = dropWhile py_space t" for t
    using assms(1) by (subst dropWhile_append2) (auto simp: list_all_iff)
  have v: "dropWhile py_space (rev v @ t) = dropWhile py_space t" for t
    using assms(2) by (subst dropWhile_append2) (auto simp: list_all_iff)
  show ?thesis
  proof (cases "list_all py_space s")
    case True
    then have "py_lstrip (u @ s @ v) = []" "py_lstrip s = []"
      unfolding py_lstrip_def u using assms(2) by (auto simp: list_all_iff)
    then show ?thesis by (simp only: py_strip_def)
  next
    case False
    then have "dropWhile py_space (s @ v) = dropWhile py_space s @ v" by (auto simp: list_all_iff intro: dropWhile_append1)
    then show ?thesis by (simp add: py_strip_def py_lstrip_def py_rstrip_def u v)
  qed
qed

lemma strip_strip: "py_strip (py_strip s) = py_strip s"
  using strip_frame [of s] strip_blanks by metis

lemma strip_rstrip: "py_strip (py_rstrip s) = py_strip s"
proof -
  have "s = [] @ py_rstrip s @ rev (takeWhile py_space (rev s))"
    by (metis append_Nil py_rstrip_def rev_append rev_rev_ident takeWhile_dropWhile_id)
  moreover have "list_all py_space (rev (takeWhile py_space (rev s)))" by (auto simp: list_all_iff dest: set_takeWhileD)
  ultimately show ?thesis using strip_blanks [of "[]"] by (metis list.pred_inject(1))
qed

lemma strip_bang: "py_strip (''!'' @ s) = ''!'' @ py_rstrip s"
proof -
  have "\<not> py_space (CHR ''!'')" by (simp add: py_space_def)
  moreover from this have "dropWhile py_space (t @ ''!'') = dropWhile py_space t @ ''!''" for t
    by (induction t) simp_all
  ultimately show ?thesis by (simp add: py_strip_def py_lstrip_def py_rstrip_def)
qed

lemma strip_id: "s \<noteq> [] \<Longrightarrow> \<not> py_space (hd s) \<Longrightarrow> \<not> py_space (last s) \<Longrightarrow> py_strip s = s"
proof -
  assume s: "s \<noteq> []" "\<not> py_space (hd s)" "\<not> py_space (last s)"
  then have "dropWhile py_space s = s" by (cases s) auto
  moreover have "dropWhile py_space (rev s) = rev s" using s by (cases "rev s") (auto simp: hd_rev [symmetric])
  ultimately show ?thesis by (simp add: py_strip_def py_lstrip_def py_rstrip_def)
qed

text \<open>The evaluator depends only on what is left when blanks and outer parentheses are removed.\<close>

lemma truth_strip: "preprocessor_integer_truth (py_strip s) = preprocessor_integer_truth s"
  by (simp add: preprocessor_integer_truth.simps [of s] preprocessor_integer_truth.simps [of "py_strip s"] strip_strip)

lemma truth_blanks:
  "list_all py_space u \<Longrightarrow> list_all py_space v \<Longrightarrow>
    preprocessor_integer_truth (u @ s @ v) = preprocessor_integer_truth s"
  by (simp add: preprocessor_integer_truth.simps [of s] preprocessor_integer_truth.simps [of "u @ s @ v"] strip_blanks)

lemma scan_plain:
  "list_all (\<lambda>c. c \<noteq> CHR ''('' \<and> c \<noteq> CHR '')'') s \<Longrightarrow> 0 \<le> d \<Longrightarrow> paren_scan d (s @ t) = paren_scan d t"
  by (induction s) auto

lemma constant_chars:
  assumes "constant_truth s = Some b"
  shows "s \<noteq> []" "list_all (\<lambda>c. c \<in> set ''0123456789ABCDEFabcdefxX+-uUlL'') s"
proof -
  from assms have f: "integer_form (integer_body s)" by (auto simp: constant_truth_def Let_def split: if_splits)
  note chars = integer_chars [OF f]
  obtain sg suf where s: "s = sg @ integer_body s @ suf" "sign sg" "list_all (\<lambda>c. c \<in> set ''uUlL'') suf"
    using integer_split [of s] by blast
  show "s \<noteq> []" using s(1) chars(1) by auto
  have sets: "set ''0123456789ABCDEFabcdefxX'' \<subseteq> set ''0123456789ABCDEFabcdefxX+-uUlL''"
    "set ''uUlL'' \<subseteq> set ''0123456789ABCDEFabcdefxX+-uUlL''" by simp_all
  have "list_all (\<lambda>c. c \<in> set ''0123456789ABCDEFabcdefxX+-uUlL'') sg" using s(2) by (auto simp: sign_def)
  moreover have "list_all (\<lambda>c. c \<in> set ''0123456789ABCDEFabcdefxX+-uUlL'') (integer_body s)"
    using chars(2) by (rule list.pred_mono_strong) (use sets in blast)
  moreover have "list_all (\<lambda>c. c \<in> set ''0123456789ABCDEFabcdefxX+-uUlL'') suf"
    using s(3) by (rule list.pred_mono_strong) (use sets in blast)
  ultimately show "list_all (\<lambda>c. c \<in> set ''0123456789ABCDEFabcdefxX+-uUlL'') s"
    by (subst s(1)) (simp only: list_all_append)
qed

lemma constant_char_plain:
  "c \<in> set ''0123456789ABCDEFabcdefxX+-uUlL'' \<Longrightarrow> c \<noteq> CHR ''('' \<and> c \<noteq> CHR '')'' \<and> c \<noteq> CHR ''!'' \<and> \<not> py_space c"
proof -
  have "\<forall>c\<in>set ''0123456789ABCDEFabcdefxX+-uUlL''. c \<noteq> CHR ''('' \<and> c \<noteq> CHR '')'' \<and> c \<noteq> CHR ''!'' \<and> \<not> py_space c"
    by code_simp
  then show "c \<in> set ''0123456789ABCDEFabcdefxX+-uUlL'' \<Longrightarrow> ?thesis" by blast
qed

lemma space_plain: "py_space c \<Longrightarrow> c \<noteq> CHR ''('' \<and> c \<noteq> CHR '')''"
  by (auto simp: py_space_def)

lemma cond_balanced: "cond_value s b \<Longrightarrow> 1 \<le> d \<Longrightarrow> paren_scan d (s @ t) = paren_scan d t"
proof (induction arbitrary: d t rule: cond_value.induct)
  case (literal s b)
  have "list_all (\<lambda>c. c \<noteq> CHR ''('' \<and> c \<noteq> CHR '')'') s"
    using constant_chars(2) [OF literal(1)] by (rule list.pred_mono_strong) (use constant_char_plain in blast)
  then show ?case using literal.prems by (simp add: scan_plain)
next
  case (space s b u v)
  have "list_all (\<lambda>c. c \<noteq> CHR ''('' \<and> c \<noteq> CHR '')'') w" if "list_all py_space w" for w
    using that by (rule list.pred_mono_strong) (rule space_plain)
  then show ?case using space.IH space.prems space.hyps by (simp add: scan_plain)
qed simp_all

lemma strip_parens_paren: "cond_value s b \<Longrightarrow> strip_parens (''('' @ s @ '')'') = strip_parens (py_strip s)"
  using cond_balanced [of s b 1 "'')''"] suffixI [of "''('' @ s @ '')''" "''('' @ s" "'')''"]
  by (subst strip_parens.simps) simp

lemma truth_complete: "cond_value s b \<Longrightarrow> preprocessor_integer_truth s = Some b"
proof (induction rule: cond_value.induct)
  case (literal s b)
  note chars = constant_chars [OF literal]
  from chars(1) have hl: "hd s \<in> set s" "last s \<in> set s" by auto
  then have "hd s \<in> set ''0123456789ABCDEFabcdefxX+-uUlL''" "last s \<in> set ''0123456789ABCDEFabcdefxX+-uUlL''"
    using chars(2) by (simp_all only: list_all_iff)
  then have p: "hd s \<noteq> CHR ''(''" "hd s \<noteq> CHR ''!''" "\<not> py_space (hd s)" "\<not> py_space (last s)"
    using constant_char_plain by blast+
  then have "py_strip s = s" using chars(1) by (simp add: strip_id)
  moreover have "strip_parens s = Some s" using p(1) chars(1) by (subst strip_parens.simps) (cases s; simp)
  moreover have "\<not> prefix ''!'' s" using p(2) by (cases s) auto
  ultimately show ?case using literal by (simp add: preprocessor_integer_truth.simps [of s] literal_truth_constant)
next
  case (paren s b)
  have "py_strip (''('' @ s @ '')'') = ''('' @ s @ '')''" by (rule strip_id) (simp_all add: py_space_def)
  then have "preprocessor_integer_truth (''('' @ s @ '')'') = preprocessor_integer_truth s"
    unfolding preprocessor_integer_truth.simps [of s] preprocessor_integer_truth.simps [of "''('' @ s @ '')''"]
    by (simp only: strip_parens_paren [OF paren.hyps])
  with paren.IH show ?case by simp
next
  case (neg s b)
  have u: "py_strip (''!'' @ s) = ''!'' @ py_rstrip s" "py_strip (py_rstrip s) = py_strip s"
    using strip_bang strip_rstrip by blast+
  let ?u = "py_rstrip s"
  have "strip_parens (''!'' @ ?u) = Some (''!'' @ ?u)" by (subst strip_parens.simps) simp
  with u have "preprocessor_integer_truth (''!'' @ s) = map_option Not (preprocessor_integer_truth ?u)"
    by (subst preprocessor_integer_truth.simps) simp
  also have "preprocessor_integer_truth ?u = preprocessor_integer_truth s" using truth_strip u(2) by metis
  finally show ?case using neg.IH by simp
next
  case (space s b u v)
  then show ?case by (simp add: truth_blanks)
qed

lemma strip_parens_sound: "strip_parens c = Some d \<Longrightarrow> cond_value d b \<Longrightarrow> cond_value c b"
proof (induction c rule: strip_parens.induct)
  case (1 c)
  show ?case
  proof (cases "strip_parens c = Some c")
    case True
    with "1.prems" show ?thesis by simp
  next
    case False
    with "1.prems"(1) have *: "prefix ''('' c \<and> suffix '')'' c" "paren_scan 0 c = Some (0, True)"
      "strip_parens (py_strip (butlast (tl c))) = Some d"
      by (auto simp: strip_parens.simps [of c] split: if_splits option.splits prod.splits)
    let ?m = "butlast (tl c)"
    obtain u where "c = ''('' @ u" using *(1) by (auto simp: prefix_def)
    with *(1) have "c = ''('' @ ?m @ '')''" by (cases u rule: rev_cases) (auto simp: suffix_def)
    moreover have "cond_value (py_strip ?m) b"
      by (rule "1.IH" [OF *(1,2)]) (simp_all add: *(3) "1.prems"(2))
    then have "cond_value ?m b" using cond_value.space strip_frame [of ?m] by metis
    ultimately show ?thesis using cond_value.paren by metis
  qed
qed

lemma truth_sound: "preprocessor_integer_truth s = Some b \<Longrightarrow> cond_value s b"
proof (induction s arbitrary: b rule: preprocessor_integer_truth.induct)
  case (1 s)
  from "1.prems" obtain c where c: "strip_parens (py_strip s) = Some c"
    by (auto simp: preprocessor_integer_truth.simps [of s] split: option.splits)
  have "cond_value c b"
  proof (cases "prefix ''!'' c")
    case True
    then have "c = ''!'' @ tl c" by (auto simp: prefix_def)
    moreover from True "1.prems" c obtain b' where "preprocessor_integer_truth (tl c) = Some b'" "b = (\<not> b')"
      by (auto simp: preprocessor_integer_truth.simps [of s])
    ultimately show ?thesis using "1.IH" [OF c True] cond_value.neg by metis
  next
    case False
    with "1.prems" c show ?thesis
      by (simp add: preprocessor_integer_truth.simps [of s] literal_truth_constant cond_value.literal)
  qed
  from strip_parens_sound [OF c this] have "cond_value (py_strip s) b" .
  then show ?case using cond_value.space strip_frame [of s] by metis
qed

subsection \<open>Properties\<close>

text \<open>
  C5: the evaluator of constant conditions is sound and complete for the grammar: \<^verbatim>\<open>preprocessor_integer_truth\<close>
  returns a truth value exactly for the expressions built from C integer constants with parentheses, \<^verbatim>\<open>!\<close> and white space,
  and it returns the value that the grammar gives (a constant is true iff it has a non-zero digit).
  All other conditions have no known value.
\<close>

theorem integer_truth_grammar: "preprocessor_integer_truth s = Some b \<longleftrightarrow> cond_value s b"
  using truth_sound truth_complete by blast

end
