(* ===== verification/Scope_Laws.thy ===== *)
theory Scope_Laws
  imports Injection
begin

text \<open>
  The scope that \<^verbatim>\<open>c_scope_bounds\<close> returns is a top-level brace block of the live text: the pairs
  that the scan collects are exactly the balanced blocks, and no block encloses the chosen one.
\<close>

subsection \<open>The scan finds every balanced block\<close>

lemma brace_scan_through:
  "nesting (length upper) w = Some e \<Longrightarrow>
   \<exists>ps upper'. length upper' = e \<and>
     (\<forall>rest. brace_scan i (w @ rest) (upper @ base) =
       (ps @ fst (brace_scan (i + length w) rest (upper' @ base)),
        snd (brace_scan (i + length w) rest (upper' @ base))))"
proof (induction w arbitrary: i upper)
  case Nil
  then show ?case by (intro exI [of _ "[]"] exI [of _ upper]) simp
next
  case (Cons c w)
  consider (op) "c = CHR ''{''" | (cl) a as where "c = CHR ''}''" "upper = a # as"
    | (other) "c \<noteq> CHR ''{''" "c \<noteq> CHR ''}''"
    using Cons.prems by (cases upper) (auto split: if_splits)
  then show ?case
  proof cases
    case op
    with Cons.prems Cons.IH [of "i # upper" "Suc i"] show ?thesis by simp
  next
    case (cl a as)
    with Cons.prems Cons.IH [of as "Suc i"] obtain ps upper' where IH: "length upper' = e"
      "\<forall>rest. brace_scan (Suc i) (w @ rest) (as @ base) =
         (ps @ fst (brace_scan (Suc i + length w) rest (upper' @ base)),
          snd (brace_scan (Suc i + length w) rest (upper' @ base)))"
      by auto
    with cl show ?thesis by (intro exI [of _ "(a, i) # ps"] exI [of _ upper']) simp
  next
    case other
    with Cons.prems Cons.IH [of upper "Suc i"] show ?thesis by simp
  qed
qed

lemma brace_scan_skip: "\<exists>ps st. \<forall>rest. brace_scan i (w @ rest) stack =
   (ps @ fst (brace_scan (i + length w) rest st), snd (brace_scan (i + length w) rest st))"
proof (induction w arbitrary: i stack)
  case Nil
  then show ?case by (intro exI [of _ "[]"] exI [of _ stack]) simp
next
  case (Cons c w)
  obtain pair st0 where step: "\<forall>rest. brace_scan i (c # rest) stack =
      (pair @ fst (brace_scan (Suc i) rest st0), snd (brace_scan (Suc i) rest st0))"
  proof (cases "c = CHR ''}'' \<and> stack \<noteq> []")
    case True
    then obtain a as where "stack = a # as" by (cases stack) auto
    with True that [of "[(a, i)]" as] show thesis by (simp split: prod.splits)
  next
    case False
    with that [of "[]" "if c = CHR ''{'' then i # stack else stack"] show thesis
      by (cases stack) auto
  qed
  from Cons.IH [of "Suc i" st0] obtain ps st where "\<forall>rest. brace_scan (Suc i) (w @ rest) st0 =
      (ps @ fst (brace_scan (Suc i + length w) rest st), snd (brace_scan (Suc i + length w) rest st))" by blast
  with step show ?case by (intro exI [of _ "pair @ ps"] exI [of _ st]) simp
qed

lemma brace_block_split:
  assumes "brace_block m a b"
  shows "m = take a m @ CHR ''{'' # slice m (Suc a) b @ CHR ''}'' # drop (Suc b) m"
proof -
  from assms have ab: "a < b" "b < length m" "m ! a = CHR ''{''" "m ! b = CHR ''}''"
    by (simp_all add: brace_block_def)
  have "m = take a m @ drop a m" by simp
  also have "drop a m = m ! a # drop (Suc a) m" by (rule Cons_nth_drop_Suc [symmetric]) (use ab in simp)
  also have "drop (Suc a) m = slice m (Suc a) b @ drop b m"
    using ab by (simp add: slice_def) (metis Suc_leI append_take_drop_id drop_drop le_add_diff_inverse2)
  also have "drop b m = m ! b # drop (Suc b) m" by (rule Cons_nth_drop_Suc [symmetric]) (use ab in simp)
  finally show ?thesis using ab by simp
qed

lemma brace_scan_complete:
  assumes "brace_block m a b"
  shows "(a, b) \<in> set (fst (brace_scan 0 m []))"
proof -
  let ?w = "slice m (Suc a) b"
  from assms have ab: "a < b" "b < length m" and nest: "nesting 0 ?w = Some 0"
    by (simp_all add: brace_block_def)
  then have len: "length (take a m) = a" "Suc a + length ?w = b" by (simp_all add: slice_def)
  obtain ps st where skip: "\<forall>rest. brace_scan 0 (take a m @ rest) [] =
      (ps @ fst (brace_scan a rest st), snd (brace_scan a rest st))"
    using brace_scan_skip [of 0 "take a m" "[]"] len(1) by auto
  from brace_scan_through [of "[]" ?w 0 "Suc a" "a # st"] nest len(2) obtain qs where
    "\<forall>rest. brace_scan (Suc a) (?w @ rest) (a # st) =
       (qs @ fst (brace_scan b rest (a # st)), snd (brace_scan b rest (a # st)))" by auto
  then have "(a, b) \<in> set (fst (brace_scan (Suc a) (?w @ CHR ''}'' # drop (Suc b) m) (a # st)))"
    by (simp split: prod.splits)
  then have "(a, b) \<in> set (fst (brace_scan a (CHR ''{'' # ?w @ CHR ''}'' # drop (Suc b) m) st))"
    by simp
  with skip show ?thesis by (subst brace_block_split [OF assms]) simp
qed

subsection \<open>Where the scope lies\<close>

lemma py_find_from_SomeD:
  assumes "py_find_from sub s i = Some j"
  shows "i \<le> j" "j + length sub \<le> length s" "take (length sub) (drop j s) = sub"
    "i \<le> k \<Longrightarrow> k < j \<Longrightarrow> \<not> prefix sub (drop k s)"
proof -
  from assms obtain n where n: "py_find sub (drop i s) = Some n" and j: "j = i + n" and i: "i \<le> length s"
    by (auto simp: py_find_from_def split: if_splits)
  from py_find_SomeD [OF n] i show "i \<le> j" "j + length sub \<le> length s" "take (length sub) (drop j s) = sub"
    by (auto simp: j add.commute)
  assume "i \<le> k" "k < j"
  with py_find_first [OF n, of "k - i"] show "\<not> prefix sub (drop k s)" by (simp add: j)
qed

lemma prefix_single: "k < length s \<Longrightarrow> prefix [c] (drop k s) \<longleftrightarrow> s ! k = c"
  by (cases "drop k s") (auto simp: Cons_nth_drop_Suc [symmetric])

lemma py_find_from_char:
  assumes "py_find_from [c] s i = Some j"
  shows "i \<le> j" "j < length s" "s ! j = c" "\<forall>k. i \<le> k \<and> k < j \<longrightarrow> s ! k \<noteq> c"
proof -
  note D = py_find_from_SomeD [OF assms]
  show "i \<le> j" and j: "j < length s" using D by auto
  have "prefix [c] (drop j s)" using D(3) take_is_prefix [of 1 "drop j s"] by simp
  with j show "s ! j = c" by (simp add: prefix_single)
  show "\<forall>k. i \<le> k \<and> k < j \<longrightarrow> s ! k \<noteq> c"
    using D(4) prefix_single [of _ s c] j by auto
qed

lemma py_find_from_char_None:
  assumes "py_find_from [c] s i = None" "i \<le> k" "k < length s"
  shows "s ! k \<noteq> c"
proof -
  from assms have "py_find [c] (drop i s) = None" by (auto simp: py_find_from_def split: if_splits)
  then have "\<forall>j\<le>length (drop i s). \<not> prefix [c] (drop j (drop i s))" by (simp only: py_find_None)
  with assms(2,3) have "\<not> prefix [c] (drop (k - i) (drop i s))" by (metis diff_le_mono length_drop less_imp_le)
  with assms(2,3) show ?thesis using prefix_single [of k s c] by simp
qed

lemma find_all_mem:
  "occ \<in> set (find_all anchor masked i) \<Longrightarrow>
   occ + length anchor \<le> length masked \<and> take (length anchor) (drop occ masked) = anchor"
proof (induction anchor masked i rule: find_all.induct)
  case (1 anchor masked i)
  show ?case
  proof (cases "py_find_from anchor masked i")
    case (Some j)
    with "1.prems" have "anchor \<noteq> []" "occ = j \<or> occ \<in> set (find_all anchor masked (j + length anchor))"
      by (subst (asm) find_all.simps; auto split: if_splits)+
    with Some "1.IH" py_find_from_SomeD [OF Some] show ?thesis by auto
  qed (use "1.prems" in \<open>subst (asm) find_all.simps; simp split: if_splits\<close>)
qed

lemma outermost_least: "outermost ps = Some p \<Longrightarrow> q \<in> set ps \<Longrightarrow> fst p \<le> fst q"
proof (induction ps arbitrary: p q)
  case (Cons a ps)
  then show ?case
  proof (cases "outermost ps")
    case None
    then have "ps = []" by (cases ps) (auto split: option.splits)
    with Cons.prems show ?thesis by simp
  next
    case (Some r)
    with Cons.IH [OF Some] Cons.prems show ?thesis by (fastforce split: if_splits)
  qed
qed simp

lemma outermost_None: "outermost ps = None \<longleftrightarrow> ps = []"
  by (cases ps) (auto split: option.splits)

text \<open>The scope of an occurrence: the block around it, or the body that follows it with no
  semicolon between the anchor and the brace.\<close>

definition body_of :: "string \<Rightarrow> string \<Rightarrow> nat \<Rightarrow> nat \<Rightarrow> nat \<Rightarrow> bool" where
  "body_of masked anchor occ a b \<longleftrightarrow> a < occ \<and> occ < b \<or>
     occ \<le> a \<and> (\<forall>k. occ \<le> k \<and> k < a \<longrightarrow> masked ! k \<noteq> CHR ''{'') \<and>
     (\<forall>k. occ + length anchor \<le> k \<and> k < a \<longrightarrow> masked ! k \<noteq> CHR '';'')"

lemma scope_candidate_cases:
  assumes "scope_candidate masked pairs anchor occ = Some (a, b)" "occ + length anchor \<le> length masked"
  shows "body_of masked anchor occ a b \<and> (\<forall>(x, y)\<in>set pairs. x < a \<and> b < y \<and> a < b \<longrightarrow> masked ! x \<noteq> CHR ''{'')"
proof (cases "outermost (filter (\<lambda>p. fst p < occ \<and> occ < snd p) pairs)")
  case (Some p)
  with assms(1) have p: "p = (a, b)" by (simp add: scope_candidate_def Let_def)
  from outermost_mem [OF Some] outermost_least [OF Some] show ?thesis
    unfolding p body_of_def by fastforce
next
  case None
  then have inside: "\<not> (x < occ \<and> occ < y)" if "(x, y) \<in> set pairs" for x y
    using that by (auto simp: outermost_None filter_empty_conv)
  let ?stop = "occ + length anchor"
  have body: "occ \<le> a \<and> (\<forall>k. occ \<le> k \<and> k < a \<longrightarrow> masked ! k \<noteq> CHR ''{'') \<and>
     (\<forall>k. ?stop \<le> k \<and> k < a \<longrightarrow> masked ! k \<noteq> CHR '';'')"
  proof (cases "py_find_from ''{'' (take ?stop masked) occ")
    case (Some j)
    with None assms(1) have "a = j" by (auto simp: scope_candidate_def Let_def)
    with py_find_from_char [OF Some] assms(2) show ?thesis by auto
  next
    case nobrace: None
    then have no: "masked ! k \<noteq> CHR ''{''" if "occ \<le> k" "k < ?stop" for k
      using py_find_from_char_None [OF nobrace that(1)] that(2) assms(2) by simp
    obtain j where j: "py_find_from ''{'' masked ?stop = Some j"
      and semi: "py_find_from '';'' masked ?stop = None \<or> (\<exists>m\<ge>j. py_find_from '';'' masked ?stop = Some m)" "a = j"
      using None nobrace assms(1)
      by (auto simp: scope_candidate_def Let_def split: option.splits if_splits)
    from semi(1) have "\<forall>k. ?stop \<le> k \<and> k < j \<longrightarrow> masked ! k \<noteq> CHR '';''"
      using py_find_from_char_None [of "CHR '';''" masked ?stop] py_find_from_char(2) [OF j]
        py_find_from_char(4) [of "CHR '';''" masked ?stop] by fastforce
    with py_find_from_char [OF j] no semi(2) show ?thesis by (metis le_add1 le_trans not_le)
  qed
  moreover have "masked ! x \<noteq> CHR ''{''" if "(x, y) \<in> set pairs" "x < a" "b < y" "a < b" for x y
    using body inside [OF that(1)] that by (cases "x < occ") auto
  ultimately show ?thesis by (auto simp: body_of_def)
qed

subsection \<open>Properties\<close>

text \<open>
  C8: the scope of an anchor is a top-level function body. When \<^verbatim>\<open>c_scope_bounds\<close> returns, the two
  offsets are the braces of a balanced block of the live code and of the text itself, no other balanced
  block encloses it, and it belongs to a live occurrence of the anchor: the occurrence lies inside
  the block, or the block is the first one after it and no semicolon comes between.
\<close>

theorem scope_is_top_level_body:
  assumes "c_scope_bounds path text anchor = Inr (a, b)" "plain_lines text"
  shows "\<exists>masked occ. mask_c_live_code text True = Inr masked \<and> brace_block masked a b \<and>
    text ! a = CHR ''{'' \<and> text ! b = CHR ''}'' \<and> b < length text \<and>
    (\<forall>x y. brace_block masked x y \<longrightarrow> \<not> (x < a \<and> b < y)) \<and>
    take (length anchor) (drop occ masked) = anchor \<and> body_of masked anchor occ a b"
proof -
  from assms(1) obtain masked occ where m: "mask_c_live_code text True = Inr masked"
    and occ: "occ \<in> set (find_all anchor masked 0)"
    and c: "scope_candidate masked (fst (brace_scan 0 masked [])) anchor occ = Some (a, b)"
    by (rule c_scope_bounds_candidate)
  obtain masked' where "mask_c_live_code text True = Inr masked'" "brace_block masked' a b"
    using c_scope_bounds_block [OF assms(1)] .
  with m have bl: "brace_block masked a b" by simp
  note sc = scope_candidate_cases [OF c conjunct1 [OF find_all_mem [OF occ]]]
  have "\<not> (x < a \<and> b < y)" if "brace_block masked x y" for x y
    using brace_scan_complete [OF that] sc that bl by (auto simp: brace_block_def)
  then show ?thesis
    using m bl sc find_all_mem [OF occ] c_scope_bounds_text [OF assms] by blast
qed

theorem scope_is_top_level_body_witness:
  "\<exists>masked occ. mask_c_live_code ''int f(void);\<newline>int f(void)\<newline>{ if (x) { } }\<newline>'' True = Inr masked \<and>
    brace_block masked 25 38 \<and> body_of masked ''f('' occ 25 38"
proof -
  have "c_scope_bounds [] ''int f(void);\<newline>int f(void)\<newline>{ if (x) { } }\<newline>'' ''f('' = Inr (25, 38)"
    by code_simp
  moreover have "plain_lines ''int f(void);\<newline>int f(void)\<newline>{ if (x) { } }\<newline>''" by code_simp
  ultimately show ?thesis using scope_is_top_level_body by blast
qed

end
