(* ===== verification/Edit_Laws.thy ===== *)
theory Edit_Laws
  imports Scope_Laws
begin

text \<open>
  The edits are local: the editing functions search the live code of a scope and change the original
  text at the offset they found, inside that scope and nowhere else.
\<close>

lemma plain_lines_append [simp]: "plain_lines (a @ b) \<longleftrightarrow> plain_lines a \<and> plain_lines b"
  by (simp add: plain_lines_def)

lemma plain_lines_slice: "plain_lines t \<Longrightarrow> plain_lines (slice t i j)"
  unfolding plain_lines_def slice_def list_all_iff by (meson in_set_dropD in_set_takeD)

text \<open>Splicing at offsets relative to a scope is splicing in the text.\<close>

lemma splice_in_scope:
  assumes "b < length t" "a \<le> b" "i \<le> j" "j \<le> length (slice t a (Suc b))"
  shows "t = take (a + i) t @ slice (slice t a (Suc b)) i j @ drop (a + j) t"
    "length (take (a + i) t) = a + i" "a + j \<le> Suc b"
proof -
  have len: "length (slice t a (Suc b)) = Suc b - a" using assms by (simp add: slice_def)
  then show "length (take (a + i) t) = a + i" "a + j \<le> Suc b" using assms by auto
  have "slice (slice t a (Suc b)) i j = take (j - i) (drop (a + i) t)"
    using assms len by (simp add: slice_def drop_take min_def add.commute)
  moreover have "drop (a + j) t = drop (j - i) (drop (a + i) t)" using assms by (simp add: add.commute)
  ultimately show "t = take (a + i) t @ slice (slice t a (Suc b)) i j @ drop (a + j) t"
    by (metis append_take_drop_id)
qed

lemma single_match:
  assumes "(case ms of [(i, j, g)] \<Rightarrow> Inr (f i j) | _ \<Rightarrow> Inl e) = Inr (r :: string)"
  obtains i j g where "ms = [(i, j, g)]" "r = f i j"
proof (cases ms)
  case (Cons m rest)
  with assms that show thesis by (cases m; cases rest) auto
qed (use assms in simp)

text \<open>What a local edit of \<open>t\<close> into \<open>out\<close> is: one piece \<open>mid\<close> inside the block from \<open>a\<close> to \<open>b\<close> is replaced.\<close>

definition edits_inside :: "string \<Rightarrow> string \<Rightarrow> nat \<Rightarrow> nat \<Rightarrow> string \<Rightarrow> string \<Rightarrow> bool" where
  "edits_inside t out a b mid new \<longleftrightarrow> (\<exists>pre post. t = pre @ mid @ post \<and> out = pre @ new @ post \<and>
     a \<le> length pre \<and> length (pre @ mid) \<le> Suc b)"

lemma edits_insideI:
  assumes "b < length t" "a \<le> b" "i \<le> j" "j \<le> length (slice t a (Suc b))"
  shows "edits_inside t (take (a + i) t @ new @ drop (a + j) t) a b (slice (slice t a (Suc b)) i j) new"
  unfolding edits_inside_def
proof (intro exI conjI)
  note sp = splice_in_scope [OF assms]
  show "t = take (a + i) t @ slice (slice t a (Suc b)) i j @ drop (a + j) t" by (rule sp(1))
  show "a \<le> length (take (a + i) t)" using sp(2) by simp
  have "length (slice (slice t a (Suc b)) i j) = j - i" using assms(4) by (auto simp: slice_def)
  with sp(2,3) assms(3) show "length (take (a + i) t @ slice (slice t a (Suc b)) i j) \<le> Suc b" by simp
qed simp

subsection \<open>Properties\<close>





text \<open>
  C21: inserting at the start of a scope cannot fail once the scope is found: the check
  \<^verbatim>\<open>text[scope_start] != "{"\<close> never raises, and the insertion goes right behind the brace.
\<close>

theorem insert_live_scope_start_outcome:
  assumes "plain_lines text"
  shows "insert_live_scope_start path text anchor insertion error =
    (case c_scope_bounds path text anchor of Inl e \<Rightarrow> Inl e
     | Inr (a, b) \<Rightarrow> Inr (take (Suc a) text @ insertion @ drop (Suc a) text))"
proof (cases "c_scope_bounds path text anchor")
  case (Inr ab)
  obtain a b where ab: "ab = (a, b)" by fastforce
  from c_scope_bounds_text [OF Inr [unfolded ab] assms] Inr ab show ?thesis
    by (simp add: insert_live_scope_start_def rbind_def)
qed (simp add: insert_live_scope_start_def rbind_def)

theorem insert_live_scope_start_outcome_witness:
  "insert_live_scope_start [] ''void f(void)\<newline>{ }\<newline>'' ''void f('' '' x();'' ''e'' = Inr ''void f(void)\<newline>{ x(); }\<newline>''"
proof -
  have "plain_lines ''void f(void)\<newline>{ }\<newline>''" by code_simp
  moreover have "c_scope_bounds [] ''void f(void)\<newline>{ }\<newline>'' ''void f('' = Inr (13, 15)" by code_simp
  ultimately show ?thesis by (simp add: insert_live_scope_start_outcome)
qed

end
