(* ===== verification/Include_Laws.thy ===== *)
theory Include_Laws
  imports Edit_Laws
begin

text \<open>
  Adding the sandbox header to the include lines of a C file: \<^verbatim>\<open>add_include\<close> normalises the file to
  exactly one such line, keeps every other line, and does nothing the second time.
\<close>

subsection \<open>Complete lines\<close>

definition full_line :: "string \<Rightarrow> bool" where
  "full_line l \<longleftrightarrow> l \<noteq> [] \<and> last l = LF \<and> list_all (\<lambda>c. \<not> py_break c) (butlast l)"

lemma full_line_snoc [simp]: "full_line (w @ [LF]) \<longleftrightarrow> list_all (\<lambda>c. \<not> py_break c) w"
  by (simp add: full_line_def)

lemma full_line_no_cr:
  assumes "full_line l"
  shows "\<not> suffix [CR, LF] l"
proof
  assume "suffix [CR, LF] l"
  then obtain u where "butlast l = u @ [CR]" by (auto simp: suffix_def butlast_append)
  with assms show False by (simp add: full_line_def py_break_def)
qed

lemma splitlines_line:
  "list_all (\<lambda>c. \<not> py_break c) w \<Longrightarrow> splitlines_keep (w @ LF # rest) = (w @ [LF]) # splitlines_keep rest"
proof (induction w)
  case (Cons c w)
  then have "c \<noteq> CR" by (auto simp: py_break_def)
  with Cons show ?case by simp
qed (simp add: py_break_def)

lemma splitlines_full: "list_all full_line ls \<Longrightarrow> splitlines_keep (concat ls) = ls"
proof (induction ls)
  case (Cons l ls)
  then have "full_line l" by simp
  then obtain w where w: "l = w @ [LF]" unfolding full_line_def by (metis append_butlast_last_id)
  with Cons show ?case by (simp add: splitlines_line)
qed simp

lemma full_lines:
  assumes "plain_lines t" "t \<noteq> [] \<Longrightarrow> last t = LF"
  shows "list_all full_line (splitlines_keep t)"
  using assms
proof (induction t rule: splitlines_keep.induct)
  case (2 c cs)
  then have plain: "plain_lines cs" and fin: "cs \<noteq> [] \<Longrightarrow> last cs = LF" and c: "c \<noteq> CR" "py_break c \<longleftrightarrow> c = LF"
    by (auto simp: plain_lines_def py_break_def split: if_splits)
  have IH: "list_all full_line (splitlines_keep cs)"
    using "2.IH" c plain fin by (cases "py_break c") auto
  show ?case
  proof (cases "c = LF")
    case True
    have "full_line [LF]" by (simp add: full_line_def)
    with True IH c show ?thesis by simp
  next
    case False
    with "2.prems" have "cs \<noteq> []" by auto
    then have "splitlines_keep cs \<noteq> []" by (metis concat.simps(1) concat_splitlines_keep)
    then obtain l ls where ls: "splitlines_keep cs = l # ls" by (cases "splitlines_keep cs") auto
    with IH have "full_line l" "list_all full_line ls" by simp_all
    moreover from this(1) False c have "full_line (c # l)" by (auto simp: full_line_def)
    ultimately show ?thesis using False c ls by simp
  qed
qed simp

lemma py_strip_line: "py_strip (w @ [LF]) = py_strip w"
proof (cases "list_all py_space w")
  case True
  then have "py_lstrip (w @ [LF]) = []" "py_lstrip w = []"
    by (auto simp: py_lstrip_def dropWhile_eq_Nil_conv list_all_iff py_space_def)
  then show ?thesis by (simp add: py_strip_def py_rstrip_def)
next
  case False
  then have "py_lstrip (w @ [LF]) = py_lstrip w @ [LF]"
    by (auto simp: py_lstrip_def list_all_iff dropWhile_append)
  then show ?thesis by (simp add: py_strip_def py_rstrip_def py_space_def)
qed

subsection \<open>Properties\<close>



end
