(* ===== verification/Text_Laws.thy ===== *)
theory Text_Laws
  imports Py_Str
begin

text \<open>
  Counting and finding in a text that is put together from groups of lines: a search string without
  a given character cannot reach across that character.
\<close>

lemma prefix_line: "x \<notin> set sub \<Longrightarrow> prefix sub (u @ x # v) \<longleftrightarrow> prefix sub u"
proof (induction sub arbitrary: u)
  case (Cons c sub)
  then show ?case by (cases u) auto
qed simp

lemma py_in_Cons: "py_in sub (c # s) \<longleftrightarrow> prefix sub (c # s) \<or> py_in sub s"
  by (simp add: py_in_def)

lemma py_in_prefix: "prefix h c \<Longrightarrow> py_in c s \<Longrightarrow> py_in h s"
  unfolding py_in_iff prefix_def by (metis append.assoc)

lemma py_in_drop: "py_in sub (drop n s) \<Longrightarrow> py_in sub s"
  unfolding py_in_iff by (metis append.assoc append_take_drop_id)

lemma py_in_take: "py_in sub (take n s) \<Longrightarrow> py_in sub s"
  unfolding py_in_iff by (metis append.assoc append_take_drop_id)

lemma prefix_py_in: "prefix sub s \<Longrightarrow> py_in sub s"
  unfolding py_in_iff prefix_def by (metis append_Nil)

lemma py_count_Nil [simp]: "sub \<noteq> [] \<Longrightarrow> py_count sub [] = 0"
  by (simp add: py_count.simps)

lemma py_count_Cons:
  "sub \<noteq> [] \<Longrightarrow> py_count sub (c # s) =
     (if prefix sub (c # s) then Suc (py_count sub (drop (length sub) (c # s))) else py_count sub s)"
  by (subst py_count.simps) simp

lemma py_count_zero: "sub \<noteq> [] \<Longrightarrow> py_count sub s = 0 \<longleftrightarrow> \<not> py_in sub s"
proof (induction s)
  case Nil
  then show ?case by (simp add: py_in_def)
next
  case (Cons c s)
  then show ?case by (simp add: py_count_Cons py_in_Cons)
qed

lemma py_count_lines:
  assumes "sub \<noteq> []" "x \<notin> set sub"
  shows "py_count sub (u @ x # v) = py_count sub u + py_count sub v"
proof (induction u rule: measure_induct_rule [of length])
  case (less u)
  show ?case
  proof (cases u)
    case Nil
    from assms have "\<not> prefix sub (x # v)" by (cases sub) auto
    with Nil assms show ?thesis by (simp add: py_count_Cons)
  next
    case (Cons c w)
    have pre: "prefix sub (u @ x # v) \<longleftrightarrow> prefix sub u" by (rule prefix_line [OF assms(2)])
    show ?thesis
    proof (cases "prefix sub u")
      case True
      then have "length sub \<le> length u" by (rule prefix_length_le)
      then have "drop (length sub) (c # (w @ x # v)) = drop (length sub) u @ x # v"
        using drop_append [of "length sub" u "x # v"] Cons by simp
      moreover have "length (drop (length sub) u) < length u" using assms(1) Cons by (cases sub) auto
      ultimately show ?thesis
        using less.IH [of "drop (length sub) u"] True pre Cons assms(1) by (simp add: py_count_Cons)
    next
      case False
      with less.IH [of w] pre Cons assms(1) show ?thesis by (simp add: py_count_Cons)
    qed
  qed
qed

text \<open>A search string whose first part does not occur before a separator is found behind it.\<close>

lemma behind:
  assumes h: "h \<noteq> []" "x \<notin> set h" "prefix h c" and u: "\<not> py_in h u"
  shows "py_count c (u @ x # v) = py_count c v"
    "py_find c (u @ x # v) = map_option (\<lambda>k. k + Suc (length u)) (py_find c v)"
proof -
  have c: "c \<noteq> []" using h by auto
  have "py_count c (u @ x # v) = py_count c v \<and>
    py_find c (u @ x # v) = map_option (\<lambda>k. k + Suc (length u)) (py_find c v)"
    using u
  proof (induction u)
    case Nil
    have "\<not> prefix c (x # v)" using h by (cases h; cases c) auto
    with c show ?case by (simp add: py_count_Cons)
  next
    case (Cons y u)
    then have "\<not> prefix h (y # u)" "\<not> py_in h u" by (auto simp: py_in_Cons)
    then have "\<not> prefix h (y # u @ x # v)" using prefix_line [OF h(2), of "y # u" v] by simp
    then have "\<not> prefix c (y # u @ x # v)" using h(3) prefix_order.trans by blast
    with Cons.IH [OF \<open>\<not> py_in h u\<close>] c show ?case by (simp add: py_count_Cons option.map_comp o_def)
  qed
  then show "py_count c (u @ x # v) = py_count c v"
    "py_find c (u @ x # v) = map_option (\<lambda>k. k + Suc (length u)) (py_find c v)" by simp_all
qed

subsection \<open>A newline at the end\<close>

lemma splitlines_snoc:
  "u \<noteq> [] \<Longrightarrow> \<not> py_break (last u) \<Longrightarrow>
   \<exists>ls l. splitlines_keep u = ls @ [l] \<and> splitlines_keep (u @ [LF]) = ls @ [l @ [LF]] \<and> l \<noteq> [] \<and> \<not> py_break (last l)"
proof (induction u rule: splitlines_keep.induct)
  case (2 c cs)
  show ?case
  proof (cases "cs = []")
    case True
    with 2 have "\<not> py_break c" by simp
    then have "c \<noteq> CR" by (auto simp: py_break_def)
    have "py_break LF" by (simp add: py_break_def)
    with True \<open>\<not> py_break c\<close> \<open>c \<noteq> CR\<close> show ?thesis
      by (intro exI [of _ "[]"] exI [of _ "[c]"]) simp
  next
    case False
    with 2 have fin: "\<not> py_break (last cs)" by simp
    have br: "py_break LF" by (simp add: py_break_def)
    consider (crlf) "c = CR" "hd cs = LF" | (brk) "\<not> (c = CR \<and> hd cs = LF)" "py_break c"
      | (char) "\<not> (c = CR \<and> hd cs = LF)" "\<not> py_break c" by blast
    then show ?thesis
    proof cases
      case crlf
      obtain d ds where cs: "cs = d # ds" using False by (cases cs) auto
      with crlf fin br have "ds \<noteq> []" by auto
      with cs fin have tl: "tl cs \<noteq> []" "\<not> py_break (last (tl cs))" by simp_all
      from crlf False have "c = CR \<and> cs \<noteq> [] \<and> hd cs = LF" by simp
      from "2.IH"(1) [OF this tl] obtain ls l where "splitlines_keep (tl cs) = ls @ [l]"
        "splitlines_keep (tl cs @ [LF]) = ls @ [l @ [LF]]" "l \<noteq> []" "\<not> py_break (last l)" by (elim exE conjE)
      with crlf False show ?thesis by (intro exI [of _ "[CR, LF] # ls"] exI [of _ l]) simp
    next
      case brk
      then have "\<not> (c = CR \<and> cs \<noteq> [] \<and> hd cs = LF)" by simp
      from "2.IH"(2) [OF this brk(2) False fin] obtain ls l where "splitlines_keep cs = ls @ [l]"
        "splitlines_keep (cs @ [LF]) = ls @ [l @ [LF]]" "l \<noteq> []" "\<not> py_break (last l)" by (elim exE conjE)
      with brk False show ?thesis by (intro exI [of _ "[c] # ls"] exI [of _ l]) auto
    next
      case char
      then have "\<not> (c = CR \<and> cs \<noteq> [] \<and> hd cs = LF)" by simp
      from "2.IH"(3) [OF this char(2) False fin] obtain ls l where l: "splitlines_keep cs = ls @ [l]"
        "splitlines_keep (cs @ [LF]) = ls @ [l @ [LF]]" "l \<noteq> []" "\<not> py_break (last l)" by (elim exE conjE)
      show ?thesis
      proof (cases ls)
        case Nil
        with char False l show ?thesis by (intro exI [of _ "[]"] exI [of _ "c # l"]) auto
      next
        case (Cons k ks)
        with char False l show ?thesis by (intro exI [of _ "(c # k) # ks"] exI [of _ l]) auto
      qed
    qed
  qed
qed simp

lemma py_splitlines_snoc: "u \<noteq> [] \<Longrightarrow> \<not> py_break (last u) \<Longrightarrow> py_splitlines (u @ [LF]) = py_splitlines u"
proof -
  assume "u \<noteq> []" "\<not> py_break (last u)"
  from splitlines_snoc [OF this] obtain ls l where ls: "splitlines_keep u = ls @ [l]"
    "splitlines_keep (u @ [LF]) = ls @ [l @ [LF]]" "l \<noteq> []" "\<not> py_break (last l)" by blast
  have br: "py_break LF" "py_break CR" by (simp_all add: py_break_def)
  have "chop_break (l @ [LF]) = l"
    using ls(3,4) br by (cases l rule: rev_cases) (auto simp: chop_break_def suffix_def butlast_append)
  moreover have "chop_break l = l"
    using ls(3,4) br by (cases l rule: rev_cases) (auto simp: chop_break_def suffix_def append_eq_Cons_conv)
  ultimately show ?thesis by (simp add: py_splitlines_def ls)
qed

lemma py_rstrip_last: "py_rstrip s \<noteq> [] \<Longrightarrow> \<not> py_space (last (py_rstrip s))"
  by (simp add: py_rstrip_def last_rev hd_dropWhile)

subsection \<open>Splitting a search\<close>

lemma py_in_lines:
  assumes "sub \<noteq> []" "x \<notin> set sub"
  shows "py_in sub (u @ x # v) \<longleftrightarrow> py_in sub u \<or> py_in sub v"
  using py_count_lines [OF assms, of u v] py_count_zero [OF assms(1)] by (metis add_is_0)

lemma py_count_spaces:
  assumes "sub \<noteq> []" "list_all (\<lambda>c. \<not> py_space c) sub" "list_all py_space ws"
  shows "py_count sub (u @ ws) = py_count sub u"
  using assms(3)
proof (induction ws arbitrary: u)
  case (Cons w ws)
  then have "w \<notin> set sub" using assms(2) by (auto simp: list_all_iff)
  then have "py_count sub (u @ w # ws) = py_count sub u + py_count sub ws" by (rule py_count_lines [OF assms(1)])
  moreover have "py_count sub ws = 0" using Cons.IH [of "[]"] Cons.prems assms(1) by simp
  ultimately show ?case by simp
qed simp

lemma py_find_found: "py_find sub s = Some i \<Longrightarrow> s = take i s @ sub @ drop (i + length sub) s"
  using py_find_SomeD [of sub s i] take_drop_split [of i "length sub" s] by auto

lemma no_early_match:
  assumes "c \<noteq> []" "\<And>j. j < length u \<Longrightarrow> \<not> prefix c (drop j (u @ v))"
  shows "py_count c (u @ v) = py_count c v" "py_find c (u @ v) = map_option (\<lambda>k. k + length u) (py_find c v)"
proof -
  have "py_count c (u @ v) = py_count c v \<and> py_find c (u @ v) = map_option (\<lambda>k. k + length u) (py_find c v)"
    using assms(2)
  proof (induction u)
    case (Cons y u)
    have "\<not> prefix c (y # u @ v)" using Cons.prems [of 0] by simp
    moreover have "\<not> prefix c (drop j (u @ v))" if "j < length u" for j using Cons.prems [of "Suc j"] that by simp
    ultimately show ?case using Cons.IH assms(1) by (simp add: py_count_Cons option.map_comp o_def)
  qed (simp add: option.map_id0 [unfolded id_def])
  then show "py_count c (u @ v) = py_count c v" "py_find c (u @ v) = map_option (\<lambda>k. k + length u) (py_find c v)"
    by simp_all
qed

lemma py_count_found: "sub \<noteq> [] \<Longrightarrow> py_find sub s = Some i \<Longrightarrow> py_count sub s = Suc (py_count sub (drop (i + length sub) s))"
proof (induction sub s arbitrary: i rule: py_find.induct)
  case (2 sub c cs)
  show ?case
  proof (cases "prefix sub (c # cs)")
    case True
    with 2 show ?thesis by (simp add: py_count_Cons)
  next
    case False
    with 2 obtain j where "py_find sub cs = Some j" "i = Suc j" by auto
    with "2.IH" [OF False "2.prems"(1)] False "2.prems"(1) show ?thesis by (simp add: py_count_Cons)
  qed
qed simp

text \<open>A string without borders that is counted once and ends the text occurs nowhere earlier.\<close>

lemma counted_once_at_end:
  assumes sub: "sub \<noteq> []" "\<And>d. 0 < d \<Longrightarrow> d < length sub \<Longrightarrow> \<not> prefix (drop d sub) sub"
    and one: "py_count sub (u @ sub) = 1"
  shows "\<not> py_in sub (butlast (u @ sub))"
proof
  let ?s = "u @ sub" and ?n = "length sub"
  assume "py_in sub (butlast ?s)"
  then obtain a b where ab: "butlast ?s = a @ sub @ b" unfolding py_in_iff by blast
  obtain i where i: "py_find sub ?s = Some i"
    using py_in_append [of sub u "[]"] by (auto simp: py_in_def)
  have "\<not> i > length a"
  proof
    assume "i > length a"
    from py_find_first [OF i this] ab show False using sub(1)
      by (metis append.assoc append_butlast_last_id append_eq_conv_conj append_is_Nil_conv prefixI)
  qed
  moreover have "length a + ?n < length ?s" using ab sub(1)
    by (metis (no_types, lifting) One_nat_def Suc_pred add_leD1 append_is_Nil_conv le_imp_less_Suc length_append
        length_butlast length_greater_0_conv nat_add_left_cancel_le le_add1)
  ultimately have lt: "i < length u" by simp
  from one py_count_found [OF sub(1) i] have "\<not> py_in sub (drop (i + ?n) ?s)"
    using py_count_zero [OF sub(1)] by simp
  then have over: "length u < i + ?n"
    using py_in_append [of sub "drop (i + ?n) u" "[]"] by (cases "i + ?n \<le> length u") auto
  from py_find_SomeD [OF i] have t: "take ?n (drop i ?s) = sub" by (rule conjunct2)
  let ?d = "length u - i"
  have "drop ?d sub = take (?n - ?d) sub"
  proof -
    have "drop ?d sub = drop ?d (take ?n (drop i ?s))" by (simp only: t)
    also have "\<dots> = take (?n - ?d) (drop (i + ?d) ?s)" by (simp only: drop_take drop_drop add.commute)
    also have "drop (i + ?d) ?s = sub" using lt by simp
    finally show ?thesis .
  qed
  then have "prefix (drop ?d sub) sub" by (simp add: take_is_prefix)
  moreover have "0 < ?d" "?d < ?n" using lt over by linarith+
  ultimately show False using sub(2) by blast
qed

subsection \<open>Lines before and behind a newline\<close>

lemma splitlines_at_newline: "splitlines_keep (u @ LF # v) = splitlines_keep (u @ [LF]) @ splitlines_keep v"
proof (induction u rule: splitlines_keep.induct)
  case (2 c cs)
  have br: "py_break LF" by (simp add: py_break_def)
  consider (crlf) "c = CR" "cs \<noteq> []" "hd cs = LF" | (end_cr) "c = CR" "cs = []"
    | (brk) "\<not> (c = CR \<and> cs \<noteq> [] \<and> hd cs = LF)" "cs \<noteq> []" "py_break c" | (brk1) "c \<noteq> CR" "cs = []" "py_break c"
    | (char) "\<not> py_break c" by (cases cs) auto
  then show ?case
  proof cases
    case crlf
    with 2 show ?thesis by simp
  next
    case char
    then have "c \<noteq> CR" by (auto simp: py_break_def)
    have ne: "splitlines_keep (cs @ [LF]) \<noteq> []" by (cases cs) (auto split: list.splits)
    from 2 char \<open>c \<noteq> CR\<close> have "splitlines_keep (cs @ LF # v) = splitlines_keep (cs @ [LF]) @ splitlines_keep v" by simp
    with char \<open>c \<noteq> CR\<close> ne show ?thesis by (auto split: list.splits)
  qed (use 2 br in auto)
qed (simp add: py_break_def)

end
