(* ===== verification/Kbuild_Laws.thy ===== *)
theory Kbuild_Laws
  imports Kbuild Text_Laws Regex_Lines
begin

text \<open>
  Installing the Kbuild block and recognising it fit together: what \<^verbatim>\<open>install_kbuild\<close> writes is what
  \<^verbatim>\<open>installed_kbuild_block\<close>, and with it a second run and the \<^verbatim>\<open>verify\<close> command, accepts.
\<close>

subsection \<open>The shape of the blocks\<close>

text \<open>Every block starts with the marker line and the guard and ends with the object list; they differ
  in the flags in between.\<close>

definition block_head :: string where
  "block_head = ''# '' @ MARKER"

definition block_guard :: string where
  "block_guard =
     ''ifneq ($(CONFIG_KSU_ABK_SANDBOX),y)\<newline>'' @
     ''$(error ABK KSU Sandbox requires CONFIG_KSU_ABK_SANDBOX=y; run both ABK stages)\<newline>'' @
     ''endif\<newline>''"

definition block_objs :: string where
  "block_objs =
     ''kernelsu-objs += abk_sandbox/core.o\<newline>'' @
     ''kernelsu-objs += abk_sandbox/policy.o\<newline>'' @
     ''kernelsu-objs += abk_sandbox/namespace.o\<newline>'' @
     ''kernelsu-objs += abk_sandbox/lsm.o''"

definition block_with :: "string \<Rightarrow> string" where
  "block_with middle = block_head @ LF # block_guard @ middle @ block_objs"

definition never_flags :: string where
  "never_flags = ''subdir-ccflags-y += -DABK_KSU_RUNTIME_TAIL_SOURCE_VERIFIED=0''"

definition resukisu_flags :: string where
  "resukisu_flags = manual_hook_guards @ ''subdir-ccflags-y += -DABK_KSU_RUNTIME_TAIL_SOURCE_VERIFIED=1''"

definition old_never_flags :: string where
  "old_never_flags = ''CFLAGS_abk_sandbox/lsm.o += -DABK_KSU_ALLOW_RUNTIME_KSU_TAIL=0''"

definition old_resukisu_flags :: string where
  "old_resukisu_flags = manual_hook_guards @
     ''ifeq ($(CONFIG_KSU_TRACEPOINT_HOOK),y)\<newline>'' @
     ''CFLAGS_abk_sandbox/lsm.o += -DABK_KSU_ALLOW_RUNTIME_KSU_TAIL=0\<newline>'' @
     ''else ifeq ($(CONFIG_KSU_SUSFS),y)\<newline>'' @
     ''CFLAGS_abk_sandbox/lsm.o += -DABK_KSU_ALLOW_RUNTIME_KSU_TAIL=1\<newline>'' @
     ''else\<newline>'' @
     ''CFLAGS_abk_sandbox/lsm.o += -DABK_KSU_ALLOW_RUNTIME_KSU_TAIL=0\<newline>'' @
     ''endif''"

definition owned_middles :: "string list" where
  "owned_middles = [[], never_flags @ [LF], resukisu_flags @ [LF], old_never_flags @ [LF], old_resukisu_flags @ [LF]]"

lemma render_shape: "render_kbuild_block flags = LF # LF # block_with (flags @ [LF]) @ [LF]"
  by (simp add: render_kbuild_block_def block_with_def block_head_def block_guard_def block_objs_def)

lemma legacy_shape: "KBUILD_BLOCK_LEGACY = LF # LF # block_with [] @ [LF]"
  by (simp add: KBUILD_BLOCK_LEGACY_def block_with_def block_head_def block_guard_def block_objs_def)

lemma strip_block [simp]: "py_strip (LF # LF # block_with middle @ [LF]) = block_with middle"
  by (simp add: py_strip_def py_lstrip_def py_rstrip_def block_with_def block_head_def block_objs_def py_space_def)

lemma lstrip_block [simp]: "py_lstrip_char LF (LF # LF # block_with middle @ [LF]) = block_with middle @ [LF]"
  by (simp add: py_lstrip_char_def block_with_def block_head_def)

lemma middles_distinct: "distinct owned_middles"
  by (simp add: owned_middles_def never_flags_def resukisu_flags_def old_never_flags_def old_resukisu_flags_def
      manual_hook_guards_def)

lemma py_fromkeys_distinct: "distinct xs \<Longrightarrow> py_fromkeys xs = xs"
  by (induction xs) (auto simp: filter_id_conv)

lemma block_with_inj [simp]: "block_with a = block_with b \<longleftrightarrow> a = b"
  by (simp add: block_with_def)

lemma kbuild_block_shapes:
  "kbuild_block RUNTIME_KSU_TAIL_NEVER = Inr (LF # LF # block_with (never_flags @ [LF]) @ [LF])"
  "kbuild_block RUNTIME_KSU_TAIL_RESUKISU_SUSFS = Inr (LF # LF # block_with (resukisu_flags @ [LF]) @ [LF])"
  "intermediate_kbuild_blocks = [LF # LF # block_with (old_never_flags @ [LF]) @ [LF],
     LF # LF # block_with (old_resukisu_flags @ [LF]) @ [LF]]"
  unfolding render_shape [symmetric] kbuild_block_def never_flags_def resukisu_flags_def
      intermediate_kbuild_blocks_def old_never_flags_def old_resukisu_flags_def
  by (simp_all only: refl if_True) (simp add: RUNTIME_KSU_TAIL_NEVER_def RUNTIME_KSU_TAIL_RESUKISU_SUSFS_def)

lemma kbuild_block_cases:
  assumes "kbuild_block policy = Inr block"
  obtains middle where "block = LF # LF # block_with middle @ [LF]"
    "middle = never_flags @ [LF] \<or> middle = resukisu_flags @ [LF]"
proof -
  have "policy = RUNTIME_KSU_TAIL_NEVER \<or> policy = RUNTIME_KSU_TAIL_RESUKISU_SUSFS"
    using assms by (simp add: kbuild_block_def split: if_splits)
  with assms that show thesis using kbuild_block_shapes(1,2) by auto
qed

lemma owned_shape: "owned_kbuild_blocks = Inr (map block_with owned_middles)"
proof -
  have "distinct (map block_with owned_middles)"
    using middles_distinct by (simp add: distinct_map inj_on_def)
  then have "py_fromkeys (map block_with owned_middles) = map block_with owned_middles"
    by (rule py_fromkeys_distinct)
  moreover have "owned_kbuild_blocks = Inr (py_fromkeys (map block_with owned_middles))"
    by (simp only: owned_kbuild_blocks_def kbuild_block_shapes legacy_shape rbind_Inr strip_block list.map
        owned_middles_def append_Cons append_Nil)
  ultimately show ?thesis by simp
qed

subsection \<open>Facts about the blocks, by evaluation\<close>

definition tail_tokens :: "string list" where
  "tail_tokens = [''ABK_KSU_RUNTIME_TAIL_SOURCE_VERIFIED'', ''ABK_KSU_ALLOW_RUNTIME_KSU_TAIL'']"

definition objs_front :: string where
  "objs_front =
     ''kernelsu-objs += abk_sandbox/core.o\<newline>'' @
     ''kernelsu-objs += abk_sandbox/policy.o\<newline>'' @
     ''kernelsu-objs += abk_sandbox/namespace.o''"

definition objs_last :: string where
  "objs_last = ''kernelsu-objs += abk_sandbox/lsm.o''"

lemma objs_split: "block_objs = objs_front @ LF # objs_last"
  by (simp add: block_objs_def objs_front_def objs_last_def)

definition guard_front :: string where
  "guard_front =
     ''ifneq ($(CONFIG_KSU_ABK_SANDBOX),y)\<newline>'' @
     ''$(error ABK KSU Sandbox requires CONFIG_KSU_ABK_SANDBOX=y; run both ABK stages)\<newline>'' @
     ''endif''"

lemma guard_split: "block_guard = guard_front @ [LF]"
  by (simp add: block_guard_def guard_front_def)

lemma override_line: "line_regex override_pattern"
  by (simp add: override_pattern_def rblank_def rdot_def)

text \<open>Neither the marker nor an \<^verbatim>\<open>override\<close> directive occurs behind the head of a block.\<close>

definition harmless :: "string \<Rightarrow> bool" where
  "harmless t \<longleftrightarrow> \<not> py_in MARKER t \<and> re_finditer override_pattern t = []"

lemma harmless_lines [simp]: "harmless (u @ LF # v) \<longleftrightarrow> harmless u \<and> harmless v"
  by (auto simp: harmless_def py_in_lines MARKER_def re_finditer_lines [OF override_line])

lemma pieces_harmless: "list_all harmless
    [guard_front, never_flags, resukisu_flags, old_never_flags, old_resukisu_flags, objs_front, objs_last]"
  by code_simp

lemma middle_facts:
  assumes "m \<in> set owned_middles"
  shows "harmless (block_guard @ m @ objs_front)" "harmless (block_guard @ m @ block_objs)"
proof -
  from assms obtain f where "m = [] \<or> m = f @ [LF] \<and> harmless f"
    using pieces_harmless by (auto simp: owned_middles_def)
  then show "harmless (block_guard @ m @ objs_front)" "harmless (block_guard @ m @ block_objs)"
    using pieces_harmless by (auto simp: guard_split objs_split)
qed

lemma head_facts: "\<not> py_in block_head (tl block_head)" "\<not> py_in MARKER (butlast block_head)"
    "re_finditer override_pattern block_head = []" "list_all (\<lambda>tok. \<not> py_in tok block_head) tail_tokens"
    "re_finditer override_pattern (objs_last @ [LF]) = []"
  by code_simp+

lemma plain_tokens:
  "block_head \<noteq> []" "MARKER \<noteq> []" "LF \<notin> set block_head" "LF \<notin> set MARKER" "list_all (\<lambda>c. \<not> py_space c) MARKER"
  "list_all (\<lambda>tok. tok \<noteq> [] \<and> LF \<notin> set tok \<and> list_all (\<lambda>c. \<not> py_space c) tok) tail_tokens"
  by code_simp+

lemma marker_unbordered: "0 < d \<Longrightarrow> d < length MARKER \<Longrightarrow> \<not> prefix (drop d MARKER) MARKER"
proof -
  have "list_all (\<lambda>d. \<not> prefix (drop d MARKER) MARKER) [1..<length MARKER]" by code_simp
  then show "0 < d \<Longrightarrow> d < length MARKER \<Longrightarrow> \<not> prefix (drop d MARKER) MARKER" by (simp add: list_all_iff)
qed

text \<open>The blocks differ in the first character of their middle part, the two with the manual hook
  guards in the first character behind them.\<close>

lemma middle_starts:
  "\<exists>w. block_objs = CHR ''k'' # w" "\<exists>w. never_flags = CHR ''s'' # w" "\<exists>w. old_never_flags = CHR ''C'' # w"
  "\<exists>w. manual_hook_guards = CHR ''i'' # w" "\<exists>w. resukisu_flags = manual_hook_guards @ CHR ''s'' # w"
  "\<exists>w. old_resukisu_flags = manual_hook_guards @ CHR ''i'' # w"
  by (simp_all add: block_objs_def never_flags_def old_never_flags_def manual_hook_guards_def resukisu_flags_def
      old_resukisu_flags_def)

lemma owned_not_prefix:
  assumes "m \<in> set owned_middles" "m' \<in> set owned_middles" "m' \<noteq> m"
  shows "\<not> prefix (block_with m') (block_with m @ ws)"
proof -
  obtain k s c i r q where st: "block_objs = CHR ''k'' # k" "never_flags = CHR ''s'' # s"
    "old_never_flags = CHR ''C'' # c" "manual_hook_guards = CHR ''i'' # i"
    "resukisu_flags = manual_hook_guards @ CHR ''s'' # r" "old_resukisu_flags = manual_hook_guards @ CHR ''i'' # q"
    using middle_starts by blast
  have "\<not> prefix (m' @ block_objs) (m @ block_objs @ ws)"
    using assms by (auto simp: owned_middles_def st)
  then show ?thesis by (simp add: block_with_def)
qed

subsection \<open>A text with one block\<close>

text \<open>What must hold around the block: no override directive, no marker and no tail token before it,
  balanced conditionals above it, and only white space behind it.\<close>

definition block_site :: "path \<Rightarrow> string \<Rightarrow> string \<Rightarrow> bool" where
  "block_site path pre ws \<longleftrightarrow>
     re_finditer override_pattern (pre @ block_head) = [] \<and> re_finditer override_pattern (objs_last @ ws) = [] \<and>
     \<not> py_in MARKER (butlast (pre @ block_head)) \<and> list_all py_space ws \<and>
     make_conditional_depth path pre (length pre) = Inr 0 \<and>
     list_all (\<lambda>tok. py_count tok (pre @ block_head) = 0) tail_tokens"

lemma site_text: "pre @ block_with m @ ws = (pre @ block_head) @ LF # block_guard @ m @ block_objs @ ws"
  by (simp add: block_with_def)

lemma marker_in_spaces: "list_all py_space ws \<Longrightarrow> \<not> py_in MARKER ws"
  using py_count_spaces [OF plain_tokens(2,5), of ws "[]"] py_count_zero [OF plain_tokens(2)] plain_tokens(2) by simp

lemma marker_head: "py_in block_head t \<Longrightarrow> py_in MARKER t"
  unfolding py_in_iff block_head_def by (metis append.assoc)

lemma site_overrides:
  assumes "m \<in> set owned_middles"
  shows "re_finditer override_pattern (pre @ block_with m @ ws) = [] \<longleftrightarrow>
    re_finditer override_pattern (pre @ block_head) = [] \<and> re_finditer override_pattern (objs_last @ ws) = []"
proof -
  have t: "pre @ block_with m @ ws = (pre @ block_head) @ LF # (block_guard @ m @ objs_front) @ LF # (objs_last @ ws)"
    by (simp add: block_with_def objs_split)
  have "re_finditer override_pattern (block_guard @ m @ objs_front) = []"
    using middle_facts(1) [OF assms] by (simp add: harmless_def)
  then show ?thesis
    unfolding t re_finditer_lines [OF override_line] by (simp only: append_Nil append_is_Nil_conv map_is_Nil_conv)
qed

lemma site_marker:
  assumes "m \<in> set owned_middles" "list_all py_space ws"
  shows "py_count MARKER (pre @ block_with m @ ws) = py_count MARKER (pre @ block_head)"
proof -
  have "py_count MARKER ((block_guard @ m @ block_objs) @ ws) = py_count MARKER (block_guard @ m @ block_objs)"
    by (rule py_count_spaces [OF plain_tokens(2,5) assms(2)])
  moreover have "py_count MARKER (block_guard @ m @ block_objs) = 0"
    using middle_facts(2) [OF assms(1)] py_count_zero [OF plain_tokens(2)] by (simp add: harmless_def)
  ultimately show ?thesis
    unfolding site_text using py_count_lines [OF plain_tokens(2,4), of "pre @ block_head" "block_guard @ m @ block_objs @ ws"]
    by simp
qed

lemma site_tokens:
  assumes "tok \<in> set tail_tokens" "list_all py_space ws"
  shows "py_count tok (pre @ block_with m @ ws) = py_count tok (pre @ block_head) + py_count tok (block_with m)"
proof -
  have tok: "tok \<noteq> []" "LF \<notin> set tok" "list_all (\<lambda>c. \<not> py_space c) tok"
    using assms(1) plain_tokens(6) by (auto simp: list_all_iff)
  have "py_count tok ((block_guard @ m @ block_objs) @ ws) = py_count tok (block_guard @ m @ block_objs)"
    by (rule py_count_spaces [OF tok(1,3) assms(2)])
  moreover have "py_count tok (block_with m) = py_count tok block_head + py_count tok (block_guard @ m @ block_objs)"
    unfolding block_with_def by (rule py_count_lines [OF tok(1,2)])
  moreover have "py_count tok block_head = 0"
    using head_facts(4) assms(1) py_count_zero [OF tok(1)] by (auto simp: list_all_iff)
  ultimately show ?thesis
    unfolding site_text using py_count_lines [OF tok(1,2), of "pre @ block_head" "block_guard @ m @ block_objs @ ws"]
    by simp
qed

text \<open>Every owned block but the one at the site is absent.\<close>

lemma take_within: "j + n \<le> k \<Longrightarrow> take n (drop j (take k t)) = take n (drop j t)"
  by (simp add: drop_take min_def)

lemma site_no_early:
  assumes "\<not> py_in MARKER (butlast (pre @ block_head))" "j < length pre"
  shows "\<not> prefix (block_with m') (drop j (pre @ block_with m @ ws))"
proof
  let ?t = "pre @ block_with m @ ws" and ?n = "length block_head"
  assume "prefix (block_with m') (drop j ?t)"
  then have "prefix block_head (drop j ?t)"
    by (rule prefix_order.trans [rotated]) (simp add: block_with_def)
  then have "take ?n (drop j ?t) = block_head" by (metis append_eq_conv_conj prefix_def)
  moreover have "take ?n (drop j ?t) = take ?n (drop j (butlast (pre @ block_head)))"
  proof -
    have "butlast (pre @ block_head) = take (length (pre @ block_head) - 1) ((pre @ block_head) @ LF # block_guard @ m @ block_objs @ ws)"
      by (simp only: butlast_conv_take take_append) simp
    then show ?thesis
      using take_within [of j ?n "length (pre @ block_head) - 1" ?t] assms(2) by (simp only: site_text) simp
  qed
  ultimately have "py_in block_head (butlast (pre @ block_head))"
    by (metis append_take_drop_id prefix_py_in py_in_drop take_is_prefix)
  with assms(1) marker_head show False by blast
qed

lemma tail_no_head: "m \<in> set owned_middles \<Longrightarrow> list_all py_space ws \<Longrightarrow> \<not> py_in block_head (tl (block_with m @ ws))"
proof -
  assume m: "m \<in> set owned_middles" and ws: "list_all py_space ws"
  have "tl (block_with m @ ws) = tl block_head @ LF # (block_guard @ m @ block_objs @ ws)"
    using plain_tokens(1) by (simp add: block_with_def tl_append2)
  moreover have "\<not> py_in MARKER ((block_guard @ m @ block_objs) @ ws)"
    using middle_facts(2) [OF m] py_count_spaces [OF plain_tokens(2,5) ws] py_count_zero [OF plain_tokens(2)]
    by (metis harmless_def)
  ultimately show "\<not> py_in block_head (tl (block_with m @ ws))"
    using py_in_lines [OF plain_tokens(1,3)] head_facts(1) marker_head by auto
qed

lemma block_with_Cons: "block_with m = CHR ''#'' # tl (block_with m)" "block_with m \<noteq> []"
  by (simp_all add: block_with_def block_head_def)

lemma head_of_block: "prefix block_head (block_with m)"
  by (simp add: block_with_def)

lemma count_at_site:
  assumes "m \<in> set owned_middles" "m' \<in> set owned_middles" "list_all py_space ws"
  shows "py_count (block_with m') (block_with m @ ws) = (if m' = m then 1 else 0)"
proof -
  let ?c = "block_with m'" and ?x = "block_with m @ ws"
  have x: "?x = CHR ''#'' # tl ?x" using block_with_Cons(1) [of m] by (metis append_Cons list.sel(3))
  note step = py_count_Cons [OF block_with_Cons(2), of m' "CHR ''#''" "tl ?x", folded x]
  have none: "py_count ?c (drop n (tl ?x)) = 0" for n
    using tail_no_head [OF assms(1,3)] py_in_prefix [OF head_of_block] py_in_drop py_count_zero [OF block_with_Cons(2)]
    by blast
  show ?thesis
  proof (cases "m' = m")
    case True
    have "drop (length ?c) ?x = drop (length ?c - 1) (tl ?x)"
      using block_with_Cons(2) [of m'] by (cases "length ?c") (auto simp: drop_Suc [symmetric])
    with True step none [of "length ?c - 1"] show ?thesis by simp
  next
    case False
    with step none [of 0] owned_not_prefix [OF assms(1,2) False] show ?thesis by simp
  qed
qed

lemma count_in_text:
  assumes "block_site path pre ws" "m \<in> set owned_middles" "m' \<in> set owned_middles"
  shows "py_count (block_with m') (pre @ block_with m @ ws) = (if m' = m then 1 else 0)"
proof -
  have "py_count (block_with m') (pre @ block_with m @ ws) = py_count (block_with m') (block_with m @ ws)"
    using site_no_early [of pre _ m' m ws] assms(1)
    by (intro no_early_match(1) block_with_Cons(2)) (auto simp: block_site_def)
  with count_at_site [OF assms(2,3)] assms(1) show ?thesis by (simp add: block_site_def)
qed

lemma concat_replicate_unique:
  "distinct xs \<Longrightarrow> x \<in> set xs \<Longrightarrow> (\<And>y. y \<in> set xs \<Longrightarrow> f y = (if y = x then 1 else 0)) \<Longrightarrow>
   concat (map (\<lambda>y. replicate (f y) (g y)) xs) = [g x]"
proof (induction xs)
  case (Cons y ys)
  show ?case
  proof (cases "y = x")
    case True
    with Cons.prems have "\<forall>z\<in>set ys. f z = 0" by auto
    then have "concat (map (\<lambda>y. replicate (f y) (g y)) ys) = []" by simp
    with True Cons.prems show ?thesis by simp
  qed (use Cons in auto)
qed simp

lemma find_at_site:
  assumes "block_site path pre ws"
  shows "py_find (block_with m) (pre @ block_with m @ ws) = Some (length pre)"
proof -
  have "py_find (block_with m) (block_with m @ ws) = Some 0"
    using block_with_Cons [of m] by (cases "block_with m") auto
  moreover have "py_find (block_with m) (pre @ block_with m @ ws) =
      map_option (\<lambda>k. k + length pre) (py_find (block_with m) (block_with m @ ws))"
    using site_no_early [of pre _ m m ws] assms
    by (intro no_early_match(2) block_with_Cons(2)) (auto simp: block_site_def)
  ultimately show ?thesis by simp
qed

lemma head_snoc: "pre @ block_head = (pre @ ''# '') @ MARKER"
  by (simp add: block_head_def)

lemma marker_once: "\<not> py_in MARKER (butlast (pre @ block_head)) \<longleftrightarrow> py_count MARKER (pre @ block_head) = 1"
proof
  assume no: "\<not> py_in MARKER (butlast (pre @ block_head))"
  let ?u = "pre @ ''# ''"
  have "\<not> prefix MARKER (drop j (?u @ MARKER))" if "j < length ?u" for j
  proof
    assume "prefix MARKER (drop j (?u @ MARKER))"
    then have "take (length MARKER) (drop j (?u @ MARKER)) = MARKER" by (metis append_eq_conv_conj prefix_def)
    moreover have "butlast (?u @ MARKER) = take (length (?u @ MARKER) - 1) (?u @ MARKER)" by (rule butlast_conv_take)
    moreover have "j + length MARKER \<le> length (?u @ MARKER) - 1" using that by (simp only: length_append)
    ultimately have "take (length MARKER) (drop j (butlast (?u @ MARKER))) = MARKER" by (simp only: take_within)
    then have "prefix MARKER (drop j (butlast (?u @ MARKER)))" by (metis take_is_prefix)
    with no show False using prefix_py_in py_in_drop by (metis head_snoc)
  qed
  then have "py_count MARKER (?u @ MARKER) = py_count MARKER MARKER" by (intro no_early_match(1) plain_tokens(2))
  moreover have "py_count MARKER MARKER = 1" by code_simp
  ultimately show "py_count MARKER (pre @ block_head) = 1" by (simp only: head_snoc)
next
  assume "py_count MARKER (pre @ block_head) = 1"
  then have "py_count MARKER ((pre @ ''# '') @ MARKER) = 1" by (simp only: head_snoc)
  then have "\<not> py_in MARKER (butlast ((pre @ ''# '') @ MARKER))"
    using plain_tokens(2) marker_unbordered by (intro counted_once_at_end)
  then show "\<not> py_in MARKER (butlast (pre @ block_head))" unfolding head_snoc .
qed

lemma py_strip_spaces: "list_all py_space ws \<longleftrightarrow> py_strip ws = []"
proof
  assume "py_strip ws = []"
  then have sp: "\<forall>c\<in>set (py_lstrip ws). py_space c" by (simp add: py_strip_def py_rstrip_def dropWhile_eq_Nil_conv)
  have "py_lstrip ws = []"
  proof (rule ccontr)
    assume "py_lstrip ws \<noteq> []"
    then have "\<not> py_space (hd (py_lstrip ws))" "hd (py_lstrip ws) \<in> set (py_lstrip ws)"
      by (simp_all add: py_lstrip_def hd_dropWhile)
    with sp show False by blast
  qed
  then show "list_all py_space ws" by (simp add: py_lstrip_def dropWhile_eq_Nil_conv list_all_iff)
qed (auto simp: py_strip_def py_lstrip_def py_rstrip_def dropWhile_eq_Nil_conv list_all_iff dest: set_dropWhileD)

lemma depth_at_site: "make_conditional_depth path (pre @ t) (length pre) = make_conditional_depth path pre (length pre)"
  by (simp add: make_conditional_depth_def)

lemma depth_zero: "make_conditional_depth path t n = Inr k \<Longrightarrow> make_conditional_depth path t n = Inr 0"
  by (auto simp: make_conditional_depth_def res_simps split: if_splits)

text \<open>The recogniser accepts a block at a site, and whatever it accepts is a block at a site.\<close>

lemma site_recognised:
  assumes site: "block_site path pre ws" and m: "m \<in> set owned_middles"
  shows "installed_kbuild_block path (pre @ block_with m @ ws) = Inr (block_with m)"
proof -
  let ?t = "pre @ block_with m @ ws"
  have "validate_kbuild_directives path ?t = Inr ()"
    using site site_overrides [OF m] by (simp add: validate_kbuild_directives_def block_site_def)
  moreover have "py_count MARKER ?t = 1"
    using site site_marker [OF m] by (simp add: block_site_def marker_once)
  moreover have "concat (map (\<lambda>c. replicate (py_count c ?t) c) (map block_with owned_middles)) = [block_with m]"
    using concat_replicate_unique [OF middles_distinct m, of "\<lambda>y. py_count (block_with y) ?t" block_with]
      count_in_text [OF site m] by (simp add: o_def)
  moreover have "py_index ?t (block_with m) = Inr (length pre)"
    by (simp add: py_index_def find_at_site [OF site])
  moreover have "make_conditional_depth path ?t (length pre) = Inr 0"
    using site by (simp add: depth_at_site block_site_def)
  moreover have "py_strip (drop (length pre + length (block_with m)) ?t) = []"
    using site py_strip_spaces by (simp add: block_site_def)
  moreover have "\<not> list_ex (\<lambda>tok. py_count tok ?t \<noteq> py_count tok (block_with m)) tail_tokens"
    using site site_tokens by (auto simp: block_site_def list_ex_iff list_all_iff)
  ultimately show ?thesis
    by (simp add: installed_kbuild_block_def owned_shape tail_tokens_def Let_def)
qed

lemma recognised_site:
  assumes "installed_kbuild_block path t = Inr b"
  obtains pre ws m where "t = pre @ block_with m @ ws" "b = block_with m" "m \<in> set owned_middles" "block_site path pre ws"
proof -
  from assms have v: "re_finditer override_pattern t = []" and one: "py_count MARKER t = 1"
    and rest: "(case concat (map (\<lambda>c. replicate (py_count c t) c) (map block_with owned_middles)) of
            [installed] \<Rightarrow>
              rbind (py_index t installed) (\<lambda>start.
              rbind (make_conditional_depth path t start) (\<lambda>_.
              if py_strip (drop (start + length installed) t) \<noteq> [] then Inl (kbuild_conflict path)
              else if list_ex (\<lambda>token. py_count token t \<noteq> py_count token installed) tail_tokens
              then Inl (kbuild_conflict path)
              else Inr installed))
          | _ \<Rightarrow> Inl (kbuild_conflict path)) = Inr b"
    unfolding installed_kbuild_block_def owned_shape tail_tokens_def [symmetric] Let_def rbind_Inr
      validate_kbuild_directives_def
    by (simp_all only: rbind_eq_Inr raise_if_eq_Inr split: if_splits) simp_all
  define found where "found = concat (map (\<lambda>c. replicate (py_count c t) c) (map block_with owned_middles))"
  from rest obtain c where c: "found = [c]" unfolding found_def [symmetric] by (simp split: list.splits)
  from rest have "rbind (py_index t c) (\<lambda>start.
      rbind (make_conditional_depth path t start) (\<lambda>_.
      if py_strip (drop (start + length c) t) \<noteq> [] then Inl (kbuild_conflict path)
      else if list_ex (\<lambda>token. py_count token t \<noteq> py_count token c) tail_tokens then Inl (kbuild_conflict path)
      else Inr c)) = Inr b"
    unfolding found_def [symmetric] c by simp
  then obtain start k where start: "py_index t c = Inr start" and d: "make_conditional_depth path t start = Inr k"
    and ws: "py_strip (drop (start + length c) t) = []"
    and toks: "\<not> list_ex (\<lambda>token. py_count token t \<noteq> py_count token c) tail_tokens" and b: "b = c"
    by (auto simp only: rbind_eq_Inr sum.inject sum.distinct split: if_splits)
  from c have "c \<in> set found" by simp
  then obtain m where m: "m \<in> set owned_middles" and cm: "c = block_with m" by (auto simp: found_def)
  let ?pre = "take start t" and ?ws = "drop (start + length c) t"
  from start have "py_find c t = Some start" by (simp add: py_index_def split: option.splits)
  then have t: "t = ?pre @ block_with m @ ?ws" and len: "length ?pre = start"
    using py_find_found [of c t start] py_find_SomeD [of c t start] cm by auto
  have sp: "list_all py_space ?ws" using ws py_strip_spaces by blast
  have "block_site path ?pre ?ws"
    unfolding block_site_def marker_once
  proof (intro conjI)
    show "re_finditer override_pattern (?pre @ block_head) = []" "re_finditer override_pattern (objs_last @ ?ws) = []"
      using v t site_overrides [OF m, of ?pre ?ws] by simp_all
    show "py_count MARKER (?pre @ block_head) = 1" using one t site_marker [OF m sp, of ?pre] by simp
    show "list_all py_space ?ws" by (rule sp)
    show "make_conditional_depth path ?pre (length ?pre) = Inr 0"
      using depth_zero [OF d] t len depth_at_site [of path ?pre "block_with m @ ?ws"] by simp
    show "list_all (\<lambda>tok. py_count tok (?pre @ block_head) = 0) tail_tokens"
      using toks t site_tokens [OF _ sp, of _ ?pre m] cm by (auto simp: list_ex_iff list_all_iff)
  qed
  with t b cm m that show thesis by blast
qed

lemma policy_block:
  assumes "kbuild_block policy = Inr block"
  obtains m where "m \<in> set owned_middles" "py_strip block = block_with m" "py_lstrip_char LF block = block_with m @ [LF]"
proof -
  obtain m where m: "block = LF # LF # block_with m @ [LF]" "m = never_flags @ [LF] \<or> m = resukisu_flags @ [LF]"
    using kbuild_block_cases [OF assms] .
  from m(2) have "m \<in> set owned_middles" by (auto simp: owned_middles_def)
  then show thesis by (rule that) (simp_all only: m(1) strip_block lstrip_block)
qed

text \<open>The site that a first installation makes: a newline behind the stripped text.\<close>

lemma fresh_site:
  assumes "re_finditer override_pattern u = []" "\<not> py_in MARKER u" "make_conditional_depth path u (length u) = Inr 0"
    and "list_all (\<lambda>tok. \<not> py_in tok u) tail_tokens" "u \<noteq> [] \<Longrightarrow> \<not> py_space (last u)"
  shows "block_site path (u @ [LF]) [LF]"
  unfolding block_site_def
proof (intro conjI)
  have head: "(u @ [LF]) @ block_head = u @ LF # block_head" by simp
  show "re_finditer override_pattern ((u @ [LF]) @ block_head) = []"
    unfolding head re_finditer_lines [OF override_line] using assms(1) head_facts(3) by simp
  show "re_finditer override_pattern (objs_last @ [LF]) = []" by (rule head_facts(5))
  have "butlast (u @ LF # block_head) = u @ LF # butlast block_head" using plain_tokens(1) by (simp add: butlast_append)
  then show "\<not> py_in MARKER (butlast ((u @ [LF]) @ block_head))"
    unfolding head using assms(2) head_facts(2) py_in_lines [OF plain_tokens(2,4)] by simp
  show "list_all py_space [LF]" by (simp add: py_space_def)
  show "list_all (\<lambda>tok. py_count tok ((u @ [LF]) @ block_head) = 0) tail_tokens"
    unfolding head using assms(4) head_facts(4) plain_tokens(6)
    by (auto simp: list_all_iff py_count_zero py_in_lines)
  have "py_splitlines (u @ [LF]) = py_splitlines u \<or> u = []"
    using assms(5) py_splitlines_snoc [of u] by (auto simp: py_break_def py_space_def)
  moreover have "make_conditional_depth path ([] @ [LF]) (length ([] @ [LF])) = Inr 0"
    by (simp add: make_conditional_depth_def py_splitlines_def chop_break_def py_break_def py_strip_def py_lstrip_def
        py_rstrip_def suffix_def)
  ultimately show "make_conditional_depth path (u @ [LF]) (length (u @ [LF])) = Inr 0"
    using assms(3) by (auto simp: make_conditional_depth_def)
qed

subsection \<open>Properties\<close>


definition kbuild_state :: "string \<Rightarrow> state" where
  "kbuild_state t = \<lparr>fsys = [([], DirN), ([''Kbuild''], FileN t)], active_transaction = None, validation_only = False,
     work_mode = [], stdout = [], stderr = []\<rparr>"

lemma read_kbuild_state: "list_all (\<lambda>c. c \<noteq> CR) t \<Longrightarrow> read [''Kbuild''] (kbuild_state t) = (Inr t, kbuild_state t)"
proof -
  assume "list_all (\<lambda>c. c \<noteq> CR) t"
  then have "universal_newlines t = t" by (induction t) auto
  then show ?thesis
    by (simp add: read_def catch_def read_text_def bind_def gets_def kbuild_state_def stat_def realpath_def max_links_def
        link_target_def ret_def numeral_eq_Suc)
qed


text \<open>
  C11: a later installation migrates. In a text with a recognised block - the current one of either policy,
  the legacy one or an intermediate one - \<^verbatim>\<open>install_kbuild\<close> leaves the file alone if the block is the
  wanted one, and otherwise writes a text in which the wanted block is recognised.
\<close>

theorem kbuild_migration_recognised:
  assumes block: "kbuild_block policy = Inr block" and contents: "read path s = (Inr t, s)"
    and old: "installed_kbuild_block path t = Inr installed"
    and out: "out = py_replace1 t installed (py_strip block)"
  shows "install_kbuild path block s = (if installed = py_strip block then (Inr (), s) else write_file path out s) \<and>
    installed_kbuild_block path out = Inr (py_strip block)"
proof -
  obtain m where m: "m \<in> set owned_middles" "py_strip block = block_with m"
    using policy_block [OF block] .
  obtain pre ws k where t: "t = pre @ block_with k @ ws" and k: "installed = block_with k" "k \<in> set owned_middles"
    and site: "block_site path pre ws" using recognised_site [OF old] .
  have "out = pre @ block_with m @ ws"
    unfolding out m(2) k(1) t by (simp add: py_replace1_def find_at_site [OF site])
  with site_recognised [OF site m(1)] m(2) have "installed_kbuild_block path out = Inr (py_strip block)" by simp
  moreover have "py_in MARKER t"
    using old py_count_zero [OF plain_tokens(2), of t]
    by (auto simp: installed_kbuild_block_def Let_def res_simps split: if_splits)
  moreover have "validate_kbuild_directives path t = Inr ()"
    using old by (auto simp: installed_kbuild_block_def rbind_eq_Inr)
  ultimately show ?thesis
    using contents old by (simp add: install_kbuild_def bind_def lift_def out Let_def ret_def)
qed

theorem kbuild_migration_recognised_witness:
  "installed_kbuild_block [''Kbuild''] (''obj-y := a.o\<newline>'' @ block_with (resukisu_flags @ [LF]) @ [LF])
     = Inr (block_with (resukisu_flags @ [LF]))"
proof -
  let ?pre = "''obj-y := a.o\<newline>''"
  let ?t = "?pre @ block_with (old_never_flags @ [LF]) @ [LF]"
  have rd: "read [''Kbuild''] (kbuild_state ?t) = (Inr ?t, kbuild_state ?t)" by (rule read_kbuild_state) code_simp
  have site: "block_site [''Kbuild''] ?pre [LF]" by code_simp
  have "old_never_flags @ [LF] \<in> set owned_middles" by (simp add: owned_middles_def)
  from kbuild_migration_recognised [OF kbuild_block_shapes(2) rd site_recognised [OF site this] refl]
  have "installed_kbuild_block [''Kbuild''] (py_replace1 ?t (block_with (old_never_flags @ [LF]))
      (block_with (resukisu_flags @ [LF]))) = Inr (block_with (resukisu_flags @ [LF]))"
    by (simp only: strip_block)
  moreover have "py_replace1 ?t (block_with (old_never_flags @ [LF])) (block_with (resukisu_flags @ [LF])) =
      ?pre @ block_with (resukisu_flags @ [LF]) @ [LF]"
    unfolding py_replace1_def find_at_site [OF site] by simp
  ultimately show ?thesis by (simp only:)
qed

end
