(* ===== verification/Depth_Laws.thy ===== *)
theory Depth_Laws
  imports Kbuild
begin

text \<open>
  The two functions that guard the place of a block count conditionals. A count of zero at the boundary means that the lines
  above it form a balanced sequence in the sense of a grammar.
\<close>

datatype line_kind = Opening | Closing | Neutral

definition kind_of :: "(string \<Rightarrow> bool) \<Rightarrow> (string \<Rightarrow> bool) \<Rightarrow> string \<Rightarrow> line_kind" where
  "kind_of opens closes line =
     (let stripped = py_strip line
      in if stripped = [] \<or> prefix ''#'' stripped then Neutral
         else if opens stripped then Opening else if closes stripped then Closing else Neutral)"

inductive balanced :: "line_kind list \<Rightarrow> bool" where
  empty: "balanced []"
| neutral: "balanced [Neutral]"
| nest: "balanced xs \<Longrightarrow> balanced (Opening # xs @ [Closing])"
| join: "balanced xs \<Longrightarrow> balanced ys \<Longrightarrow> balanced (xs @ ys)"

text \<open>A balanced sequence may be inserted anywhere.\<close>

lemma balanced_insert:
  "balanced xs \<Longrightarrow> xs = a @ b \<Longrightarrow> balanced m \<Longrightarrow> balanced (a @ m @ b)"
proof (induction arbitrary: a b rule: balanced.induct)
  case empty
  then show ?case by simp
next
  case neutral
  then have "a = [] \<and> b = [Neutral] \<or> a = [Neutral] \<and> b = []" by (cases a) auto
  then show ?case using neutral(2) balanced.neutral balanced.join [of m "[Neutral]"] balanced.join [of "[Neutral]" m] by auto
next
  case (nest xs)
  let ?w = "Opening # xs @ [Closing]"
  have w: "balanced ?w" using nest.hyps by (rule balanced.nest)
  consider "a = []" | "b = []" | a' b' where "a = Opening # a'" "b = b' @ [Closing]" "xs = a' @ b'"
    using nest.prems(1) by (cases a; cases b rule: rev_cases) auto
  then show ?case
  proof cases
    case 1
    then show ?thesis using nest.prems w balanced.join [of m ?w] by simp
  next
    case 2
    then show ?thesis using nest.prems w balanced.join [of ?w m] by simp
  next
    case 3
    then show ?thesis using balanced.nest [OF nest.IH [OF 3(3) nest.prems(2)]] by simp
  qed
next
  case (join xs ys)
  from join.prems(1) obtain c where "xs = a @ c \<and> c @ ys = b \<or> xs @ c = a \<and> ys = c @ b"
    by (auto simp: append_eq_append_conv2)
  then show ?case
  proof
    assume c: "xs = a @ c \<and> c @ ys = b"
    then have "balanced (a @ m @ c)" using join.IH(1) join.prems(2) by blast
    from balanced.join [OF this join.hyps(2)] c show ?thesis by auto
  next
    assume c: "xs @ c = a \<and> ys = c @ b"
    then have "balanced (c @ m @ b)" using join.IH(2) join.prems(2) by blast
    from balanced.join [OF join.hyps(1) this] c show ?thesis by auto
  qed
qed

subsection \<open>The loop recognises the grammar\<close>

lemma depth_loop_step:
  "depth_loop opens closes e d (line # lines) = (case kind_of opens closes line of
      Neutral \<Rightarrow> depth_loop opens closes e d lines
    | Opening \<Rightarrow> depth_loop opens closes e (d + 1) lines
    | Closing \<Rightarrow> if d < 1 then Inl e else depth_loop opens closes e (d - 1) lines)"
  by (simp add: kind_of_def Let_def)

lemma depth_loop_append:
  "depth_loop opens closes e d (xs @ ys) = rbind (depth_loop opens closes e d xs) (\<lambda>d'. depth_loop opens closes e d' ys)"
  by (induction opens closes e d xs rule: depth_loop.induct) (auto simp: Let_def)

lemma loop_balanced:
  "balanced ks \<Longrightarrow> map (kind_of opens closes) lines = ks \<Longrightarrow> 0 \<le> d \<Longrightarrow>
   depth_loop opens closes e d lines = Inr d"
proof (induction arbitrary: lines d rule: balanced.induct)
  case empty
  then show ?case by simp
next
  case neutral
  then show ?case by (auto simp: depth_loop_step simp del: depth_loop.simps(2))
next
  case (nest xs)
  then obtain l ms r where lines: "lines = l # ms @ [r]" "kind_of opens closes l = Opening"
    "map (kind_of opens closes) ms = xs" "kind_of opens closes r = Closing"
    by (auto simp: map_eq_Cons_conv map_eq_append_conv)
  then show ?case
    using nest.IH [OF lines(3), of "d + 1"] nest.prems(2)
    by (simp add: depth_loop_step depth_loop_append del: depth_loop.simps(2))
next
  case (join xs ys)
  then obtain l r where "lines = l @ r" "map (kind_of opens closes) l = xs" "map (kind_of opens closes) r = ys"
    by (auto simp: map_eq_append_conv)
  then show ?case using join.IH join.prems(2) by (simp add: depth_loop_append)
qed

lemma balanced_loop:
  "depth_loop opens closes e (int d) lines = Inr 0 \<Longrightarrow>
   balanced (replicate d Opening @ map (kind_of opens closes) lines)"
proof (induction lines arbitrary: d)
  case Nil
  then show ?case by (simp add: balanced.empty)
next
  case (Cons l lines)
  show ?case
  proof (cases "kind_of opens closes l")
    case Opening
    with Cons.prems have "depth_loop opens closes e (int (Suc d)) lines = Inr 0"
      by (simp add: depth_loop_step add.commute del: depth_loop.simps(2))
    from Cons.IH [OF this] Opening show ?thesis by (simp add: replicate_append_same [symmetric])
  next
    case Neutral
    with Cons.prems have "depth_loop opens closes e (int d) lines = Inr 0"
      by (simp add: depth_loop_step del: depth_loop.simps(2))
    from balanced_insert [OF Cons.IH [OF this] refl balanced.neutral] Neutral show ?thesis by simp
  next
    case Closing
    with Cons.prems obtain n where n: "d = Suc n" "depth_loop opens closes e (int n) lines = Inr 0"
      by (cases d) (auto simp: depth_loop_step simp del: depth_loop.simps(2))
    have "balanced [Opening, Closing]" using balanced.nest [OF balanced.empty] by simp
    from balanced_insert [OF Cons.IH [OF n(2)] refl this] Closing n(1) show ?thesis
      by (simp add: replicate_append_same [symmetric])
  qed
qed

lemma depth_loop_balanced:
  "depth_loop opens closes e 0 lines = Inr 0 \<longleftrightarrow> balanced (map (kind_of opens closes) lines)"
  using balanced_loop [of opens closes e 0 lines] loop_balanced [OF _ refl, of opens closes lines 0 e] by auto

lemma depth_zero_only:
  "rbind (depth_loop opens closes e 0 lines) (\<lambda>depth. if depth \<noteq> 0 then Inl e' else Inr depth) = Inr d \<longleftrightarrow>
   d = 0 \<and> balanced (map (kind_of opens closes) lines)"
  unfolding depth_loop_balanced [symmetric, of _ _ _ e] by (auto simp: rbind_eq_Inr split: if_splits)

text \<open>
  C32: the place of a block is outside all conditionals exactly when the lines above it are balanced. For a boundary in a Makefile
  or Kconfig text, \<^verbatim>\<open>make_conditional_depth\<close> and \<^verbatim>\<open>kconfig_condition_depth\<close> succeed, with depth 0, iff the kinds of the lines before the
  boundary - opening, closing, or neutral for blank lines, comments and all other lines - form a word of the
  grammar of balanced conditionals. In all other cases they raise.
\<close>

theorem conditional_depth_balanced:
  "(make_conditional_depth path t n = Inr d \<longleftrightarrow>
      d = 0 \<and> balanced (map (kind_of make_opens make_closes) (py_splitlines (take n t)))) \<and>
   (kconfig_condition_depth path t n = Inr d \<longleftrightarrow>
      d = 0 \<and> balanced (map (kind_of kconfig_opens kconfig_closes) (py_splitlines (take n t))))"
  unfolding make_conditional_depth_def kconfig_condition_depth_def depth_zero_only by simp

end
