(* ===== verification/Kconfig_Laws.thy ===== *)
theory Kconfig_Laws
  imports Kbuild_Laws Depth_Laws Regex_Class
begin

text \<open>
  Installing the Kconfig block and recognising it fit together: what \<^verbatim>\<open>insert_before_last\<close> writes is what
  \<^verbatim>\<open>installed_kconfig_block\<close> accepts.
\<close>

subsection \<open>The shape of the block\<close>

definition kconfig_body :: string where
  \<open>kconfig_body =
     ''config KSU_ABK_SANDBOX\<newline>'' @
     ''    bool "ABK per-app KernelSU sandbox"\<newline>'' @
     ''    depends on KSU=y && SECURITY_SELINUX && NAMESPACES\<newline>'' @
     ''    default n\<newline>'' @
     ''    help\<newline>'' @
     ''      Put authorized untrusted-app su sessions in per-app SELinux and\<newline>'' @
     ''      mount namespaces. Unsupported or incomplete initialization fails closed.''\<close>

definition kconfig_core :: string where
  "kconfig_core = block_head @ LF # kconfig_body"

lemma kconfig_shape: "KCONFIG_BLOCK = LF # LF # kconfig_core @ [LF]"
  by (simp add: KCONFIG_BLOCK_def kconfig_core_def kconfig_body_def block_head_def)

lemma kconfig_strip: "py_strip KCONFIG_BLOCK = kconfig_core"
  unfolding kconfig_shape
  by (simp add: py_strip_def py_lstrip_def py_rstrip_def kconfig_core_def block_head_def kconfig_body_def py_space_def)

lemma definition_line: "line_regex kconfig_definition_pattern"
  by (simp add: kconfig_definition_pattern_def rblank_def rplus_def)

lemma kconfig_facts:
  "\<not> py_in MARKER kconfig_body" "py_count MARKER block_head = 1"
  "re_finditer kconfig_definition_pattern block_head = []" "length (re_finditer kconfig_definition_pattern kconfig_body) = 1"
  "re_finditer kconfig_definition_pattern [] = []"
  by code_simp+

subsection \<open>The anchor\<close>

lemma anchor_split:
  assumes "re_finditer (needle_pattern needle) t \<noteq> []" "i = fst (last (re_finditer (needle_pattern needle) t))"
  shows "i \<le> length t \<and> (take i t = [] \<or> (\<exists>u. take i t = u @ [LF]))"
proof -
  obtain r where r: "needle_pattern needle = RSeq RBol r" by (simp add: needle_pattern_def)
  obtain b g where "(i, b, g) \<in> set (re_finditer (RSeq RBol r) t)"
    using last_in_set [OF assms(1)] assms(2) unfolding r by (metis prod.collapse)
  from bol_match_start [OF this] have i: "i \<le> length t" "i = 0 \<or> t ! (i - 1) = LF" by auto
  show ?thesis
  proof (cases i)
    case (Suc j)
    then have "take i t = take j t @ [t ! j]" using i(1) by (simp add: take_Suc_conv_app_nth)
    with i Suc show ?thesis by auto
  qed simp
qed

subsection \<open>The end of the menu\<close>

lemma endmenu_blank:
  assumes "x \<in> set [SP, HT, CR, LF]" "re_match endmenu_pattern s \<noteq> None"
  shows "re_match endmenu_pattern (x # s) \<noteq> None"
proof -
  let ?P = "\<lambda>c. c \<in> set [SP, HT, CR, LF]"
  define q where "q = RSeq (RLit ''endmenu'') (RAlt rspace REnd)"
  have pat: "endmenu_pattern = RSeq RBol (RSeq (RStar (RCls ?P)) q)" by (simp add: endmenu_pattern_def rchars_def q_def)
  have res: "re_results endmenu_pattern (None, v) \<noteq> [] \<longleftrightarrow> (\<exists>n\<le>length (takeWhile ?P v). re_results q (adv n (None, v)) \<noteq> [])" for v
    unfolding pat results_seq_bol re_results.simps(3) [of "RStar _"] results_star_class
    by (auto simp: add_groups_def less_Suc_eq_le simp del: upt_Suc)
  have q: "re_results q (p, v) \<noteq> [] \<longleftrightarrow> prefix ''endmenu'' v \<and> (re_results (RAlt rspace REnd) (None, drop 7 v) \<noteq> [])" for p v
  proof -
    have "re_results (RAlt rspace REnd) (a, w) \<noteq> [] \<longleftrightarrow> re_results (RAlt rspace REnd) (b, w) \<noteq> []" for a b w
      by (cases w) (auto simp: rspace_def is_end_def)
    moreover have "length ''endmenu'' = 7" by simp
    ultimately show ?thesis unfolding q_def results_seq_lit by (metis prod.collapse snd_adv snd_conv)
  qed
  from assms(2) obtain n where n: "n \<le> length (takeWhile ?P s)" "re_results q (adv n (None, s)) \<noteq> []"
    unfolding match_nonempty res by blast
  have "re_results q (adv (Suc n) (None, x # s)) \<noteq> []"
    using n(2) q [of "fst (adv n (None, s))" "drop n s"] q [of "fst (adv (Suc n) (None, x # s))" "drop n s"]
    by (metis drop_Suc_Cons prod.collapse snd_adv snd_conv)
  then show ?thesis unfolding match_nonempty res using n(1) assms(1) by (intro exI [of _ "Suc n"]) simp
qed

subsection \<open>A text with the block\<close>

text \<open>The place of the block: at the beginning of a line, with no marker and no definition around it.\<close>

definition kconfig_site :: "path \<Rightarrow> string \<Rightarrow> string \<Rightarrow> bool" where
  "kconfig_site path pre post \<longleftrightarrow> (pre = [] \<or> (\<exists>u. pre = u @ [LF])) \<and> \<not> py_in MARKER (pre @ post) \<and>
     re_finditer kconfig_definition_pattern (pre @ post) = [] \<and>
     kconfig_condition_depth path pre (length pre) = Inr 0 \<and> re_match endmenu_pattern post \<noteq> None"

lemma site_parts:
  assumes "kconfig_site path pre post"
  shows "\<not> py_in MARKER pre" "\<not> py_in MARKER post"
    "re_finditer kconfig_definition_pattern pre = []" "re_finditer kconfig_definition_pattern post = []"
proof -
  from assms have m: "\<not> py_in MARKER (pre @ post)" by (simp add: kconfig_site_def)
  show "\<not> py_in MARKER pre" using m py_in_take [of MARKER "length pre" "pre @ post"] by auto
  show "\<not> py_in MARKER post" using m py_in_drop [of MARKER "length pre" "pre @ post"] by auto
  note lines = re_finditer_lines [OF definition_line]
  have d: "re_finditer kconfig_definition_pattern (pre @ post) = []" using assms by (simp add: kconfig_site_def)
  from assms consider "pre = []" | u where "pre = u @ [LF]" unfolding kconfig_site_def by blast
  then show "re_finditer kconfig_definition_pattern pre = []" "re_finditer kconfig_definition_pattern post = []"
    using d kconfig_facts(5) lines [of _ "[]"] lines [of _ post] by (cases; simp)+
qed

lemma site_depth:
  assumes "kconfig_site path pre post"
  shows "kconfig_condition_depth path (pre @ LF # LF # rest) (length pre + 2) = Inr 0"
proof -
  let ?loop = "depth_loop kconfig_opens kconfig_closes (InstallError (''unbalanced Kconfig conditional in '' @ str_path path))"
  have "splitlines_keep (pre @ [LF, LF]) = splitlines_keep pre @ [[LF], [LF]]"
  proof -
    from assms consider "pre = []" | u where "pre = u @ [LF]" unfolding kconfig_site_def by blast
    then show ?thesis
      by cases (simp_all add: py_break_def splitlines_at_newline [of _ "[LF, LF]"])
  qed
  then have sl: "py_splitlines (pre @ [LF, LF]) = py_splitlines pre @ [[], []]"
    by (simp add: py_splitlines_def chop_break_def suffix_def py_break_def)
  have blank: "?loop d [[], []] = Inr d" for d by (simp add: py_strip_def py_lstrip_def py_rstrip_def)
  have "?loop 0 (py_splitlines (pre @ [LF, LF])) = ?loop 0 (py_splitlines pre)"
    unfolding sl depth_loop_append blank by (cases "?loop 0 (py_splitlines pre)") simp_all
  moreover have "take (length pre + 2) (pre @ LF # LF # rest) = pre @ [LF, LF]" by simp
  ultimately show ?thesis
    using assms by (simp add: kconfig_site_def kconfig_condition_depth_def)
qed

lemma find_here: "py_find c (c @ v) = Some 0"
proof (cases "c @ v")
  case (Cons a w)
  then have "prefix c (a # w)" by (metis prefixI)
  with Cons show ?thesis by simp
qed simp

lemma head_in_core: "prefix block_head kconfig_core"
  by (simp add: kconfig_core_def)

lemma site_find:
  assumes "\<not> py_in MARKER pre" "\<not> py_in MARKER post"
  shows "py_count kconfig_core (pre @ LF # LF # kconfig_core @ LF # LF # post) = 1"
    "py_find kconfig_core (pre @ LF # LF # kconfig_core @ LF # LF # post) = Some (length pre + 2)"
proof -
  have h: "\<not> py_in block_head pre" "\<not> py_in block_head []" "\<not> py_in block_head (LF # LF # post)"
    using assms marker_head plain_tokens(1,3) py_in_lines [of block_head LF "[]"]
    by (auto simp: py_in_def [of _ "[]"])
  note b = behind [OF plain_tokens(1,3) head_in_core]
  have ne: "kconfig_core \<noteq> []" by (simp add: kconfig_core_def)
  have "\<not> py_in kconfig_core (LF # LF # post)" using h(3) py_in_prefix [OF head_in_core] by blast
  then have z: "py_count kconfig_core (LF # LF # post) = 0" using py_count_zero [OF ne] by blast
  have f: "py_find kconfig_core (kconfig_core @ LF # LF # post) = Some 0"
    by (rule find_here)
  show "py_count kconfig_core (pre @ LF # LF # kconfig_core @ LF # LF # post) = 1"
    using b(1) [OF h(1)] b(1) [OF h(2)] py_count_found [OF ne f] z by simp
  show "py_find kconfig_core (pre @ LF # LF # kconfig_core @ LF # LF # post) = Some (length pre + 2)"
    using b(2) [OF h(1)] b(2) [OF h(2)] f by simp
qed

lemma kconfig_site_recognised:
  assumes site: "kconfig_site path pre post"
  shows "installed_kconfig_block path (pre @ KCONFIG_BLOCK @ [LF] @ post) = Inr (py_strip KCONFIG_BLOCK)"
proof -
  let ?t = "pre @ LF # LF # kconfig_core @ LF # LF # post"
  note parts = site_parts [OF site]
  have cnt: "py_count MARKER ?t = 1"
  proof -
    note lines = py_count_lines [OF plain_tokens(2,4)]
    have "py_count MARKER ?t = py_count MARKER pre + (py_count MARKER [] + (py_count MARKER block_head +
        (py_count MARKER kconfig_body + (py_count MARKER [] + py_count MARKER post))))"
      using lines [of pre "LF # kconfig_core @ LF # LF # post"] lines [of "[]" "kconfig_core @ LF # LF # post"]
        lines [of block_head "kconfig_body @ LF # LF # post"] lines [of kconfig_body "LF # post"] lines [of "[]" post]
      by (simp add: kconfig_core_def)
    then show ?thesis
      using parts(1,2) kconfig_facts(1,2) py_count_zero [OF plain_tokens(2)] plain_tokens(2) by simp
  qed
  have defs: "length (re_finditer kconfig_definition_pattern ?t) = 1"
  proof -
    note lines = re_finditer_lines [OF definition_line]
    show ?thesis
      using lines [of pre "LF # kconfig_core @ LF # LF # post"] lines [of "[]" "kconfig_core @ LF # LF # post"]
        lines [of block_head "kconfig_body @ LF # LF # post"] lines [of kconfig_body "LF # post"] lines [of "[]" post]
        parts(3,4) kconfig_facts(3-5) by (simp add: kconfig_core_def)
  qed
  have "re_match endmenu_pattern (LF # LF # post) \<noteq> None"
    using site by (intro endmenu_blank) (simp_all add: kconfig_site_def)
  moreover have "drop (length pre + 2 + length kconfig_core) ?t = LF # LF # post" by simp
  moreover have t: "pre @ KCONFIG_BLOCK @ [LF] @ post = ?t" by (simp add: kconfig_shape)
  ultimately show ?thesis
    unfolding t installed_kconfig_block_def Let_def kconfig_strip py_index_def
    using cnt defs site_find [OF parts(1,2)] site_depth [OF site, of "kconfig_core @ LF # LF # post"] by simp
qed



end
