(* ===== verification/Findings.thy ===== *)
theory Findings
  imports Installer
begin

text \<open>
  Inputs on which the installer does not do what it means to, evaluated on the model.
\<close>

text \<open>
  A form feed in a comment ends a line for \<^verbatim>\<open>splitlines\<close> in the raw text but has been blanked in the lexical text.
  The two lists of lines no longer match, \<^verbatim>\<open>zip\<close> stops at the shorter one, and the rest of the file disappears from the
  mask.
\<close>

theorem form_feed_loses_lines:
  "mask_c_definitely_inactive (''/* '' @ [FF] @ '' */\<newline>int x;\<newline>'') = Inr (''/* '' @ [FF] @ '' */\<newline>'')"
  by code_simp

text \<open>
  \<^verbatim>\<open>insert_before_last\<close> takes \<^verbatim>\<open>endmenu#...\<close> as its anchor, \<^verbatim>\<open>installed_kconfig_block\<close> does not: the text that the
  installer writes is one that it then refuses.
\<close>

theorem endmenu_comment_not_recognised:
  "re_finditer (needle_pattern ''endmenu'') ''menu\<newline>endmenu# end\<newline>'' = [(5, 17, [])] \<and>
   installed_kconfig_block [''Kconfig''] (''menu\<newline>'' @ KCONFIG_BLOCK @ [LF] @ ''endmenu# end\<newline>'') =
     Inl (kconfig_conflict [''Kconfig''])"
  by code_simp

text \<open>
  When the last include line ends the file without a newline, \<^verbatim>\<open>add_include\<close> puts the new directive on the same line.
\<close>

theorem include_without_newline_merges:
  "add_include ''#include <a.h>'' ''#include <b.h>'' [''f''] = Inr ''#include <a.h>#include <b.h>\<newline>''"
  by code_simp

text \<open>
  The first installation of the Kbuild block does not look at open conditionals, so it appends the block inside one,
  where \<^verbatim>\<open>installed_kbuild_block\<close> rejects it.
\<close>

theorem kbuild_appended_inside_conditional:
  "make_conditional_depth [''Kbuild''] ((py_rstrip ''ifdef X\<newline>'' @ [LF]) @ block) (length (py_rstrip ''ifdef X\<newline>'' @ [LF])) =
   Inl (InstallError ''ABK Kbuild block is nested in a conditional in /Kbuild'')"
proof -
  have "take (length u) (u @ block) = take (length u) u" for u by simp
  then have "make_conditional_depth p (u @ block) (length u) = make_conditional_depth p u (length u)" for p u
    by (simp add: make_conditional_depth_def)
  moreover have "make_conditional_depth [''Kbuild''] (py_rstrip ''ifdef X\<newline>'' @ [LF]) (length (py_rstrip ''ifdef X\<newline>'' @ [LF])) =
      Inl (InstallError ''ABK Kbuild block is nested in a conditional in /Kbuild'')" by code_simp
  ultimately show ?thesis by (simp only:)
qed

text \<open>
  A target below a regular file: the directories below that file are recorded as missing before the error is raised, and
  removing them fails with \<^verbatim>\<open>ENOTDIR\<close>. The error about the target is replaced by a report of a failed rollback, although
  nothing had been changed.
\<close>

definition blocked_state :: state where
  "blocked_state = \<lparr>fsys = [([], DirN), ([''include''], FileN [])], active_transaction = None, validation_only = False,
     work_mode = [], stdout = [], stderr = []\<rparr>"

theorem rollback_fails_below_file:
  "fst (with_transaction (write_file [''include'', ''linux'', ''a.h''] ''x'') blocked_state) =
     Inl (InstallError (''installation rollback failed: /include/linux: [Errno 20] Not a directory: '' @
       [SQ] @ ''/include/linux'' @ [SQ])) \<and>
   fsys (snd (with_transaction (write_file [''include'', ''linux'', ''a.h''] ''x'') blocked_state)) = fsys blocked_state"
  by code_simp

text \<open>
  The registration audit skips a file whose raw text does not contain \<^verbatim>\<open>security_add_\<close> before it joins continued lines, so
  a call whose name is split by a line continuation is not seen, although the joined code contains it.
\<close>

definition split_call :: string where
  "split_call = ''security_'' @ [BSL, LF] @ ''add_hooks(h, 1);''"

theorem split_registration_not_seen:
  "resukisu_registration_sources [([], DirN), ([''k''], DirN), ([''k'', ''x.c''], FileN split_call)] [''k''] = Inr [] \<and>
   re_count registration_pattern (collapse_c_line_continuations (mask_c_comments_and_literals split_call)) = 1"
  by code_simp

text \<open>
  The hook of \<^verbatim>\<open>patch_escape\<close> ends with \<^verbatim>\<open>#endif\<close> and is put directly behind the opening brace. When code follows the brace on its line,
  it ends up on the line of the directive, where the preprocessor drops it.
\<close>

definition one_line_body :: string where
  "one_line_body = ''#include <a.h>\<newline>int escape_with_root_profile(void)\<newline>{ return 1; }\<newline>''"

theorem escape_hook_swallows_code:
  "case patch_escape_text [''f''] one_line_body of
     Inr (Some t) \<Rightarrow> py_in ''#endif return 1; }\<newline>'' t
   | _ \<Rightarrow> False"
  by code_simp

end
